(* ===== verification/Prelude.thy ===== *)
theory Prelude
  imports Main "HOL-Library.Word" "HOL-Library.Monad_Syntax"
begin

section \<open>Shared vocabulary: bytes, machine integers, checked memory, scanning loops\<close>

text \<open>
  What every component of the model shares: the C types (bytes with their signed reading,
  the wrap-around of a 32 bit \<open>int\<close>), checked reads of a memory object, and the two shapes
  of scanning loop the sources use.  A computation whose C original dereferences NULL, leaves
  the object it reads or writes, or does not return has the value \<open>None\<close>; \<open>Some r\<close> means that
  it runs to the end and returns \<open>r\<close>.
\<close>

named_theorems byte_simps \<open>evaluation of byte constants and of the ctype predicates\<close>
named_theorems run_simps \<open>what an operation computes on well-formed arguments\<close>
named_theorems wf_intros \<open>well-formedness of what an operation returns\<close>

subsection \<open>Bytes\<close>

abbreviation NUL :: char where "NUL \<equiv> CHR 0x00"
abbreviation CR :: char where "CR \<equiv> CHR 0x0D"
abbreviation LF :: char where "LF \<equiv> CHR 0x0A"
abbreviation DQUOTE :: char where "DQUOTE \<equiv> CHR 0x22"
abbreviation BACKSLASH :: char where "BACKSLASH \<equiv> CHR 0x5C"
abbreviation CRLF :: string where "CRLF \<equiv> [CR, LF]"

text \<open>The unsigned and the signed reading of a C \<open>char\<close> (the sources are built for
  x86-64, where \<open>char\<close> is signed).\<close>

definition byte :: "char \<Rightarrow> int" where
  "byte c = of_char c"

definition schar :: "char \<Rightarrow> int" where
  "schar c = (if byte c < 128 then byte c else byte c - 256)"

text \<open>The conversion of an \<open>int\<close> to \<open>char\<close> keeps the low eight bits.\<close>

definition char_of_int :: "int \<Rightarrow> char" where
  "char_of_int n = char_of n"

lemmas [byte_simps] = byte_def schar_def char_of_int_def

lemma of_char_int_mod: "(of_char c :: int) = of_char c mod 256"
  by (rule sym) (rule of_char_mod_256)

lemma byte_range: "0 \<le> byte c" "byte c < 256"
  using pos_mod_bound [of 256 "of_char c :: int"] pos_mod_sign [of 256 "of_char c :: int"]
  by (simp_all add: byte_def)

lemma schar_range: "- 128 \<le> schar c" "schar c < 128"
  using byte_range [of c] by (auto simp: schar_def)

lemma byte_inject [simp]: "byte a = byte b \<longleftrightarrow> a = b"
  by (simp add: byte_def)

lemma schar_inject [simp]: "schar a = schar b \<longleftrightarrow> a = b"
proof
  assume "schar a = schar b"
  then have "byte a = byte b"
    using byte_range [of a] byte_range [of b] by (auto simp: schar_def split: if_splits)
  then show "a = b" by simp
qed simp

lemma byte_char_of_int [simp]: "byte (char_of_int n) = n mod 256"
  by (simp add: byte_def char_of_int_def)

lemma char_of_int_byte [simp]: "char_of_int (byte c) = c"
  by (simp add: char_of_int_def byte_def)

lemma byte_eqI: "byte a = byte b \<Longrightarrow> a = b"
  by simp

lemma char_of_int_schar [simp]: "char_of_int (schar c) = c"
  using byte_range [of c] by (intro byte_eqI) (simp add: schar_def)

lemma schar_char_of_int: "- 128 \<le> n \<Longrightarrow> n < 128 \<Longrightarrow> schar (char_of_int n) = n"
proof -
  assume n: "- 128 \<le> n" "n < 128"
  show ?thesis
  proof (cases "0 \<le> n")
    case True
    with n show ?thesis by (simp add: schar_def)
  next
    case False
    have "n mod 256 = (n + 256) mod 256" by simp
    also have "\<dots> = n + 256" using n False by (intro mod_pos_pos_trivial) auto
    finally have "n mod 256 = n + 256" .
    with n False show ?thesis by (simp add: schar_def)
  qed
qed

subsection \<open>The C character classes the sources use\<close>

text \<open>\<open>between\<close> of str.c, on the integer promotions of its arguments.\<close>

definition between :: "int \<Rightarrow> int \<Rightarrow> int \<Rightarrow> bool" where
  "between a x b \<longleftrightarrow> a \<le> x \<and> x \<le> b"

text \<open>\<open>isspace\<close> of the C locale: blank, tab, line feed, vertical tab, form feed and
  carriage return; no byte above 127.\<close>

definition isspace :: "char \<Rightarrow> bool" where
  "isspace c \<longleftrightarrow> c = CHR '' '' \<or> c = CHR 0x09 \<or> c = LF \<or> c = CHR 0x0B \<or> c = CHR 0x0C \<or> c = CR"

lemmas [byte_simps] = between_def isspace_def

lemma isspace_NUL [simp]: "\<not> isspace NUL"
  by (simp add: isspace_def)

lemma isspace_CR_LF [simp]: "isspace CR" "isspace LF" "isspace CHR '' ''"
  by (simp_all add: isspace_def)

subsection \<open>The 32 bit \<open>int\<close>\<close>

text \<open>
  Where the code converts to \<open>int\<close>, or lets a value that is read from the network leave its range,
  the model reduces to 32 bits in two's complement, which is what the compiled code computes.
  Positions and lengths of buffers are plain integers: a buffer lies in a region of at most
  40,960,000 bytes, so they stay far below \<open>2 ^ 31\<close>.  The size of a mapped file has no such
  bound, it is an \<open>off_t\<close>: where it meets an \<open>int\<close> the conversion is written out, and a sum
  that overflows, which is undefined in C, has no result.
\<close>

definition wrap32 :: "int \<Rightarrow> int" where
  "wrap32 n = (n + 2 ^ 31) mod 2 ^ 32 - 2 ^ 31"

lemma wrap32_id [simp]: "- (2 ^ 31) \<le> n \<Longrightarrow> n < 2 ^ 31 \<Longrightarrow> wrap32 n = n"
  by (simp add: wrap32_def)

lemma wrap32_range: "- (2 ^ 31) \<le> wrap32 n" "wrap32 n < 2 ^ 31"
  using pos_mod_bound [of "2 ^ 32" "n + 2 ^ 31"] pos_mod_sign [of "2 ^ 32" "n + 2 ^ 31"]
  by (simp_all add: wrap32_def)

lemma wrap32_mod: "wrap32 n mod 2 ^ 32 = n mod 2 ^ 32"
proof -
  have "wrap32 n mod 2 ^ 32 = (n + 2 ^ 31 - 2 ^ 31) mod 2 ^ 32"
    unfolding wrap32_def by (rule mod_diff_left_eq)
  then show ?thesis by simp
qed

lemma wrap32_cong: "m mod 2 ^ 32 = n mod 2 ^ 32 \<Longrightarrow> wrap32 m = wrap32 n"
  unfolding wrap32_def by (metis mod_add_left_eq)

lemma wrap32_wrap32_op:
  "wrap32 (wrap32 m * a + b) = wrap32 (m * a + b)"
  by (rule wrap32_cong) (metis mod_add_left_eq mod_mult_left_eq wrap32_mod)

text \<open>The value of a signed expression, when it is in the range of its type.\<close>

definition ckint :: "int \<Rightarrow> int option" where
  "ckint n = (if - (2 ^ 31) \<le> n \<and> n < 2 ^ 31 then Some n else None)"

lemma ckint_id [simp]: "- (2 ^ 31) \<le> n \<Longrightarrow> n < 2 ^ 31 \<Longrightarrow> ckint n = Some n"
  by (simp add: ckint_def)

lemma ckint_SomeD: "ckint n = Some m \<Longrightarrow> m = n \<and> - (2 ^ 31) \<le> n \<and> n < 2 ^ 31"
  by (simp add: ckint_def split: if_splits)

text \<open>C division and remainder truncate towards zero.\<close>

definition tdiv :: "int \<Rightarrow> int \<Rightarrow> int" where
  "tdiv a b = sgn a * sgn b * (\<bar>a\<bar> div \<bar>b\<bar>)"

definition tmod :: "int \<Rightarrow> int \<Rightarrow> int" where
  "tmod a b = a - tdiv a b * b"

lemma tdiv_nonneg [simp]: "0 \<le> a \<Longrightarrow> 0 < b \<Longrightarrow> tdiv a b = a div b"
  by (cases "a = 0") (simp_all add: tdiv_def)

lemma tmod_nonneg [simp]: "0 \<le> a \<Longrightarrow> 0 < b \<Longrightarrow> tmod a b = a mod b"
  by (simp add: tmod_def minus_div_mult_eq_mod)

subsection \<open>Checked access to a memory object\<close>

text \<open>
  A pointer into an object is modelled by the bytes from the pointer to the end of the
  object; a read or copy that leaves the object has no result.
\<close>

definition peek :: "string \<Rightarrow> int \<Rightarrow> char option" where
  "peek d i = (if 0 \<le> i \<and> i < int (length d) then Some (d ! nat i) else None)"

definition poke :: "string \<Rightarrow> int \<Rightarrow> char \<Rightarrow> string option" where
  "poke d i c = (if 0 \<le> i \<and> i < int (length d) then Some (d[nat i := c]) else None)"

text \<open>The source range of \<open>memcpy\<close>: a negative count is a huge \<open>size_t\<close>.\<close>

definition fetch_bytes :: "string \<Rightarrow> int \<Rightarrow> string option" where
  "fetch_bytes d n = (if 0 \<le> n \<and> n \<le> int (length d) then Some (take (nat n) d) else None)"

text \<open>A pointer moved forward; the model follows no pointer before the one it started from.\<close>

definition ptr_add :: "string \<Rightarrow> int \<Rightarrow> string option" where
  "ptr_add d n = (if 0 \<le> n then Some (drop (nat n) d) else None)"

text \<open>The C string at a pointer: the bytes before the first NUL of the object.\<close>

definition cstr :: "string \<Rightarrow> string option" where
  "cstr d = (if NUL \<in> set d then Some (takeWhile (\<lambda>c. c \<noteq> NUL) d) else None)"

lemma peek_in [simp]: "0 \<le> i \<Longrightarrow> i < int (length d) \<Longrightarrow> peek d i = Some (d ! nat i)"
  by (simp add: peek_def)

lemma poke_in [simp]: "0 \<le> i \<Longrightarrow> i < int (length d) \<Longrightarrow> poke d i c = Some (d[nat i := c])"
  by (simp add: poke_def)

lemma fetch_bytes_in [simp]:
  "0 \<le> n \<Longrightarrow> n \<le> int (length d) \<Longrightarrow> fetch_bytes d n = Some (take (nat n) d)"
  by (simp add: fetch_bytes_def)

lemma ptr_add_in [simp]: "0 \<le> n \<Longrightarrow> ptr_add d n = Some (drop (nat n) d)"
  by (simp add: ptr_add_def)

lemma cstr_terminated [simp]: "NUL \<notin> set xs \<Longrightarrow> cstr (xs @ NUL # ys) = Some xs"
  by (simp add: cstr_def takeWhile_append)

lemma bind_Some_iff: "Option.bind m f = Some y \<longleftrightarrow> (\<exists>x. m = Some x \<and> f x = Some y)"
  by (cases m) auto

end
