(* ===== verification/Memory.thy ===== *)
theory Memory
  imports Prelude
begin

section \<open>The region allocator (memory.c, memory.h)\<close>

text \<open>
  The process allocates from one region, a bump allocator over anonymous mapped memory:
  \<open>new_region\<close> maps it, \<open>reserve\<close> hands out the bytes at the current offset and \<open>advance\<close>
  moves the offset; nothing is ever freed.  Offsets are \<open>size_t\<close> values, 64 bit words whose
  addition wraps.  The locale \<open>bump_allocator\<close> is what the rest of the program relies on:
  a block starts where the used part ends, and the used part grows by the block's length.
\<close>

record region =
  rsize :: "64 word"
  allocated :: "64 word"
  offset :: "64 word"

text \<open>\<open>CACHE_PAGES\<close> of config.h and \<open>sizeof(struct region_struct)\<close>, three \<open>size_t\<close> fields.\<close>

definition CACHE_PAGES :: "64 word" where
  "CACHE_PAGES = 10000"

definition sizeof_region :: "64 word" where
  "sizeof_region = 24"

text \<open>
  \<open>new_region\<close>: the result of \<open>mmap\<close> is an argument, \<open>mapped\<close>; when it failed the process
  exits.  An earlier region is unmapped first, so nothing of it survives.
\<close>

definition new_region :: "64 word \<Rightarrow> bool \<Rightarrow> region option \<Rightarrow> region option" where
  "new_region page_size mapped memory =
     (if \<not> mapped then None
      else Some \<lparr>rsize = page_size * CACHE_PAGES,
                 allocated = page_size * CACHE_PAGES - sizeof_region,
                 offset = 0\<rparr>)"

definition advance :: "64 word \<Rightarrow> region \<Rightarrow> 64 word \<times> region" where
  "advance n m = (n, m\<lparr>offset := offset m + n\<rparr>)"

text \<open>\<open>reserve\<close> returns the address, as an offset from the region's data.\<close>

definition reserve :: "64 word \<Rightarrow> region \<Rightarrow> 64 word \<times> region" where
  "reserve n m = (offset m, snd (advance n m))"

text \<open>A run of allocations, in the order the program makes them.\<close>

fun alloc_run :: "('n \<Rightarrow> 'm \<Rightarrow> 'a \<times> 'm) \<Rightarrow> 'n list \<Rightarrow> 'm \<Rightarrow> ('a \<times> 'n) list \<times> 'm" where
  "alloc_run alloc [] m = ([], m)"
| "alloc_run alloc (n # ns) m =
     (let (a, m1) = alloc n m; (bs, m2) = alloc_run alloc ns m1 in ((a, n) # bs, m2))"

subsection \<open>The contract of a bump allocator\<close>

locale bump_allocator =
  fixes alloc :: "'n \<Rightarrow> 'm \<Rightarrow> 'a \<times> 'm"
    and used :: "'m \<Rightarrow> nat"
    and cap :: "'m \<Rightarrow> nat"
    and size_of :: "'n \<Rightarrow> nat"
    and addr_of :: "'a \<Rightarrow> nat"
  assumes alloc_at_used:
      "used m + size_of n \<le> cap m \<Longrightarrow> alloc n m = (a, m') \<Longrightarrow> addr_of a = used m"
    and alloc_uses:
      "used m + size_of n \<le> cap m \<Longrightarrow> alloc n m = (a, m') \<Longrightarrow> used m' = used m + size_of n"
    and alloc_cap: "alloc n m = (a, m') \<Longrightarrow> cap m' = cap m"
begin

lemma run_layout:
  assumes "used m + sum_list (map size_of ns) \<le> cap m" "alloc_run alloc ns m = (bs, m')"
  shows "(\<forall>(a, n) \<in> set bs. used m \<le> addr_of a \<and> addr_of a + size_of n \<le> used m')
    \<and> used m' = used m + sum_list (map size_of ns) \<and> cap m' = cap m
    \<and> sorted_wrt (\<lambda>(a, n) (b, k). addr_of a + size_of n \<le> addr_of b) bs"
  using assms
proof (induction ns arbitrary: m bs m')
  case (Cons n ns)
  obtain a m1 where a: "alloc n m = (a, m1)" by (cases "alloc n m")
  obtain cs m2 where c: "alloc_run alloc ns m1 = (cs, m2)" by (cases "alloc_run alloc ns m1")
  have bs: "bs = (a, n) # cs" "m' = m2"
    using Cons.prems(2) a c by simp_all
  have fits: "used m + size_of n \<le> cap m" using Cons.prems(1) by simp
  have m1: "used m1 = used m + size_of n" "cap m1 = cap m" "addr_of a = used m"
    using alloc_uses [OF fits a] alloc_cap [OF a] alloc_at_used [OF fits a] by simp_all
  with Cons.prems(1) have "used m1 + sum_list (map size_of ns) \<le> cap m1" by simp
  from Cons.IH [OF this c] show ?case
    using bs m1 by fastforce
qed simp

end

lemma reserve_eq: "reserve n m = (offset m, m\<lparr>offset := offset m + n\<rparr>)"
  by (simp add: reserve_def advance_def)

interpretation region: bump_allocator reserve "\<lambda>m. unat (offset m)" "\<lambda>m. unat (allocated m)" unat unat
proof unfold_locales
  fix m :: region and n a m'
  assume fits: "unat (offset m) + unat n \<le> unat (allocated m)" and r: "reserve n m = (a, m')"
  from r show "unat a = unat (offset m)" by (simp add: reserve_eq)
  have "unat (allocated m) < 2 ^ LENGTH(64)" by (rule unsigned_less)
  then have "unat (offset m) + unat n < 2 ^ 64" using fits by simp
  with r show "unat (offset m') = unat (offset m) + unat n"
    by (auto simp: reserve_eq unat_word_ariths)
qed (simp add: reserve_eq)

lemma region_run_sizes: "alloc_run reserve ns m = (bs, m') \<Longrightarrow> map snd bs = ns"
  by (induction ns arbitrary: m bs m') (auto split: prod.splits)

text \<open>C32: The blocks that are reserved after \<open>new_region\<close> lie in the region, one behind the other and
  without overlap, as long as their sizes do not add up to more than it holds.  The request that
  exhausts it is not noticed: it is answered with a block that ends outside.\<close>

theorem blocks_disjoint:
  assumes "new_region page_size True memory = Some m" "sum_list (map unat ns) \<le> unat (allocated m)"
    "alloc_run reserve ns m = (bs, m')" "unat (allocated m) < unat (offset m') + unat k" "reserve k m' = (a, m'')"
  shows "map snd bs = ns
    \<and> (\<forall>(b, n) \<in> set bs. unat b + unat n \<le> unat (allocated m))
    \<and> sorted_wrt (\<lambda>(b, n) (c, j). unat b + unat n \<le> unat c) bs
    \<and> unat a = sum_list (map unat ns) \<and> unat (allocated m) < unat a + unat k"
proof -
  have m: "offset m = 0" using assms(1) by (auto simp: new_region_def)
  then have "unat (offset m) + sum_list (map unat ns) \<le> unat (allocated m)" using assms(2) by simp
  from region.run_layout [OF this assms(3)] region_run_sizes [OF assms(3)] show ?thesis
    using m assms(2,4,5) by (fastforce simp: reserve_eq)
qed

theorem blocks_disjoint_witness:
  "\<exists>m m' m''. new_region 4096 True None = Some m \<and> alloc_run reserve [16, 32] m = ([(0, 16), (16, 32)], m')
    \<and> reserve 50000000 m' = (48, m'') \<and> unat (allocated m) < 48 + 50000000"
proof -
  let ?m = "\<lparr>rsize = 40960000, allocated = 40959976, offset = 0\<rparr>" and ?m' = "\<lparr>rsize = 40960000, allocated = 40959976, offset = 48\<rparr>"
  have n: "new_region 4096 True None = Some ?m" by (simp add: new_region_def CACHE_PAGES_def sizeof_region_def)
  have r: "alloc_run reserve [16, 32] ?m = ([(0, 16), (16, 32)], ?m')"
    and k: "reserve 50000000 ?m' = (48, ?m'\<lparr>offset := 50000048\<rparr>)" by (simp_all add: reserve_eq)
  have "unat (allocated ?m) < unat (48 :: 64 word) + unat (50000000 :: 64 word)"
    using blocks_disjoint [OF n _ r _ k] by simp
  with n r k show ?thesis by auto
qed

end
