(* ===== verification/Scan.thy ===== *)
theory Scan
  imports Prelude
begin

section \<open>The scanning loops of the sources and the interface they rely on\<close>

text \<open>
  Most of the parsing code is made of two loops over a byte reader \<open>at(s, i)\<close>:
  \<^verbatim>\<open>for (; i < l && P(at(s,i)); ++i)\<close> is \<open>scan_to\<close>, and
  \<^verbatim>\<open>for (; P(at(s,i)); ++i)\<close>, which has no bound, is \<open>scan_while\<close>; the second
  does not return when \<open>P\<close> never fails.  The locale \<open>byte_source\<close> is the contract of the
  reader, and gives both loops in closed form.  The locale \<open>checked_search\<close> is the contract
  of the linear searches of the code (headers, file cache, status and mime tables).
\<close>

function scan_to :: "(char \<Rightarrow> bool) \<Rightarrow> (int \<Rightarrow> char option) \<Rightarrow> int \<Rightarrow> int \<Rightarrow> int option" where
  "scan_to P get i l =
     (if i < l
      then do { c \<leftarrow> get i; if P c then scan_to P get (i + 1) l else Some i }
      else Some i)"
  by pat_completeness auto
termination
  by (relation "measure (\<lambda>(P, get, i, l). nat (l - i))") auto

declare scan_to.simps [simp del]

partial_function (option) scan_while :: "(char \<Rightarrow> bool) \<Rightarrow> (int \<Rightarrow> char option) \<Rightarrow> int \<Rightarrow> int option" where
  "scan_while Q get i = do { c \<leftarrow> get i; if Q c then scan_while Q get (i + 1) else Some i }"

lemma scan_to_end [simp]: "l \<le> i \<Longrightarrow> scan_to P get i l = Some i"
  by (simp add: scan_to.simps)

lemma scan_while_ret:
  assumes "scan_while Q get i = Some j"
  shows "i \<le> j \<and> (\<exists>c. get j = Some c \<and> \<not> Q c)"
proof (rule scan_while.raw_induct
    [where P = "\<lambda>Q get i j. i \<le> j \<and> (\<exists>c. get j = Some c \<and> \<not> Q c)", OF _ assms])
  fix f :: "(char \<Rightarrow> bool) \<Rightarrow> (int \<Rightarrow> char option) \<Rightarrow> int \<Rightarrow> int option"
  fix Q get i j
  assume "\<And>Q get i j. f Q get i = Some j \<Longrightarrow> i \<le> j \<and> (\<exists>c. get j = Some c \<and> \<not> Q c)"
    and "do { c \<leftarrow> get i; if Q c then f Q get (i + 1) else Some i } = Some j"
  then show "i \<le> j \<and> (\<exists>c. get j = Some c \<and> \<not> Q c)"
    by (fastforce simp: bind_Some_iff split: if_splits)
qed

subsection \<open>The interface of a byte reader\<close>

locale byte_source =
  fixes get :: "'s \<Rightarrow> int \<Rightarrow> char option"
    and bytes :: "'s \<Rightarrow> string"
    and invar :: "'s \<Rightarrow> bool"
  assumes get_in: "invar s \<Longrightarrow> 0 \<le> i \<Longrightarrow> i < int (length (bytes s)) \<Longrightarrow> get s i = Some (bytes s ! nat i)"
    and get_past: "invar s \<Longrightarrow> int (length (bytes s)) \<le> i \<Longrightarrow> get s i = Some NUL"
begin

lemma get_total: "invar s \<Longrightarrow> 0 \<le> i \<Longrightarrow> \<exists>c. get s i = Some c"
  by (cases "i < int (length (bytes s))") (auto simp: get_in get_past)

lemma get_drop:
  "invar s \<Longrightarrow> 0 \<le> i \<Longrightarrow>
     get s i = Some (case drop (nat i) (bytes s) of [] \<Rightarrow> NUL | c # _ \<Rightarrow> c)"
  by (cases "i < int (length (bytes s))")
    (auto simp: get_in get_past Cons_nth_drop_Suc [symmetric] nat_less_iff)

lemma scan_to_eq:
  assumes "invar s" "0 \<le> i" "i \<le> l" "l \<le> int (length (bytes s))"
  shows "scan_to P (get s) i l =
    Some (i + int (length (takeWhile P (take (nat (l - i)) (drop (nat i) (bytes s))))))"
  using assms
proof (induction P "get s" i l rule: scan_to.induct)
  case (1 P i l)
  show ?case
  proof (cases "i < l")
    case False
    with "1.prems" show ?thesis by simp
  next
    case True
    with "1.prems" have c: "get s i = Some (bytes s ! nat i)" and i: "nat i < length (bytes s)"
      by (auto simp: get_in)
    have n: "nat (l - i) = Suc (nat (l - (i + 1)))" "nat (i + 1) = Suc (nat i)"
      using True "1.prems" by auto
    have d: "take (nat (l - i)) (drop (nat i) (bytes s))
      = bytes s ! nat i # take (nat (l - (i + 1))) (drop (nat (i + 1)) (bytes s))"
      using i by (simp only: n Cons_nth_drop_Suc [symmetric] take_Suc_Cons)
    show ?thesis
      using True "1.prems" "1.hyps" [OF True c]
      by (subst scan_to.simps) (simp only: d c, auto)
  qed
qed

lemma scan_to_len:
  assumes "invar s" "0 \<le> i" "i \<le> int (length (bytes s))"
  shows "scan_to P (get s) i (int (length (bytes s))) =
    Some (i + int (length (takeWhile P (drop (nat i) (bytes s)))))"
  using scan_to_eq [OF assms(1,2,3)] assms by (simp add: nat_diff_distrib)

text \<open>The bounded loop never leaves its bounds.\<close>

lemma scan_to_range:
  assumes "invar s" "0 \<le> i" "i \<le> l" "l \<le> int (length (bytes s))"
  obtains j where "scan_to P (get s) i l = Some j" "i \<le> j" "j \<le> l"
proof
  show "scan_to P (get s) i l =
    Some (i + int (length (takeWhile P (take (nat (l - i)) (drop (nat i) (bytes s))))))"
    using assms by (rule scan_to_eq)
  have "length (takeWhile P (take (nat (l - i)) (drop (nat i) (bytes s)))) \<le> nat (l - i)"
    by (metis length_takeWhile_le length_take min.bounded_iff)
  with assms show "i + int (length (takeWhile P (take (nat (l - i)) (drop (nat i) (bytes s))))) \<le> l"
    by linarith
qed simp

text \<open>The unbounded loop stops at the first byte outside the class, the reader's NUL after
  the last byte included.\<close>

lemma scan_while_eq:
  assumes "invar s" "0 \<le> i" "\<not> P NUL \<or> (\<exists>c \<in> set (drop (nat i) (bytes s)). \<not> P c)"
    "i \<le> int (length (bytes s))"
  shows "scan_while P (get s) i = Some (i + int (length (takeWhile P (drop (nat i) (bytes s)))))"
  using assms(2-4)
proof (induction "drop (nat i) (bytes s)" arbitrary: i)
  case Nil
  with assms(1) show ?case
    by (subst scan_while.simps) (simp add: get_past)
next
  case (Cons c cs)
  have lt: "nat i < length (bytes s)" using Cons.hyps(2)
    by (metis drop_all linorder_not_le list.distinct(1))
  then have d: "c = bytes s ! nat i" "cs = drop (nat (i + 1)) (bytes s)"
    using Cons.hyps(2) Cons.prems(1) by (simp_all add: Cons_nth_drop_Suc [symmetric] nat_add_distrib)
  have g: "get s i = Some c" using lt Cons.prems(1) assms(1) d by (simp add: get_in nat_less_iff)
  show ?case
  proof (cases "P c")
    case False
    with g show ?thesis by (subst scan_while.simps) (simp add: Cons.hyps(2) [symmetric])
  next
    case True
    have "\<not> P NUL \<or> (\<exists>c \<in> set (drop (nat (i + 1)) (bytes s)). \<not> P c)"
      using Cons.prems(2) True Cons.hyps(2) d(2) by (metis set_ConsD)
    then have "scan_while P (get s) (i + 1) =
      Some (i + 1 + int (length (takeWhile P (drop (nat (i + 1)) (bytes s)))))"
      using Cons.hyps(1) [OF d(2)] Cons.prems lt by auto
    with True g show ?thesis
      by (subst scan_while.simps) (simp add: Cons.hyps(2) [symmetric] d(2) [symmetric])
  qed
qed

text \<open>Where NUL belongs to the class and every remaining byte does too, it never returns.\<close>

lemma scan_while_stuck:
  assumes "invar s" "0 \<le> i" "P NUL" "\<forall>c \<in> set (drop (nat i) (bytes s)). P c"
  shows "scan_while P (get s) i = None"
proof (rule ccontr)
  assume "scan_while P (get s) i \<noteq> None"
  then obtain j c where j: "i \<le> j" "get s j = Some c" "\<not> P c"
    using scan_while_ret by blast
  show False
  proof (cases "j < int (length (bytes s))")
    case True
    have "bytes s ! nat j = drop (nat i) (bytes s) ! (nat j - nat i)"
      using True j assms by simp
    moreover have "nat j - nat i < length (drop (nat i) (bytes s))"
      using True j assms by simp
    ultimately have "bytes s ! nat j \<in> set (drop (nat i) (bytes s))"
      by (metis nth_mem)
    moreover have "bytes s ! nat j = c"
      using True j assms get_in by force
    ultimately show False using assms(4) j(3) by blast
  next
    case False
    with j assms get_past show False by force
  qed
qed

end

subsection \<open>The interface of a linear search\<close>

text \<open>
  \<open>look k es\<close> walks a table from the front and returns the first entry that \<open>test\<close> accepts;
  a test that faults makes the search fault.
\<close>

locale checked_search =
  fixes look :: "'k \<Rightarrow> 'e list \<Rightarrow> 'e option option"
    and test :: "'k \<Rightarrow> 'e \<Rightarrow> bool option"
  assumes look_Nil: "look k [] = Some None"
    and look_Cons: "look k (e # es) = do { b \<leftarrow> test k e; if b then Some (Some e) else look k es }"
begin

lemma look_find:
  assumes "\<And>e. e \<in> set es \<Longrightarrow> test k e = Some (hit e)"
  shows "look k es = Some (List.find hit es)"
  using assms by (induction es) (auto simp: look_Nil look_Cons)

lemma look_append:
  "look k (es @ fs) =
     do { r \<leftarrow> look k es; case r of None \<Rightarrow> look k fs | Some e \<Rightarrow> Some (Some e) }"
proof (induction es)
  case (Cons e es)
  then show ?case by (cases "test k e") (auto simp: look_Cons)
qed (simp add: look_Nil)

lemma look_first:
  assumes "\<And>e. e \<in> set es \<Longrightarrow> test k e = Some False" "test k e = Some True"
  shows "look k (es @ e # fs) = Some (Some e)"
  using assms by (induction es) (auto simp: look_Nil look_Cons)

lemma look_absent:
  assumes "\<And>e. e \<in> set es \<Longrightarrow> test k e = Some False"
  shows "look k es = Some None"
  using assms by (induction es) (auto simp: look_Nil look_Cons)

end

end
