(* ===== verification/Str.thy ===== *)
theory Str
  imports Scan "HOL-Library.List_Lexorder"
begin

section \<open>Strings as views of memory (str.c, str.h)\<close>

text \<open>
  A \<open>str\<close> is NULL or a pointer to a length and a data pointer.  The data pointer usually
  points into the middle of a larger object (a socket buffer, a mapped file), so it is
  modelled by the bytes from the pointer to the end of that object, and the length is the
  signed \<open>int\<close> the program stored, which may be negative or larger than the object.
  Buffers are written only between their creation and the moment they are shared, so
  passing them by value keeps the program's behaviour.
\<close>

record str_struct =
  slen :: int
  sdata :: string

type_synonym str = "str_struct option"

subsection \<open>Reading\<close>

definition at :: "str \<Rightarrow> int \<Rightarrow> char option" where
  "at s pos = (case s of None \<Rightarrow> Some NUL
     | Some v \<Rightarrow> if pos < slen v then peek (sdata v) pos else Some NUL)"

definition len :: "str \<Rightarrow> int" where
  "len s = (case s of None \<Rightarrow> 0 | Some v \<Rightarrow> slen v)"

text \<open>The bytes of a view, and the views that stay inside their object.\<close>

definition chars_of :: "str \<Rightarrow> string" where
  "chars_of s = (case s of None \<Rightarrow> [] | Some v \<Rightarrow> take (nat (slen v)) (sdata v))"

definition wf_str :: "str \<Rightarrow> bool" where
  "wf_str s = (case s of None \<Rightarrow> True
     | Some v \<Rightarrow> 0 \<le> slen v \<and> slen v \<le> int (length (sdata v)))"

subsection \<open>Making strings\<close>

definition ref :: "string \<Rightarrow> int \<Rightarrow> str" where
  "ref a al = Some \<lparr>slen = al, sdata = a\<rparr>"

text \<open>\<open>blank\<close>: fresh region memory, which is zero.\<close>

definition blank :: "int \<Rightarrow> str" where
  "blank l = Some \<lparr>slen = l, sdata = replicate (nat l) NUL\<rparr>"

text \<open>The first argument of \<open>copy\<close> is a C pointer, possibly NULL.\<close>

definition copy :: "string option \<Rightarrow> int \<Rightarrow> str option" where
  "copy a al = (case a of None \<Rightarrow> Some None
     | Some d \<Rightarrow> do { x \<leftarrow> fetch_bytes d al; Some (Some \<lparr>slen = al, sdata = x\<rparr>) })"

definition clone :: "str \<Rightarrow> str option" where
  "clone s = (case s of None \<Rightarrow> None | Some v \<Rightarrow> copy (Some (sdata v)) (slen v))"

definition from_str :: "str \<Rightarrow> int \<Rightarrow> int \<Rightarrow> str option" where
  "from_str s start l = (case s of None \<Rightarrow> None
     | Some v \<Rightarrow> do { d \<leftarrow> ptr_add (sdata v) start; Some (ref d l) })"

text \<open>
  \<open>append\<close>.  A \<open>str\<close> takes 16 bytes, and \<open>blank\<close> reserves the bytes of a string behind them.  When \<open>v\<close>
  has been reserved right behind the bytes of \<open>s\<close>, the code extends \<open>s\<close> in place: it copies the bytes of
  \<open>v\<close> over \<open>v\<close> itself.  That gives the same string when there are at most 16 of them; more are written
  over themselves or over memory that is not reserved, which the next string overwrites, and then
  the model has no result.  Whether \<open>v\<close> lies there depends on what has been reserved between the two,
  so every call says it: \<open>append_str\<close> is the case where something has been.
\<close>

definition sizeof_str :: int where
  "sizeof_str = 16"

definition append_in :: "bool \<Rightarrow> str \<Rightarrow> str \<Rightarrow> str option" where
  "append_in behind s v = (case s of None \<Rightarrow> Some v
     | Some a \<Rightarrow> (case v of None \<Rightarrow> None
        | Some b \<Rightarrow> do {
            x \<leftarrow> fetch_bytes (sdata a) (slen a);
            y \<leftarrow> fetch_bytes (sdata b) (slen b);
            (if behind \<and> slen b > sizeof_str then None
             else Some (Some \<lparr>slen = slen a + slen b, sdata = x @ y\<rparr>)) }))"

definition append_str :: "str \<Rightarrow> str \<Rightarrow> str option" where
  "append_str = append_in False"

definition set_at :: "str \<Rightarrow> int \<Rightarrow> char \<Rightarrow> str option" where
  "set_at s pos c = (case s of None \<Rightarrow> Some None
     | Some v \<Rightarrow> do { d \<leftarrow> poke (sdata v) pos c; Some (Some (v\<lparr>sdata := d\<rparr>)) })"

text \<open>\<open>replace\<close> overwrites \<open>rep\<close> at \<open>pos\<close>, and leaves the string alone where the
  replacement would not end strictly before its last byte.\<close>

definition replace :: "str \<Rightarrow> int \<Rightarrow> str \<Rightarrow> str option" where
  "replace src pos rep = (case (src, rep) of
     (Some s, Some r) \<Rightarrow>
       if slen s > pos + slen r
       then do { x \<leftarrow> fetch_bytes (sdata r) (slen r);
                 if 0 \<le> pos \<and> pos + slen r \<le> int (length (sdata s))
                 then Some (Some (s\<lparr>sdata := take (nat pos) (sdata s) @ x
                                     @ drop (nat (pos + slen r)) (sdata s)\<rparr>))
                 else None }
       else Some src
   | _ \<Rightarrow> None)"

subsection \<open>Comparing\<close>

text \<open>\<open>fncmp\<close> answers whether \<open>func\<close> rejects no pair among the first \<open>n\<close> bytes.\<close>

function fncmp_loop :: "str \<Rightarrow> str \<Rightarrow> int \<Rightarrow> (char \<Rightarrow> char \<Rightarrow> bool) \<Rightarrow> int \<Rightarrow> bool option" where
  "fncmp_loop a b n func i =
     (if i < n
      then do { x \<leftarrow> at a i; y \<leftarrow> at b i;
                if func x y then Some False else fncmp_loop a b n func (i + 1) }
      else Some True)"
  by pat_completeness auto
termination
  by (relation "measure (\<lambda>(a, b, n, func, i). nat (n - i))") auto

declare fncmp_loop.simps [simp del]

definition fncmp :: "str \<Rightarrow> str \<Rightarrow> int \<Rightarrow> (char \<Rightarrow> char \<Rightarrow> bool) \<Rightarrow> bool option" where
  "fncmp a b n func = fncmp_loop a b n func 0"

definition not_equal :: "char \<Rightarrow> char \<Rightarrow> bool" where
  "not_equal x y \<longleftrightarrow> x \<noteq> y"

definition ncmp :: "str \<Rightarrow> str \<Rightarrow> int \<Rightarrow> bool option" where
  "ncmp a b n = fncmp a b n not_equal"

definition cmp :: "str \<Rightarrow> str \<Rightarrow> bool option" where
  "cmp a b = (let l = len a in if l \<noteq> len b then Some False else fncmp a b l not_equal)"

definition upcase :: "char \<Rightarrow> char" where
  "upcase x = (if between (schar CHR ''a'') (schar x) (schar CHR ''z'')
     then char_of_int (schar x - schar CHR ''a'' + schar CHR ''A'') else x)"

definition inot_equal :: "char \<Rightarrow> char \<Rightarrow> bool" where
  "inot_equal x y \<longleftrightarrow> upcase x \<noteq> upcase y"

definition icmp :: "str \<Rightarrow> str \<Rightarrow> bool option" where
  "icmp a b = (let l = len a in if l \<noteq> len b then Some False else fncmp a b l inot_equal)"

function lesser_loop :: "str \<Rightarrow> str \<Rightarrow> int \<Rightarrow> bool option" where
  "lesser_loop a b i =
     (if i < min (len a) (len b)
      then do { x \<leftarrow> at a i; y \<leftarrow> at b i;
                if schar x - schar y < 0 then Some True
                else if schar x - schar y > 0 then Some False
                else lesser_loop a b (i + 1) }
      else Some (len a < len b))"
  by pat_completeness auto
termination
  by (relation "measure (\<lambda>(a, b, i). nat (min (len a) (len b) - i))") auto

declare lesser_loop.simps [simp del]

definition lesser :: "str \<Rightarrow> str \<Rightarrow> bool option" where
  "lesser a b = lesser_loop a b 0"

subsection \<open>Well-formed views\<close>

text \<open>\<open>view xs ys\<close> is a string of the bytes \<open>xs\<close> that \<open>ys\<close> follow inside its object: every
  well-formed string is NULL or of this form, and the operations are computed on it.\<close>

definition view :: "string \<Rightarrow> string \<Rightarrow> str" where
  "view xs ys = Some \<lparr>slen = int (length xs), sdata = xs @ ys\<rparr>"

text \<open>What a formatting routine returns: the bytes and the NUL it writes behind them.\<close>

abbreviation lit :: "string \<Rightarrow> str" where
  "lit xs \<equiv> view xs [NUL]"

lemma view_not_None [simp]: "view xs ys \<noteq> None" "None \<noteq> view xs ys"
  by (simp_all add: view_def)

lemma view_is_Some [simp]: "\<exists>v. view xs ys = Some v"
  by (simp add: view_def)

lemma view_inject [simp]: "view xs ys = view xs' ys' \<longleftrightarrow> xs = xs' \<and> ys = ys'"
  by (auto simp: view_def)

lemma chars_of_view [simp]: "chars_of (view xs ys) = xs"
  by (simp add: view_def chars_of_def)

lemma chars_of_None [simp]: "chars_of None = []"
  by (simp add: chars_of_def)

lemma len_view [simp]: "len (view xs ys) = int (length xs)"
  by (simp add: view_def len_def)

lemma len_None [simp]: "len None = 0"
  by (simp add: len_def)

lemma wf_view [simp]: "wf_str (view xs ys)" "wf_str None"
  by (simp_all add: view_def wf_str_def)

lemma wf_str_view: "wf_str s \<longleftrightarrow> s = None \<or> (\<exists>xs ys. s = view xs ys)"
proof
  assume wf: "wf_str s"
  show "s = None \<or> (\<exists>xs ys. s = view xs ys)"
  proof (cases s)
    case (Some v)
    with wf have "s = view (take (nat (slen v)) (sdata v)) (drop (nat (slen v)) (sdata v))"
      by (cases v) (auto simp: wf_str_def view_def)
    then show ?thesis by blast
  qed simp
qed auto

lemma wf_strE:
  assumes "wf_str s"
  obtains "s = None" | xs ys where "s = view xs ys"
  using assms wf_str_view by blast

lemma wf_len: "wf_str s \<Longrightarrow> len s = int (length (chars_of s))"
  by (auto elim: wf_strE)

lemma view_slen_sdata: "view xs ys = Some v \<longleftrightarrow> v = \<lparr>slen = int (length xs), sdata = xs @ ys\<rparr>"
  by (auto simp: view_def)

lemma case_view [simp]:
  "(case view xs ys of None \<Rightarrow> a | Some v \<Rightarrow> f v) = f \<lparr>slen = int (length xs), sdata = xs @ ys\<rparr>"
  by (simp add: view_def)

lemma at_None [simp]: "at None i = Some NUL"
  by (simp add: at_def)

lemma at_view:
  "0 \<le> i \<Longrightarrow> at (view xs ys) i = Some (if i < int (length xs) then xs ! nat i else NUL)"
  by (simp add: at_def nth_append nat_less_iff)

lemma at_middle: "at (view (ps @ c # qs) ys) (int (length ps)) = Some c"
  by (simp add: at_view nth_append)

interpretation str_at: byte_source at chars_of wf_str
  by unfold_locales (auto elim!: wf_strE simp: at_view)

text \<open>Making views.\<close>

lemma ref_view: "0 \<le> n \<Longrightarrow> n \<le> int (length d) \<Longrightarrow> ref d n = view (take (nat n) d) (drop (nat n) d)"
  by (simp add: ref_def view_def)

lemma ref_append [simp]: "ref (xs @ ys) (int (length xs)) = view xs ys"
  by (simp add: ref_view)

lemma ref_not_None [simp]: "ref d n \<noteq> None" "None \<noteq> ref d n"
  by (simp_all add: ref_def)

lemma len_ref [simp]: "len (ref d n) = n"
  by (simp add: ref_def len_def)

lemma blank_view: "blank l = view (replicate (nat l) NUL) [] \<longleftrightarrow> 0 \<le> l"
  by (auto simp: blank_def view_def)

lemma from_str_None [simp]: "from_str None i n = None"
  by (simp add: from_str_def)

text \<open>A view made by \<open>from\<close> stays inside the parent string when its end does.\<close>

lemma from_str_view [run_simps]:
  assumes "0 \<le> start" "0 \<le> l" "start + l \<le> int (length xs)"
  shows "from_str (view xs ys) start l =
    Some (view (take (nat l) (drop (nat start) xs)) (drop (nat (start + l)) xs @ ys))"
  using assms by (simp add: from_str_def ref_view nat_add_distrib add.commute)

lemma from_str_pieces [run_simps]:
  "from_str (view (xs @ ys @ zs) ws) (int (length xs)) (int (length ys)) = Some (view ys (zs @ ws))"
  by (simp add: from_str_view nat_add_distrib)

lemma clone_view [run_simps]: "clone (view xs ys) = Some (view xs [])"
  by (simp add: clone_def copy_def view_def)

lemma append_view [run_simps]: "append_str (view xs ys) (view zs ws) = Some (view (xs @ zs) [])"
  by (simp add: append_str_def append_in_def view_def)

lemma append_None [simp]: "append_str None v = Some v"
  by (simp add: append_str_def append_in_def)

lemma append_NULL [simp]: "append_str (view xs ys) None = None"
  by (simp add: append_str_def append_in_def)

text \<open>In place, at most 16 bytes.\<close>

lemma append_in_view: "append_in True (view xs ys) (view zs ws) = (if length zs \<le> 16 then Some (view (xs @ zs) []) else None)"
  by (simp add: append_in_def view_def sizeof_str_def)

lemma append_in_None [simp]: "append_in behind None v = Some v"
  by (simp add: append_in_def)

lemma append_in_False: "append_in False = append_str"
  by (simp add: append_str_def)

subsection \<open>Comparison decides equality of the bytes\<close>

definition char_at :: "str \<Rightarrow> int \<Rightarrow> char" where
  "char_at s i = (if nat i < length (chars_of s) then chars_of s ! nat i else NUL)"

lemma at_char_at: "wf_str s \<Longrightarrow> 0 \<le> i \<Longrightarrow> at s i = Some (char_at s i)"
  unfolding char_at_def
  by (auto elim!: wf_strE simp: at_view nat_less_iff)

lemma fncmp_loop_eq:
  assumes "wf_str a" "wf_str b" "0 \<le> i"
  shows "fncmp_loop a b n func i = Some (\<forall>j \<in> {i..<n}. \<not> func (char_at a j) (char_at b j))"
  using assms
proof (induction a b n func i rule: fncmp_loop.induct)
  case (1 a b n func i)
  show ?case
  proof (cases "i < n")
    case True
    have step: "{i..<n} = insert i {i + 1..<n}" using True by auto
    show ?thesis
      using 1 True unfolding step
      by (subst fncmp_loop.simps) (auto simp: at_char_at)
  qed (subst fncmp_loop.simps, auto)
qed

lemma fncmp_eq:
  "wf_str a \<Longrightarrow> wf_str b \<Longrightarrow>
     fncmp a b n func = Some (\<forall>j \<in> {0..<n}. \<not> func (char_at a j) (char_at b j))"
  by (simp add: fncmp_def fncmp_loop_eq)

lemma char_at_agree:
  assumes "wf_str a" "wf_str b" "len a = len b"
  shows "(\<forall>j \<in> {0..<len a}. f (char_at a j) = f (char_at b j))
    \<longleftrightarrow> map f (chars_of a) = map f (chars_of b)"
proof -
  have l: "len a = int (length (chars_of a))" "length (chars_of b) = length (chars_of a)"
    using wf_len [OF assms(1)] wf_len [OF assms(2)] assms(3) by simp_all
  have "(\<forall>j \<in> {0..<len a}. f (char_at a j) = f (char_at b j))
    \<longleftrightarrow> (\<forall>k < length (chars_of a). f (chars_of a ! k) = f (chars_of b ! k))"
  proof
    assume L: "\<forall>j \<in> {0..<len a}. f (char_at a j) = f (char_at b j)"
    show "\<forall>k < length (chars_of a). f (chars_of a ! k) = f (chars_of b ! k)"
    proof (intro allI impI)
      fix k assume "k < length (chars_of a)"
      then show "f (chars_of a ! k) = f (chars_of b ! k)"
        using L [rule_format, of "int k"] l by (simp add: char_at_def)
    qed
  next
    assume "\<forall>k < length (chars_of a). f (chars_of a ! k) = f (chars_of b ! k)"
    then show "\<forall>j \<in> {0..<len a}. f (char_at a j) = f (char_at b j)"
      using l by (auto simp: char_at_def)
  qed
  then show ?thesis using l(2) by (auto simp: list_eq_iff_nth_eq)
qed

lemma len_neq: "wf_str a \<Longrightarrow> wf_str b \<Longrightarrow> len a \<noteq> len b \<Longrightarrow> length (chars_of a) \<noteq> length (chars_of b)"
  by (metis wf_len)

lemma cmp_eq [run_simps]:
  assumes "wf_str a" "wf_str b"
  shows "cmp a b = Some (chars_of a = chars_of b)"
proof (cases "len a = len b")
  case True
  with assms char_at_agree [of a b "\<lambda>c. c"] show ?thesis
    by (simp add: cmp_def Let_def fncmp_eq not_equal_def)
next
  case False
  with assms have "chars_of a \<noteq> chars_of b" using len_neq by fastforce
  with False show ?thesis by (simp add: cmp_def Let_def)
qed

lemma icmp_eq [run_simps]:
  assumes "wf_str a" "wf_str b"
  shows "icmp a b = Some (map upcase (chars_of a) = map upcase (chars_of b))"
proof (cases "len a = len b")
  case True
  with assms char_at_agree [of a b upcase] show ?thesis
    by (simp add: icmp_def Let_def fncmp_eq inot_equal_def)
next
  case False
  with assms have "map upcase (chars_of a) \<noteq> map upcase (chars_of b)"
    using len_neq by (metis length_map)
  with False show ?thesis by (simp add: icmp_def Let_def)
qed

text \<open>\<open>ncmp\<close> compares prefixes when both strings are long enough.\<close>

lemma ncmp_prefix [run_simps]:
  assumes "wf_str a" "wf_str b" "0 \<le> n" "n \<le> len a" "n \<le> len b"
  shows "ncmp a b n = Some (take (nat n) (chars_of a) = take (nat n) (chars_of b))"
proof -
  have l: "nat n \<le> length (chars_of a)" "nat n \<le> length (chars_of b)"
    using assms wf_len [of a] wf_len [of b] by auto
  have "(\<forall>j \<in> {0..<n}. char_at a j = char_at b j)
    \<longleftrightarrow> (\<forall>k < nat n. chars_of a ! k = chars_of b ! k)"
  proof
    assume L: "\<forall>j \<in> {0..<n}. char_at a j = char_at b j"
    show "\<forall>k < nat n. chars_of a ! k = chars_of b ! k"
    proof (intro allI impI)
      fix k assume "k < nat n"
      then show "chars_of a ! k = chars_of b ! k"
        using L [rule_format, of "int k"] l by (simp add: char_at_def)
    qed
  qed (use l assms in \<open>auto simp: char_at_def\<close>)
  then show ?thesis
    using assms l by (simp add: ncmp_def fncmp_eq not_equal_def list_eq_iff_nth_eq)
qed

subsection \<open>The order of keys\<close>

text \<open>\<open>lesser\<close> is the lexicographic order on the signed bytes.\<close>

lemma lesser_loop_eq:
  assumes "wf_str a" "wf_str b" "0 \<le> i" "i \<le> len a" "i \<le> len b"
  shows "lesser_loop a b i =
    Some (map schar (drop (nat i) (chars_of a)) < map schar (drop (nat i) (chars_of b)))"
  using assms
proof (induction a b i rule: lesser_loop.induct)
  case (1 a b i)
  have la: "len a = int (length (chars_of a))" and lb: "len b = int (length (chars_of b))"
    using "1.prems" by (simp_all add: wf_len)
  show ?case
  proof (cases "i < min (len a) (len b)")
    case False
    then have "i = len a \<or> i = len b" using "1.prems" by linarith
    moreover have "([] < drop k xs) = (k < length xs)" for k and xs :: "int list"
      by (metis drop_eq_Nil Nil_less_Cons list.exhaust linorder_not_le order_less_irrefl)
    ultimately show ?thesis
      using False la lb "1.prems" by (subst lesser_loop.simps) (auto simp flip: drop_map)
  next
    case True
    define x y where "x = chars_of a ! nat i" and "y = chars_of b ! nat i"
    have g: "at a i = Some x" "at b i = Some y"
      using True "1.prems" la lb by (simp_all add: str_at.get_in x_def y_def)
    have d: "drop (nat i) (chars_of a) = x # drop (nat (i + 1)) (chars_of a)"
      "drop (nat i) (chars_of b) = y # drop (nat (i + 1)) (chars_of b)"
      using True "1.prems" la lb
      by (simp_all add: x_def y_def nat_add_distrib Cons_nth_drop_Suc nat_less_iff)
    have "lesser_loop a b i = (if schar x < schar y then Some True
      else if schar y < schar x then Some False else lesser_loop a b (i + 1))"
      using True by (subst lesser_loop.simps) (simp add: g)
    moreover have "\<not> schar x < schar y \<Longrightarrow> \<not> schar y < schar x \<Longrightarrow> lesser_loop a b (i + 1) =
      Some (map schar (drop (nat (i + 1)) (chars_of a)) < map schar (drop (nat (i + 1)) (chars_of b)))"
      using "1.IH" [OF True g] "1.prems" True by simp
    ultimately show ?thesis unfolding d by auto
  qed
qed

lemma lesser_eq [run_simps]:
  "wf_str a \<Longrightarrow> wf_str b \<Longrightarrow>
     lesser a b = Some (map schar (chars_of a) < map schar (chars_of b))"
  using lesser_loop_eq [of a b 0] wf_len [of a] wf_len [of b] by (simp add: lesser_def)

end
