(* ===== verification/Str_Num.thy ===== *)
theory Str_Num
  imports Str
begin

section \<open>Numbers in strings (str.c)\<close>

text \<open>
  Printing takes a \<open>reg\<close>, which is \<open>uint64_t\<close> on every platform of the Makefile, and reading
  gives an \<open>int\<close>.  \<open>int_len\<close> counts the digits of the 64 bit value, while \<open>int_print\<close> prints
  its conversion to \<open>int\<close>; the two agree below \<open>2 ^ 31\<close>.
\<close>

type_synonym reg = "64 word"

definition reg_to_int :: "reg \<Rightarrow> int" where
  "reg_to_int r = wrap32 (uint r)"

lemma word_div_less: "t \<noteq> 0 \<Longrightarrow> 1 < b \<Longrightarrow> unat (t div b) < unat t" for t b :: "64 word"
proof -
  assume a: "t \<noteq> 0" "1 < b"
  have "unat t \<noteq> 0" using a(1) by (simp add: unat_eq_zero)
  moreover have "1 < unat b" using a(2) by (simp add: word_less_nat_alt)
  ultimately show ?thesis by (simp add: unat_div_distrib)
qed

subsection \<open>Decimal\<close>

function int_len_loop :: "reg \<Rightarrow> reg \<Rightarrow> reg" where
  "int_len_loop t l = (if t = 0 then l else int_len_loop (t div 10) (l + 1))"
  by pat_completeness auto
termination
  by (relation "measure (\<lambda>(t, l). unat t)") (auto intro: word_div_less)

declare int_len_loop.simps [simp del]

text \<open>The test \<open>i < 0\<close> is on an unsigned value, and never holds.\<close>

definition int_len :: "reg \<Rightarrow> reg" where
  "int_len i = int_len_loop (i div 10) (if i < 0 then 2 else 1)"

text \<open>The loop of \<open>int_print\<close> fills the \<open>l\<close> bytes from the right.\<close>

fun int_print_loop :: "int \<Rightarrow> nat \<Rightarrow> string \<Rightarrow> string" where
  "int_print_loop t 0 acc = acc"
| "int_print_loop t (Suc l) acc =
     int_print_loop (tdiv t 10) l (char_of_int (tmod t 10 + schar CHR ''0'') # acc)"

definition int_print :: "int \<Rightarrow> reg \<Rightarrow> string" where
  "int_print i l = int_print_loop (if i < 0 then wrap32 (- i) else i) (unat l) []"

definition int_str :: "reg \<Rightarrow> str" where
  "int_str i = view (int_print (reg_to_int i) (int_len i)) []"

text \<open>\<open>str_int\<close>: \<open>Inl\<close> is the early return at a byte that is no digit, which skips the
  negation.\<close>

function str_int_loop :: "str \<Rightarrow> int \<Rightarrow> int \<Rightarrow> int \<Rightarrow> (int + int) option" where
  "str_int_loop a i l retval =
     (if i < l
      then do { c \<leftarrow> at a i;
                if \<not> between (schar CHR ''0'') (schar c) (schar CHR ''9'')
                then Some (Inl retval)
                else str_int_loop a (i + 1) l (wrap32 (retval * 10 + (schar c - schar CHR ''0''))) }
      else Some (Inr retval))"
  by pat_completeness auto
termination
  by (relation "measure (\<lambda>(a, i, l, r). nat (l - i))") auto

declare str_int_loop.simps [simp del]

definition str_int :: "str \<Rightarrow> int option" where
  "str_int a = do {
     c \<leftarrow> at a 0;
     r \<leftarrow> str_int_loop a (if c = CHR ''-'' then 1 else 0) (len a) 0;
     Some (case r of Inl n \<Rightarrow> n | Inr n \<Rightarrow> if c = CHR ''-'' then wrap32 (- n) else n) }"

subsection \<open>Hexadecimal\<close>

function hex_len_loop :: "reg \<Rightarrow> reg \<Rightarrow> reg" where
  "hex_len_loop t l = (if t = 0 then l else hex_len_loop (t div 16) (l + 1))"
  by pat_completeness auto
termination
  by (relation "measure (\<lambda>(t, l). unat t)") (auto intro: word_div_less)

declare hex_len_loop.simps [simp del]

definition hex_len :: "reg \<Rightarrow> reg" where
  "hex_len i = hex_len_loop (i div 16) 1"

definition hex_digit :: "int \<Rightarrow> char" where
  "hex_digit n = (if between 10 n 15 then char_of_int (n + schar CHR ''a'' - 10)
     else char_of_int (n + schar CHR ''0''))"

fun hex_print_loop :: "reg \<Rightarrow> nat \<Rightarrow> string \<Rightarrow> string" where
  "hex_print_loop t 0 acc = acc"
| "hex_print_loop t (Suc l) acc =
     hex_print_loop (drop_bit 4 t) l (hex_digit (uint (and t 15)) # acc)"

definition hex_print :: "reg \<Rightarrow> reg \<Rightarrow> string" where
  "hex_print i l = hex_print_loop i (unat l) []"

definition hex_str :: "reg \<Rightarrow> str" where
  "hex_str i = view (hex_print i (hex_len i)) []"

text \<open>\<open>obj_str\<close> prints an address.\<close>

definition obj_str :: "reg \<Rightarrow> str" where
  "obj_str p = hex_str p"

definition hex_step :: "int \<Rightarrow> char \<Rightarrow> int" where
  "hex_step retval c =
     (if between (schar CHR ''0'') (schar c) (schar CHR ''9'')
      then wrap32 (retval * 16 + schar c - schar CHR ''0'')
      else if between (schar CHR ''a'') (schar c) (schar CHR ''f'')
      then wrap32 (retval * 16 + schar c - schar CHR ''a'' + 10)
      else if between (schar CHR ''A'') (schar c) (schar CHR ''F'')
      then wrap32 (retval * 16 + schar c - schar CHR ''A'' + 10)
      else retval)"

function str_hex_loop :: "str \<Rightarrow> int \<Rightarrow> int \<Rightarrow> int option" where
  "str_hex_loop a i retval =
     (if i < len a
      then do { c \<leftarrow> at a i; str_hex_loop a (i + 1) (hex_step retval c) }
      else Some retval)"
  by pat_completeness auto
termination
  by (relation "measure (\<lambda>(a, i, r). nat (len a - i))") auto

declare str_hex_loop.simps [simp del]

definition str_hex :: "str \<Rightarrow> int option" where
  "str_hex a = str_hex_loop a 0 0"

subsection \<open>Positional notation\<close>

text \<open>\<open>numeral_value b dv xs\<close> is the number the digits \<open>xs\<close> denote in base \<open>b\<close>, and
  \<open>digits_of b dg t n\<close> are the last \<open>n\<close> digits of \<open>t\<close>.\<close>

definition numeral_value :: "int \<Rightarrow> (char \<Rightarrow> int) \<Rightarrow> string \<Rightarrow> int" where
  "numeral_value b dv xs = foldl (\<lambda>r c. r * b + dv c) 0 xs"

fun digits_of :: "int \<Rightarrow> (int \<Rightarrow> char) \<Rightarrow> int \<Rightarrow> nat \<Rightarrow> string" where
  "digits_of b dg t 0 = []"
| "digits_of b dg t (Suc n) = digits_of b dg (t div b) n @ [dg (t mod b)]"

fun ndigits :: "nat \<Rightarrow> nat \<Rightarrow> nat" where
  "ndigits b t = (if t = 0 \<or> b < 2 then 0 else Suc (ndigits b (t div b)))"

declare ndigits.simps [simp del]

lemma numeral_value_snoc [simp]:
  "numeral_value b dv (xs @ [c]) = numeral_value b dv xs * b + dv c"
  by (simp add: numeral_value_def)

lemma numeral_value_Nil [simp]: "numeral_value b dv [] = 0"
  by (simp add: numeral_value_def)

lemma length_digits_of [simp]: "length (digits_of b dg t n) = n"
  by (induction n arbitrary: t) simp_all

lemma set_digits_of: "0 < b \<Longrightarrow> c \<in> set (digits_of b dg t n) \<Longrightarrow> \<exists>d. 0 \<le> d \<and> d < b \<and> c = dg d"
  by (induction n arbitrary: t) (auto intro: exI [of _ "_ mod b"])

lemma numeral_value_digits_of:
  assumes "0 < b" "\<And>d. 0 \<le> d \<Longrightarrow> d < b \<Longrightarrow> dv (dg d) = d"
  shows "numeral_value b dv (digits_of b dg t n) = t mod b ^ n"
proof (induction n arbitrary: t)
  case (Suc n)
  have "t mod b ^ Suc n = b * (t div b mod b ^ n) + t mod b"
    using assms(1) by (simp add: zmod_zmult2_eq)
  with Suc assms show ?case by (simp add: mult.commute)
qed simp

lemma ndigits_upper: "2 \<le> b \<Longrightarrow> t < b ^ ndigits b t"
proof (induction b t rule: ndigits.induct)
  case (1 b t)
  show ?case
  proof (cases "t = 0")
    case False
    with 1 have "t div b < b ^ ndigits b (t div b)" by simp
    then have "t < b * b ^ ndigits b (t div b)"
      using "1.prems" by (simp add: less_mult_imp_div_less div_less_iff_less_mult mult.commute)
    with False "1.prems" show ?thesis by (subst ndigits.simps) simp
  qed (use 1 in simp)
qed

lemma ndigits_le: "2 \<le> b \<Longrightarrow> t < b ^ k \<Longrightarrow> ndigits b t \<le> k"
proof (induction k arbitrary: t)
  case 0
  then show ?case by (subst ndigits.simps) simp
next
  case (Suc k)
  then have "t div b < b ^ k" by (simp add: div_less_iff_less_mult mult.commute)
  with Suc have "ndigits b (t div b) \<le> k" by simp
  then show ?case by (subst ndigits.simps) simp
qed

lemma ndigits_64: "2 \<le> b \<Longrightarrow> t < 2 ^ 64 \<Longrightarrow> ndigits b t \<le> 64"
  by (rule ndigits_le) (auto intro: less_le_trans [OF _ power_mono [of 2 b 64]])

text \<open>Both length loops count the digits, and at least one.\<close>

definition printed_digits :: "nat \<Rightarrow> nat \<Rightarrow> nat" where
  "printed_digits b t = max 1 (ndigits b t)"

lemma printed_digits_div: "2 \<le> b \<Longrightarrow> Suc (ndigits b (t div b)) = printed_digits b t"
  unfolding printed_digits_def
  by (cases "t = 0") (simp_all add: ndigits.simps [of b t] ndigits.simps [of b 0])

lemma printed_digits_upper: "2 \<le> b \<Longrightarrow> t < b ^ printed_digits b t"
  by (rule less_le_trans [OF ndigits_upper power_increasing]) (simp_all add: printed_digits_def)

lemma int_len_loop_eq: "int_len_loop t l = l + of_nat (ndigits 10 (unat t))"
proof (induction t l rule: int_len_loop.induct)
  case (1 t l)
  show ?case
  proof (cases "t = 0")
    case False
    then show ?thesis
      using 1 by (subst int_len_loop.simps, subst ndigits.simps)
        (simp add: unat_eq_zero unat_div_distrib)
  qed (subst int_len_loop.simps, simp add: ndigits.simps)
qed

lemma hex_len_loop_eq: "hex_len_loop t l = l + of_nat (ndigits 16 (unat t))"
proof (induction t l rule: hex_len_loop.induct)
  case (1 t l)
  show ?case
  proof (cases "t = 0")
    case False
    then show ?thesis
      using 1 by (subst hex_len_loop.simps, subst ndigits.simps)
        (simp add: unat_eq_zero unat_div_distrib)
  qed (subst hex_len_loop.simps, simp add: ndigits.simps)
qed

lemma unat_Suc_small: "n \<le> 64 \<Longrightarrow> unat (1 + of_nat n :: reg) = Suc n"
  by (simp add: unat_word_ariths unat_of_nat)

lemma printed_digits_range: "unat i div b < 2 ^ 64" for i :: reg
proof -
  have "unat i < 2 ^ LENGTH(64)" by (rule unsigned_less)
  then show ?thesis by (simp add: le_less_trans [OF div_le_dividend])
qed

lemma int_len_eq: "unat (int_len i) = printed_digits 10 (unat i)"
proof -
  have "int_len i = 1 + of_nat (ndigits 10 (unat i div 10))"
    by (simp add: int_len_def int_len_loop_eq unat_div_distrib)
  then show ?thesis
    using ndigits_64 [of 10 "unat i div 10"] printed_digits_range [of i 10]
    by (simp add: unat_Suc_small printed_digits_div)
qed

lemma hex_len_eq: "unat (hex_len i) = printed_digits 16 (unat i)"
proof -
  have "hex_len i = 1 + of_nat (ndigits 16 (unat i div 16))"
    by (simp add: hex_len_def hex_len_loop_eq unat_div_distrib)
  then show ?thesis
    using ndigits_64 [of 16 "unat i div 16"] printed_digits_range [of i 16]
    by (simp add: unat_Suc_small printed_digits_div)
qed

subsection \<open>What is printed\<close>

abbreviation dec_digit :: "int \<Rightarrow> char" where
  "dec_digit n \<equiv> char_of_int (n + schar CHR ''0'')"

lemma int_print_loop_eq:
  "0 \<le> t \<Longrightarrow> int_print_loop t n acc = digits_of 10 dec_digit t n @ acc"
  by (induction n arbitrary: t acc) simp_all

lemma hex_print_loop_eq:
  "hex_print_loop t n acc = digits_of 16 hex_digit (uint t) n @ acc"
proof (induction n arbitrary: t acc)
  case (Suc n)
  have "uint (drop_bit 4 t) = uint t div 16"
    by (simp add: drop_bit_eq_div uint_div_distrib)
  moreover have "uint (and t 15) = uint t mod 16"
    using unsigned_and_eq [where 'a = int, of t 15] mask_eq_exp_minus_1 [of 4, where 'a = int]
      take_bit_eq_mask [of 4 "uint t"] by (simp add: take_bit_eq_mod)
  ultimately show ?case using Suc by simp
qed simp

lemma int_str_eq:
  assumes "unat i < 2 ^ 31"
  shows "int_str i = view (digits_of 10 dec_digit (uint i) (printed_digits 10 (unat i))) []"
proof -
  have "int (unat i) < int (2 ^ 31)" using assms by (simp only: of_nat_less_iff)
  then have "uint i < 2 ^ 31" by simp
  moreover have "- (2 ^ 31) \<le> uint i" by (rule order_trans [OF _ uint_ge_0]) simp
  ultimately have "reg_to_int i = uint i" unfolding reg_to_int_def by (rule wrap32_id [rotated])
  then show ?thesis
    by (simp add: int_str_def int_print_def int_len_eq int_print_loop_eq)
qed

lemma hex_str_eq:
  "hex_str i = view (digits_of 16 hex_digit (uint i) (printed_digits 16 (unat i))) []"
  by (simp add: hex_str_def hex_print_def hex_len_eq hex_print_loop_eq)

subsection \<open>What is read\<close>

definition is_digit :: "char \<Rightarrow> bool" where
  "is_digit c \<longleftrightarrow> between (schar CHR ''0'') (schar c) (schar CHR ''9'')"

abbreviation dec_value :: "char \<Rightarrow> int" where
  "dec_value c \<equiv> schar c - schar CHR ''0''"

lemma schar_0_9 [simp]: "schar CHR ''0'' = 48" "schar CHR ''9'' = 57" "schar CHR ''-'' = 45"
  "schar CHR ''a'' = 97" "schar CHR ''f'' = 102" "schar CHR ''z'' = 122"
  "schar CHR ''A'' = 65" "schar CHR ''F'' = 70" "schar CHR ''Z'' = 90"
  by (simp_all add: byte_simps)

text \<open>The loop of \<open>str_int\<close> on the remaining bytes.\<close>

fun read_dec :: "int \<Rightarrow> string \<Rightarrow> int + int" where
  "read_dec r [] = Inr r"
| "read_dec r (c # cs) = (if is_digit c then read_dec (wrap32 (r * 10 + dec_value c)) cs else Inl r)"

lemma str_int_loop_eq:
  assumes "wf_str a" "0 \<le> i" "i \<le> len a"
  shows "str_int_loop a i (len a) r = Some (read_dec r (drop (nat i) (chars_of a)))"
  using assms
proof (induction a i "len a" r rule: str_int_loop.induct)
  case (1 a i r)
  have l: "len a = int (length (chars_of a))" using "1.prems"(1) by (rule wf_len)
  show ?case
  proof (cases "i < len a")
    case True
    then have c: "at a i = Some (chars_of a ! nat i)"
      using "1.prems" l by (simp add: str_at.get_in)
    have "drop (nat i) (chars_of a) = chars_of a ! nat i # drop (nat (i + 1)) (chars_of a)"
      using True "1.prems" l by (simp add: nat_add_distrib Cons_nth_drop_Suc nat_less_iff)
    with True "1.prems" "1.hyps" [OF True c] c show ?thesis
      by (subst str_int_loop.simps) (simp add: is_digit_def)
  next
    case False
    with "1.prems" l show ?thesis by (subst str_int_loop.simps) simp
  qed
qed

lemma read_dec_digits:
  "\<forall>c \<in> set ds. is_digit c \<Longrightarrow>
     read_dec (wrap32 m) (ds @ rest) = read_dec (wrap32 (foldl (\<lambda>r c. r * 10 + dec_value c) m ds)) rest"
proof (induction ds arbitrary: m)
  case (Cons d ds)
  have "wrap32 (wrap32 m * 10 + dec_value d) = wrap32 (m * 10 + dec_value d)"
    by (rule wrap32_wrap32_op)
  with Cons show ?case by simp
qed simp

abbreviation dec_val :: "string \<Rightarrow> int" where
  "dec_val \<equiv> numeral_value 10 dec_value"

lemma read_dec_value:
  "\<forall>c \<in> set ds. is_digit c \<Longrightarrow> read_dec 0 (ds @ rest) = read_dec (wrap32 (dec_val ds)) rest"
  using read_dec_digits [of ds 0 rest] by (simp add: numeral_value_def)

lemma is_digit_minus [simp]: "\<not> is_digit CHR ''-''"
  by (simp add: is_digit_def between_def)

text \<open>\<open>str_int\<close> in closed form.\<close>

lemma str_int_eq:
  assumes "wf_str a"
  shows "str_int a = Some (case chars_of a of
      [] \<Rightarrow> 0
    | c # cs \<Rightarrow> if c = CHR ''-''
        then (case read_dec 0 cs of Inl n \<Rightarrow> n | Inr n \<Rightarrow> wrap32 (- n))
        else (case read_dec 0 (c # cs) of Inl n \<Rightarrow> n | Inr n \<Rightarrow> n))"
proof (cases "chars_of a")
  case Nil
  with assms have "len a = 0" by (simp add: wf_len)
  with Nil assms show ?thesis
    using str_int_loop_eq [of a 0 0] by (simp add: str_int_def str_at.get_past)
next
  case (Cons c cs)
  with assms have l: "len a = int (Suc (length cs))" and c: "at a 0 = Some c"
    by (simp_all add: wf_len str_at.get_in)
  show ?thesis
    using str_int_loop_eq [OF assms, of 0 0] str_int_loop_eq [OF assms, of 1 0] l Cons c
    by (auto simp: str_int_def split: sum.splits)
qed

lemma str_int_None [simp]: "str_int None = Some 0"
  by (simp add: str_int_eq)

text \<open>Only the bytes up to the first one that is no digit count.\<close>

lemma str_int_prefix:
  assumes "wf_str a" "chars_of a = ds @ rest" "\<forall>c \<in> set ds. is_digit c"
    "rest = [] \<or> \<not> is_digit (hd rest)" "ds \<noteq> []"
  shows "str_int a = Some (wrap32 (dec_val ds))"
proof -
  obtain d ds' where ds: "ds = d # ds'" using assms(5) by (cases ds) auto
  have "d \<noteq> CHR ''-''" using assms(3) ds by auto
  moreover have "read_dec 0 (ds @ rest) = Inl (wrap32 (dec_val ds))
      \<or> read_dec 0 (ds @ rest) = Inr (wrap32 (dec_val ds))"
    unfolding read_dec_value [OF assms(3)] using assms(4) by (cases rest) auto
  ultimately show ?thesis
    using str_int_eq [OF assms(1)] assms(2) ds by auto
qed

lemma str_hex_loop_eq:
  assumes "wf_str a" "0 \<le> i" "i \<le> len a"
  shows "str_hex_loop a i r = Some (foldl hex_step r (drop (nat i) (chars_of a)))"
  using assms
proof (induction a i r rule: str_hex_loop.induct)
  case (1 a i r)
  have l: "len a = int (length (chars_of a))" using "1.prems"(1) by (rule wf_len)
  show ?case
  proof (cases "i < len a")
    case True
    then have c: "at a i = Some (chars_of a ! nat i)"
      using "1.prems" l by (simp add: str_at.get_in)
    have "drop (nat i) (chars_of a) = chars_of a ! nat i # drop (nat (i + 1)) (chars_of a)"
      using True "1.prems" l by (simp add: nat_add_distrib Cons_nth_drop_Suc nat_less_iff)
    with True "1.prems" "1.IH" [OF True c] c show ?thesis
      by (subst str_hex_loop.simps) simp
  next
    case False
    with "1.prems" l show ?thesis by (subst str_hex_loop.simps) simp
  qed
qed

lemma str_hex_eq [run_simps]: "wf_str a \<Longrightarrow> str_hex a = Some (foldl hex_step 0 (chars_of a))"
  using str_hex_loop_eq [of a 0 0] wf_len [of a] by (simp add: str_hex_def)

subsection \<open>Printing and reading back\<close>

lemma dec_digit_props: "0 \<le> d \<Longrightarrow> d < 10 \<Longrightarrow> dec_value (dec_digit d) = d \<and> is_digit (dec_digit d)"
  by (simp add: schar_char_of_int is_digit_def between_def)

lemma digits_of_dec_all: "\<forall>c \<in> set (digits_of 10 dec_digit t n). is_digit c"
  using set_digits_of [of 10 _ dec_digit t n] dec_digit_props by fastforce

definition is_hex :: "char \<Rightarrow> bool" where
  "is_hex c \<longleftrightarrow> is_digit c \<or> between 97 (schar c) 102 \<or> between 65 (schar c) 70"

definition hex_value :: "char \<Rightarrow> int" where
  "hex_value c = (if is_digit c then schar c - 48
     else if between 97 (schar c) 102 then schar c - 87 else schar c - 55)"

abbreviation hex_val :: "string \<Rightarrow> int" where
  "hex_val \<equiv> numeral_value 16 hex_value"

lemma hex_step_eq: "hex_step r c = (if is_hex c then wrap32 (r * 16 + hex_value c) else r)"
  by (auto simp: hex_step_def is_hex_def hex_value_def is_digit_def add_diff_eq)

lemma hex_steps: "foldl hex_step (wrap32 m) xs =
  wrap32 (foldl (\<lambda>r c. r * 16 + hex_value c) m (filter is_hex xs))"
  by (induction xs arbitrary: m) (simp_all add: hex_step_eq wrap32_wrap32_op)

text \<open>\<open>str_hex\<close> ignores every byte that is no hexadecimal digit.\<close>

lemma str_hex_value: "wf_str a \<Longrightarrow> str_hex a = Some (wrap32 (hex_val (filter is_hex (chars_of a))))"
  using hex_steps [of 0 "chars_of a"] by (simp add: str_hex_eq numeral_value_def)

lemma hex_digit_props: "0 \<le> d \<Longrightarrow> d < 16 \<Longrightarrow> hex_value (hex_digit d) = d \<and> is_hex (hex_digit d)"
  by (auto simp: hex_digit_def hex_value_def is_hex_def is_digit_def between_def schar_char_of_int)

lemma digits_of_hex_all: "\<forall>c \<in> set (digits_of 16 hex_digit t n). is_hex c"
  using set_digits_of [of 16 _ hex_digit t n] hex_digit_props by fastforce

lemma printed_value:
  assumes "2 \<le> b" "\<And>d. 0 \<le> d \<Longrightarrow> d < int b \<Longrightarrow> dv (dg d) = d"
  shows "numeral_value (int b) dv (digits_of (int b) dg (int t) (printed_digits b t)) = int t"
proof -
  have "int t < int (b ^ printed_digits b t)"
    using printed_digits_upper [OF assms(1), of t] by (simp only: of_nat_less_iff)
  then have "int t mod int b ^ printed_digits b t = int t" by simp
  with numeral_value_digits_of [of "int b" dv dg "int t" "printed_digits b t"] assms
  show ?thesis by simp
qed

lemma int_str_view:
  assumes "unat i < 2 ^ 31"
  obtains ds where "int_str i = view ds []" "\<forall>c \<in> set ds. is_digit c"
    "dec_val ds = uint i" "length ds = printed_digits 10 (unat i)"
  using int_str_eq [OF assms] digits_of_dec_all [of "uint i"]
    printed_value [of 10 dec_value dec_digit "unat i"] dec_digit_props
  by (simp add: uint_nat [symmetric])

lemma hex_str_view:
  obtains ds where "hex_str i = view ds []" "\<forall>c \<in> set ds. is_hex c"
    "hex_val ds = uint i" "length ds = printed_digits 16 (unat i)"
  using hex_str_eq [of i] digits_of_hex_all [of "uint i"]
    printed_value [of 16 hex_value hex_digit "unat i"] hex_digit_props
  by (simp add: uint_nat [symmetric])

end
