(* ===== verification/Str_Parse.thy ===== *)
theory Str_Parse
  imports Str_Num
begin

section \<open>Fields, lines and chunks (str.c)\<close>

text \<open>
  The scanners of str.c.  \<open>find\<close> looks for the first byte that is one of the delimiter's
  bytes, and \<open>search\<close> is \<open>find\<close> with a key as the delimiter set.  \<open>skip_headers\<close> is a loop
  that reads the same line again and again: it has the value \<open>None\<close> when that line is not
  empty, since it never returns then.
\<close>

subsection \<open>Fields of a line\<close>

definition name_field :: "str \<Rightarrow> str option" where
  "name_field line = (case line of None \<Rightarrow> Some None
     | Some v \<Rightarrow> do {
         i \<leftarrow> scan_to (\<lambda>c. c \<noteq> CHR '':'') (at line) 0 (len line);
         Some (if i < len line then ref (sdata v) i else line) })"

function skip_commas :: "str \<Rightarrow> int \<Rightarrow> int \<Rightarrow> int \<Rightarrow> int option" where
  "skip_commas line i l n =
     (if i < l \<and> n \<noteq> 0
      then do { c \<leftarrow> at line i; skip_commas line (i + 1) l (if c = CHR '','' then n - 1 else n) }
      else Some i)"
  by pat_completeness auto
termination
  by (relation "measure (\<lambda>(line, i, l, n). nat (l - i))") auto

declare skip_commas.simps [simp del]

definition skip_fields :: "str \<Rightarrow> int \<Rightarrow> str option" where
  "skip_fields line n = (case line of None \<Rightarrow> Some None
     | Some v \<Rightarrow>
        let l = len line in
        if n = 0 then do {
          i \<leftarrow> scan_to (\<lambda>c. c \<noteq> CHR '':'') (at line) 0 l;
          i \<leftarrow> scan_to isspace (at line) (i + 1) l;
          if i < l then do { d \<leftarrow> ptr_add (sdata v) i; Some (ref d (l - i)) } else Some line }
        else do {
          i \<leftarrow> skip_commas line 0 l n;
          d \<leftarrow> ptr_add (sdata v) i;
          Some (ref d (l - i)) })"

definition dequote :: "str \<Rightarrow> str option" where
  "dequote line = do {
     i \<leftarrow> scan_to (\<lambda>c. c \<noteq> DQUOTE) (at line) 0 (len line);
     j \<leftarrow> scan_to (\<lambda>c. c \<noteq> DQUOTE) (at line) (i + 1) (len line);
     from_str line (i + 1) (j - i - 1) }"

subsection \<open>Searching\<close>

text \<open>The inner loop of \<open>find\<close>: is \<open>c\<close> one of the first \<open>dl\<close> bytes of \<open>delim\<close>?
  \<open>dl\<close> is a \<open>size_t\<close>, so a negative length reads past every object.\<close>

function delim_hit :: "char \<Rightarrow> string \<Rightarrow> int \<Rightarrow> int \<Rightarrow> bool option" where
  "delim_hit c delim j dl =
     (if j < dl
      then do { d \<leftarrow> peek delim j; if c = d then Some True else delim_hit c delim (j + 1) dl }
      else Some False)"
  by pat_completeness auto
termination
  by (relation "measure (\<lambda>(c, delim, j, dl). nat (dl - j))") auto

declare delim_hit.simps [simp del]

function find_loop :: "str_struct \<Rightarrow> int \<Rightarrow> string \<Rightarrow> int \<Rightarrow> int option" where
  "find_loop src i delim dl =
     (if i < slen src
      then do { c \<leftarrow> peek (sdata src) i;
                b \<leftarrow> delim_hit c delim 0 dl;
                if b then Some i else find_loop src (i + 1) delim dl }
      else Some i)"
  by pat_completeness auto
termination
  by (relation "measure (\<lambda>(src, i, delim, dl). nat (slen src - i))") auto

declare find_loop.simps [simp del]

definition find_str :: "str \<Rightarrow> int \<Rightarrow> string \<Rightarrow> int \<Rightarrow> int option" where
  "find_str src pos delim dl = (case src of None \<Rightarrow> None
     | Some v \<Rightarrow> do {
         n \<leftarrow> (if dl = 0 then map_option (\<lambda>x. int (length x)) (cstr delim)
               else Some (dl mod 2 ^ 64));
         find_loop v pos delim n })"

lemma find_loop_ge: "find_loop v i ds dl = Some j \<Longrightarrow> i \<le> j"
proof (induction v i ds dl rule: find_loop.induct)
  case (1 v i ds dl)
  then show ?case
    by (subst (asm) (2) find_loop.simps) (fastforce simp: bind_Some_iff split: if_splits)
qed

lemma find_str_ge: "find_str s i ds dl = Some j \<Longrightarrow> i \<le> j"
  by (auto simp: find_str_def bind_Some_iff split: option.splits dest: find_loop_ge)

definition search :: "str \<Rightarrow> int \<Rightarrow> str \<Rightarrow> int option" where
  "search src pos key = (case key of None \<Rightarrow> None
     | Some k \<Rightarrow> find_str src pos (sdata k) (slen k))"

definition read_line :: "str \<Rightarrow> int \<Rightarrow> str option" where
  "read_line src pos = (case src of None \<Rightarrow> None
     | Some v \<Rightarrow> do {
         eol \<leftarrow> find_str src pos (CRLF @ [NUL]) 2;
         d \<leftarrow> ptr_add (sdata v) pos;
         Some (ref d (eol - pos)) })"

subsection \<open>Chunks\<close>

text \<open>\<open>skip_headers\<close>: the loop advances \<open>p\<close>, but reads at \<open>pos\<close> and returns \<open>pos\<close>.\<close>

partial_function (option) skip_headers_loop :: "str \<Rightarrow> int \<Rightarrow> int \<Rightarrow> int option" where
  "skip_headers_loop src pos p = do {
     line \<leftarrow> read_line src pos;
     (if len line \<noteq> 0 \<and> pos < len src
      then skip_headers_loop src pos (p + (len line + 2))
      else Some pos) }"

definition skip_headers :: "str \<Rightarrow> int \<Rightarrow> int option" where
  "skip_headers src pos = skip_headers_loop src pos pos"

definition dechunk :: "str \<Rightarrow> str option" where
  "dechunk src = do {
     pos \<leftarrow> skip_headers src 0;
     line \<leftarrow> read_line src pos;
     d \<leftarrow> str_hex line;
     (case src of None \<Rightarrow> None
      | Some v \<Rightarrow> do { p \<leftarrow> ptr_add (sdata v) (pos + len line + 2); Some (ref p d) }) }"

subsection \<open>What the scanners return\<close>

lemma delim_hit_eq:
  "0 \<le> j \<Longrightarrow> j \<le> int (length ds) \<Longrightarrow> 
     delim_hit c (ds @ es) j (int (length ds)) = Some (c \<in> set (drop (nat j) ds))"
proof (induction c "ds @ es" j "int (length ds)" rule: delim_hit.induct)
  case (1 c j)
  show ?case
  proof (cases "j < int (length ds)")
    case True
    then have "drop (nat j) ds = ds ! nat j # drop (nat (j + 1)) ds"
      using 1 by (simp add: nat_add_distrib Cons_nth_drop_Suc nat_less_iff)
    with True 1 show ?thesis
      by (subst delim_hit.simps) (simp add: nth_append nat_less_iff)
  qed (use 1 in \<open>subst delim_hit.simps, simp\<close>)
qed

text \<open>\<open>find\<close> answers the position of the first delimiter byte, or the end of the string.\<close>

lemma find_loop_eq:
  assumes "0 \<le> i" "i \<le> int (length xs)"
  shows "find_loop \<lparr>slen = int (length xs), sdata = xs @ ys\<rparr> i (ds @ es) (int (length ds)) =
    Some (i + int (length (takeWhile (\<lambda>c. c \<notin> set ds) (drop (nat i) xs))))"
  using assms
proof (induction "\<lparr>slen = int (length xs), sdata = xs @ ys\<rparr>" i "ds @ es" "int (length ds)"
    rule: find_loop.induct)
  case (1 i)
  show ?case
  proof (cases "i < int (length xs)")
    case True
    have d: "drop (nat i) xs = xs ! nat i # drop (nat (i + 1)) xs"
      using True 1 by (simp add: nat_add_distrib Cons_nth_drop_Suc nat_less_iff)
    have p: "peek (xs @ ys) i = Some (xs ! nat i)"
      using True "1.prems" by (simp add: nth_append nat_less_iff)
    have h: "delim_hit (xs ! nat i) (ds @ es) 0 (int (length ds)) = Some (xs ! nat i \<in> set ds)"
      using delim_hit_eq [of 0 ds] by simp
    show ?thesis
      using True "1.prems" "1.hyps" p h
      by (subst find_loop.simps) (simp add: d del: peek_in)
  qed (use 1 in \<open>subst find_loop.simps, simp\<close>)
qed

lemma find_str_eq [run_simps]:
  assumes "ds \<noteq> []" "length ds < 2 ^ 64" "0 \<le> i" "i \<le> int (length xs)"
  shows "find_str (view xs ys) i (ds @ es) (int (length ds)) =
    Some (i + int (length (takeWhile (\<lambda>c. c \<notin> set ds) (drop (nat i) xs))))"
  using assms by (simp add: find_str_def find_loop_eq)

lemma find_str_past: "slen v \<le> i \<Longrightarrow> dl \<noteq> 0 \<Longrightarrow> find_str (Some v) i delim dl = Some i"
  by (simp add: find_str_def find_loop.simps)

lemma search_eq [run_simps]:
  assumes "ks \<noteq> []" "length ks < 2 ^ 64" "0 \<le> i" "i \<le> int (length xs)"
  shows "search (view xs ys) i (view ks ws) =
    Some (i + int (length (takeWhile (\<lambda>c. c \<notin> set ks) (drop (nat i) xs))))"
  using find_str_eq [OF assms] by (simp add: search_def)

lemma ref_takeWhile:
  "ref (xs @ ys) (int (length (takeWhile P xs))) = view (takeWhile P xs) (dropWhile P xs @ ys)"
  using ref_append [of "takeWhile P xs" "dropWhile P xs @ ys"]
  by (simp flip: append_assoc)

lemma takeWhile_shorter: "\<exists>x \<in> set xs. \<not> P x \<Longrightarrow> length (takeWhile P xs) < length xs"
  by (induction xs) auto

text \<open>The name of a field is what stands before the colon, or the whole line.\<close>

lemma name_field_eq [run_simps]:
  "name_field (view xs ys) =
     Some (view (takeWhile (\<lambda>c. c \<noteq> CHR '':'') xs) (dropWhile (\<lambda>c. c \<noteq> CHR '':'') xs @ ys))"
proof -
  have s: "scan_to (\<lambda>c. c \<noteq> CHR '':'') (at (view xs ys)) 0 (int (length xs)) =
      Some (int (length (takeWhile (\<lambda>c. c \<noteq> CHR '':'') xs)))"
    using str_at.scan_to_len [of "view xs ys" 0] by simp
  show ?thesis
  proof (cases "CHR '':'' \<in> set xs")
    case True
    then have "length (takeWhile (\<lambda>c. c \<noteq> CHR '':'') xs) < length xs"
      by (intro takeWhile_shorter) auto
    with s show ?thesis by (simp add: name_field_def ref_takeWhile)
  next
    case False
    then have "takeWhile (\<lambda>c. c \<noteq> CHR '':'') xs = xs" "dropWhile (\<lambda>c. c \<noteq> CHR '':'') xs = []"
      by auto
    with s show ?thesis by (simp add: name_field_def del: takeWhile_eq_all_conv)
  qed
qed

text \<open>The value of a field starts at the first byte that is no space after the colon; a line
  without such a byte is returned whole.\<close>

lemma skip_fields_value [run_simps]:
  assumes "CHR '':'' \<notin> set k" "\<forall>c \<in> set sp. isspace c" "v \<noteq> []" "\<not> isspace (hd v)"
  shows "skip_fields (view (k @ CHR '':'' # sp @ v) ys) 0 = Some (view v ys)"
proof -
  let ?xs = "k @ CHR '':'' # sp @ v"
  have k: "takeWhile (\<lambda>c. c \<noteq> CHR '':'') ?xs = k"
    using assms(1) by (simp add: takeWhile_append)
  have s1: "scan_to (\<lambda>c. c \<noteq> CHR '':'') (at (view ?xs ys)) 0 (int (length ?xs)) = Some (int (length k))"
    using str_at.scan_to_len [of "view ?xs ys" 0 "\<lambda>c. c \<noteq> CHR '':''"] k by simp
  have "drop (nat (int (length k) + 1)) ?xs = sp @ v" by (simp add: nat_add_distrib)
  moreover have "takeWhile isspace (sp @ v) = sp"
    using assms(2-4) by (cases v) (simp_all add: takeWhile_append)
  ultimately have s2: "scan_to isspace (at (view ?xs ys)) (int (length k) + 1) (int (length ?xs)) =
      Some (int (length k) + 1 + int (length sp))"
    using str_at.scan_to_len [of "view ?xs ys" "int (length k) + 1" isspace] by simp
  have n: "nat (int (length k) + 1 + int (length sp)) = length (k @ CHR '':'' # sp)" by simp
  have d: "drop (length (k @ CHR '':'' # sp)) (?xs @ ys) = v @ ys" by simp
  show ?thesis
    using s1 s2 assms(3)
    by (simp add: skip_fields_def Let_def n d del: length_append) (simp add: view_def ref_def)
qed

lemma skip_fields_whole [run_simps]:
  assumes "CHR '':'' \<notin> set xs"
  shows "skip_fields (view xs ys) 0 = Some (view xs ys)"
proof -
  have "takeWhile (\<lambda>c. c \<noteq> CHR '':'') xs = xs" using assms by auto
  then have "scan_to (\<lambda>c. c \<noteq> CHR '':'') (at (view xs ys)) 0 (int (length xs)) = Some (int (length xs))"
    using str_at.scan_to_len [of "view xs ys" 0 "\<lambda>c. c \<noteq> CHR '':''"]
    by (simp del: takeWhile_eq_all_conv)
  then show ?thesis by (simp add: skip_fields_def)
qed

text \<open>A line ends at the first carriage return or line feed.\<close>

abbreviation no_eol :: "char \<Rightarrow> bool" where
  "no_eol c \<equiv> c \<noteq> CR \<and> c \<noteq> LF"

lemma find_eol:
  assumes "0 \<le> i" "i \<le> int (length xs)"
  shows "find_str (view xs ys) i (CRLF @ [NUL]) 2 =
    Some (i + int (length (takeWhile no_eol (drop (nat i) xs))))"
proof -
  have "(\<lambda>c. c \<notin> set CRLF) = no_eol" by (auto simp: fun_eq_iff)
  with find_str_eq [of CRLF i xs ys "[NUL]"] assms show ?thesis by simp
qed

lemma read_line_eq [run_simps]:
  assumes "0 \<le> i" "i \<le> int (length xs)"
  shows "read_line (view xs ys) i =
    Some (view (takeWhile no_eol (drop (nat i) xs)) (dropWhile no_eol (drop (nat i) xs) @ ys))"
proof -
  have "drop (nat i) (xs @ ys) = drop (nat i) xs @ ys" using assms by simp
  then show ?thesis
    using assms find_eol [OF assms, of ys] ref_takeWhile [of "drop (nat i) xs" ys no_eol]
    by (simp add: read_line_def view_def [of xs ys])
qed

text \<open>\<open>skip_headers\<close> returns only where it has nothing to skip.\<close>

lemma skip_headers_loop_ret:
  assumes "skip_headers_loop src pos p = Some q"
  shows "q = pos \<and> (\<exists>line. read_line src pos = Some line \<and> (len line = 0 \<or> len src \<le> pos))"
proof (rule skip_headers_loop.raw_induct [where P = "\<lambda>src pos p q. q = pos \<and>
      (\<exists>line. read_line src pos = Some line \<and> (len line = 0 \<or> len src \<le> pos))", OF _ assms])
  fix f :: "str \<Rightarrow> int \<Rightarrow> int \<Rightarrow> int option" and src pos p q
  assume "\<And>src pos p q. f src pos p = Some q \<Longrightarrow> q = pos \<and>
      (\<exists>line. read_line src pos = Some line \<and> (len line = 0 \<or> len src \<le> pos))"
    and "do { line \<leftarrow> read_line src pos;
          (if len line \<noteq> 0 \<and> pos < len src then f src pos (p + (len line + 2)) else Some pos) } = Some q"
  then show "q = pos \<and> (\<exists>line. read_line src pos = Some line \<and> (len line = 0 \<or> len src \<le> pos))"
    by (fastforce simp: bind_Some_iff split: if_splits)
qed

lemma skip_headers_eq [run_simps]:
  assumes "0 \<le> pos" "pos \<le> int (length xs)"
  shows "skip_headers (view xs ys) pos =
    (if takeWhile no_eol (drop (nat pos) xs) = [] then Some pos else None)"
proof (cases "takeWhile no_eol (drop (nat pos) xs) = []")
  case True
  then show ?thesis
    using read_line_eq [OF assms] by (simp add: skip_headers_def skip_headers_loop.simps)
next
  case False
  then have "pos < int (length xs)" using assms by (cases "pos = int (length xs)") auto
  then have "skip_headers (view xs ys) pos = None"
    using False read_line_eq [OF assms, of ys] skip_headers_loop_ret [of "view xs ys" pos pos]
    unfolding skip_headers_def by fastforce
  with False show ?thesis by simp
qed

lemma dechunk_eq [run_simps]:
  "dechunk (view xs ys) =
     (if takeWhile no_eol xs = [] then Some (ref (drop 2 (xs @ ys)) 0) else None)"
  using skip_headers_eq [of 0 xs ys] read_line_eq [of 0 xs ys]
  by (auto simp: dechunk_def str_hex_eq)

end
