(* ===== verification/Str_Format.thy ===== *)
theory Str_Format
  imports Str_Num
begin

section \<open>The formatter (str.c: _ and new_str; log.c: log_msg)\<close>

text \<open>
  \<open>new_str\<close> interprets a format and a list of variable arguments: \<open>%s\<close> takes a \<open>str\<close>,
  \<open>%c\<close> a C string, \<open>%d\<close> and \<open>%i\<close> a \<open>reg\<close> in decimal, \<open>%p\<close>, \<open>%x\<close> and \<open>%h\<close> a
  \<open>reg\<close> or an address in hexadecimal.  A NULL \<open>str\<close> is dereferenced, so formatting one is
  a fault; a conversion without a fitting argument has no defined result.  Any other byte
  after the percent sign leaves one byte of the (zero) buffer unwritten.
\<close>

datatype fmt_arg = AStr str | AChars string | AReg reg

text \<open>The bytes that one conversion writes, for the \<open>switch\<close> of \<open>new_str\<close>.\<close>

definition convert :: "char \<Rightarrow> fmt_arg list \<Rightarrow> (string \<times> fmt_arg list) option" where
  "convert d args =
     (if d = CHR ''c'' then
        (case args of AChars p # as \<Rightarrow> do { x \<leftarrow> cstr p; Some (x, as) } | _ \<Rightarrow> None)
      else if d = CHR ''s'' then
        (case args of AStr (Some v) # as \<Rightarrow> do { x \<leftarrow> fetch_bytes (sdata v) (slen v); Some (x, as) }
         | _ \<Rightarrow> None)
      else if d = CHR ''d'' \<or> d = CHR ''i'' then
        (case args of AReg x # as \<Rightarrow> Some (int_print (reg_to_int x) (int_len x), as) | _ \<Rightarrow> None)
      else if d = CHR ''p'' \<or> d = CHR ''x'' \<or> d = CHR ''h'' then
        (case args of AReg x # as \<Rightarrow> Some (hex_print x (hex_len x), as) | _ \<Rightarrow> None)
      else Some ([NUL], args))"

fun new_str_loop :: "string \<Rightarrow> fmt_arg list \<Rightarrow> string \<Rightarrow> string option" where
  "new_str_loop [] args data = Some data"
| "new_str_loop (c # fmt) args data =
     (if c = CHR ''%'' then
        (case fmt of [] \<Rightarrow> None
         | d # fmt' \<Rightarrow> do { (x, as) \<leftarrow> convert d args; new_str_loop fmt' as (data @ x) })
      else new_str_loop fmt args (data @ [c]))"

definition new_str :: "string \<Rightarrow> fmt_arg list \<Rightarrow> str option" where
  "new_str fmt args = do { data \<leftarrow> new_str_loop fmt args []; Some (lit data) }"

text \<open>The variadic front end \<open>_\<close>.\<close>

definition fmt :: "string \<Rightarrow> fmt_arg list \<Rightarrow> str option" where
  "fmt f args = new_str f args"

text \<open>
  \<open>log_msg\<close> formats its message before it hands it to \<open>syslog\<close>, so a fault in the arguments
  is a fault of the caller.  \<open>log_level\<close> is 4, and every level of the program (0 to 3) is
  at most that.
\<close>

definition log_level :: int where
  "log_level = 4"

definition max_log_lvl :: int where
  "max_log_lvl = 4"

definition log_msg :: "int \<Rightarrow> string \<Rightarrow> fmt_arg list \<Rightarrow> unit option" where
  "log_msg lvl f args =
     (if lvl < 0 \<or> lvl > log_level \<or> lvl > max_log_lvl then Some ()
      else do { msg \<leftarrow> new_str f args; Some () })"

definition error_log :: "string \<Rightarrow> fmt_arg list \<Rightarrow> unit option" where
  "error_log = log_msg 0"

definition notice_log :: "string \<Rightarrow> fmt_arg list \<Rightarrow> unit option" where
  "notice_log = log_msg 2"

definition debug_log :: "string \<Rightarrow> fmt_arg list \<Rightarrow> unit option" where
  "debug_log = log_msg 3"

subsection \<open>What the conversions print\<close>

lemma fetch_view [simp]: "fetch_bytes (xs @ ys) (int (length xs)) = Some xs"
  by simp

lemma convert_s [simp]: "convert CHR ''s'' (AStr (view xs ys) # as) = Some (xs, as)"
  by (simp add: convert_def view_def)

lemma convert_s_NULL [simp]: "convert CHR ''s'' (AStr None # as) = None"
  by (simp add: convert_def)

lemma convert_c [simp]: "NUL \<notin> set xs \<Longrightarrow> convert CHR ''c'' (AChars (xs @ NUL # ys) # as) = Some (xs, as)"
  by (simp add: convert_def)

lemma convert_i [simp]: "convert CHR ''i'' (AReg x # as) = Some (chars_of (int_str x), as)"
  by (simp add: convert_def int_str_def)

lemma convert_h [simp]: "convert CHR ''h'' (AReg x # as) = Some (chars_of (hex_str x), as)"
  by (simp add: convert_def hex_str_def)

lemma convert_p [simp]: "convert CHR ''p'' (AReg x # as) = Some (chars_of (hex_str x), as)"
  by (simp add: convert_def hex_str_def)

lemma new_str_loop_acc:
  "new_str_loop f args (a @ b) = map_option (\<lambda>r. a @ r) (new_str_loop f args b)"
proof (induction f args b rule: new_str_loop.induct)
  case (2 c f args b)
  show ?case
  proof (cases "c = CHR ''%''")
    case True
    show ?thesis
    proof (cases f)
      case (Cons d f')
      show ?thesis
      proof (cases "convert d args")
        case (Some xa)
        obtain x as where xa: "xa = (x, as)" by (cases xa)
        from "2.IH"(1) [OF True Cons Some] xa Some show ?thesis
          using True Cons by simp
      qed (use True Cons in simp)
    qed (use True in simp)
  next
    case False
    with "2.IH"(2) show ?thesis by simp
  qed
qed simp

text \<open>A format without conversions prints itself, and formats compose.\<close>

lemma new_str_loop_plain:
  "CHR ''%'' \<notin> set f \<Longrightarrow> new_str_loop (f @ g) args data = new_str_loop g args (data @ f)"
  by (induction f arbitrary: data) auto

lemma fmt_plain [run_simps]: "CHR ''%'' \<notin> set f \<Longrightarrow> fmt f args = Some (lit f)"
  using new_str_loop_plain [of f "[]" args "[]"] by (simp add: fmt_def new_str_def)

text \<open>Whatever is printed is a terminated string.\<close>

lemma fmt_lit: "fmt f args = Some s \<Longrightarrow> \<exists>xs. s = lit xs"
  by (auto simp: fmt_def new_str_def bind_Some_iff)

lemma fmt_wf [wf_intros]: "fmt f args = Some s \<Longrightarrow> wf_str s"
  using fmt_lit by fastforce

lemma log_msg_level [simp]:
  "0 \<le> lvl \<Longrightarrow> lvl \<le> 3 \<Longrightarrow> log_msg lvl f args = map_option (\<lambda>_. ()) (new_str f args)"
  by (cases "new_str f args") (auto simp: log_msg_def log_level_def max_log_lvl_def)

end
