(* ===== verification/Str_Props.thy ===== *)
theory Str_Props
  imports Str_Parse Str_Format
begin

section \<open>What the string library guarantees\<close>

text \<open>
  The properties of str.c: printing and reading numbers, comparison, ordering, splitting
  fields, and the chunk reader, which never gets past a line that is not empty.
\<close>

subsection \<open>Numbers\<close>

text \<open>C33: A number below \<open>2 ^ 31\<close> that \<open>int_str\<close> prints is read back by \<open>str_int\<close>, and the
  printed string has no byte but digits.\<close>

theorem int_str_roundtrip:
  assumes "unat i < 2 ^ 31"
  shows "str_int (int_str i) = Some (uint i) \<and> (\<forall>c \<in> set (chars_of (int_str i)). is_digit c)"
proof -
  obtain ds where ds: "int_str i = view ds []" "\<forall>c \<in> set ds. is_digit c" "dec_val ds = uint i"
    "length ds = printed_digits 10 (unat i)"
    using int_str_view [OF assms] .
  have "int (unat i) < int (2 ^ 31)" using assms by (simp only: of_nat_less_iff)
  then have "uint i < 2 ^ 31" by simp
  moreover have "- (2 ^ 31) \<le> uint i" by (rule order_trans [OF _ uint_ge_0]) simp
  ultimately have "wrap32 (uint i) = uint i" by (rule wrap32_id [rotated])
  moreover have "ds \<noteq> []" using ds(4) by (auto simp: printed_digits_def)
  ultimately show ?thesis
    using str_int_prefix [of "view ds []" ds "[]"] ds by simp
qed

theorem int_str_roundtrip_witness:
  "str_int (int_str 1048576) = Some 1048576 \<and> list_all is_digit (chars_of (int_str 1048576))"
  using int_str_roundtrip [of 1048576] by (simp add: list_all_iff)

text \<open>\<open>hex_str\<close> prints all 64 bits of a \<open>reg\<close>, and \<open>str_hex\<close> reads back its low 32 bits as
  an \<open>int\<close>: an address that \<open>obj_str\<close> printed does not survive the way back.\<close>

theorem hex_str_roundtrip:
  "str_hex (hex_str i) = Some (reg_to_int i) \<and> hex_val (chars_of (hex_str i)) = uint i"
proof -
  obtain ds where ds: "hex_str i = view ds []" "\<forall>c \<in> set ds. is_hex c" "hex_val ds = uint i"
    using hex_str_view [of i] by metis
  from ds(2) have "filter is_hex ds = ds" by simp
  with ds show ?thesis by (simp add: str_hex_value reg_to_int_def)
qed

text \<open>The bytes of a negative number, which arrives as a \<open>reg\<close> close to \<open>2 ^ 64\<close>.\<close>

lemma printed_digits_huge:
  assumes "10 ^ 19 \<le> t" "t < 10 ^ 20"
  shows "printed_digits 10 t = 20"
proof -
  have "ndigits 10 t \<le> 20" using assms(2) by (intro ndigits_le) auto
  moreover have "\<not> ndigits 10 t \<le> 19"
  proof
    assume "ndigits 10 t \<le> 19"
    then have "(10::nat) ^ ndigits 10 t \<le> 10 ^ 19" by (intro power_increasing) auto
    with ndigits_upper [of 10 t] assms(1) show False by simp
  qed
  ultimately show ?thesis by (simp add: printed_digits_def)
qed

lemma uint_neg: "0 < n \<Longrightarrow> n < 2 ^ 31 \<Longrightarrow> uint (word_of_int (- n) :: reg) = 2 ^ 64 - n"
proof -
  assume n: "0 < n" "n < 2 ^ 31"
  have "uint (word_of_int (- n) :: reg) = (- n) mod 2 ^ LENGTH(64)"
    by (rule uint_word_of_int)
  also have "\<dots> = (- n) mod 2 ^ 64" by simp
  also have "\<dots> = (2 ^ 64 - n) mod 2 ^ 64" by (metis mod_add_self2 uminus_add_conv_diff)
  also have "\<dots> = 2 ^ 64 - n" using n by (intro mod_pos_pos_trivial) auto
  finally show ?thesis .
qed

text \<open>A negative number passed to \<open>int_str\<close> is printed without a sign: the length is that of
  the 64 bit value, the digits those of the absolute value, so it reads back as its absolute
  value behind leading zeros (its argument is unsigned, and the test \<open>i < 0\<close> of \<open>int_len\<close>
  never holds).\<close>

theorem int_str_drops_sign:
  assumes "0 < n" "n < 2 ^ 31"
  shows "length (chars_of (int_str (word_of_int (- n)))) = 20
    \<and> str_int (int_str (word_of_int (- n))) = Some n
    \<and> CHR ''-'' \<notin> set (chars_of (int_str (word_of_int (- n))))"
proof -
  define i where "i = (word_of_int (- n) :: reg)"
  let ?ds = "digits_of 10 dec_digit n 20"
  have u: "uint i = 2 ^ 64 - n" unfolding i_def using assms by (rule uint_neg)
  have un: "unat i = nat (2 ^ 64 - n)" unfolding unat_eq_nat_uint u ..
  have "10 ^ 19 \<le> unat i" "unat i < 10 ^ 20"
    unfolding un using assms by (simp_all add: le_nat_iff nat_less_iff)
  then have l: "printed_digits 10 (unat i) = 20" by (rule printed_digits_huge)
  have "wrap32 (uint i) = wrap32 (- n)" unfolding u
    using mod_diff_left_eq [of "2 ^ 64" "2 ^ 32" n] by (intro wrap32_cong) simp
  then have r: "reg_to_int i = - n" using assms by (simp add: reg_to_int_def)
  have s: "int_str i = view ?ds []"
    using assms l by (simp add: int_str_def r int_print_def int_len_eq int_print_loop_eq)
  have d: "\<forall>c \<in> set ?ds. is_digit c" by (rule digits_of_dec_all)
  have "n mod 10 ^ 20 = n" using assms by simp
  then have v: "dec_val ?ds = n"
    using numeral_value_digits_of [of 10 dec_value dec_digit n 20] dec_digit_props by simp
  have "length ?ds = 20" by (rule length_digits_of)
  moreover have "?ds \<noteq> []" using \<open>length ?ds = 20\<close> by (metis length_0_conv zero_neq_numeral)
  moreover have "CHR ''-'' \<notin> set ?ds" using d is_digit_minus by blast
  ultimately show ?thesis
    using str_int_prefix [of "view ?ds []" ?ds "[]"] d v assms unfolding i_def [symmetric] s by simp
qed

theorem int_str_drops_sign_witness:
  "length (chars_of (int_str (word_of_int (- 5)))) = 20
    \<and> str_int (int_str (word_of_int (- 5))) = Some 5
    \<and> CHR ''-'' \<notin> set (chars_of (int_str (word_of_int (- 5))))"
  using int_str_drops_sign [of 5] by simp

text \<open>\<open>str_int\<close> reads a minus sign, but returns the number without it when a byte that is no
  digit follows the digits: a field \<open>-5\<close> followed by a blank is read as 5.\<close>

theorem str_int_sign:
  assumes "\<forall>c \<in> set ds. is_digit c" "\<not> is_digit c" "dec_val ds < 2 ^ 31"
  shows "str_int (view (CHR ''-'' # ds) ys) = Some (- dec_val ds)
    \<and> str_int (view (CHR ''-'' # ds @ c # rest) ys) = Some (dec_val ds)"
proof -
  have "0 \<le> foldl (\<lambda>r c. r * 10 + dec_value c) m xs"
    if "\<forall>c \<in> set xs. is_digit c" "0 \<le> m" for m xs
    using that by (induction xs arbitrary: m) (auto simp: is_digit_def between_def)
  from this [OF assms(1), of 0] have p: "0 \<le> dec_val ds" by (simp add: numeral_value_def)
  then have w: "wrap32 (dec_val ds) = dec_val ds" "wrap32 (- dec_val ds) = - dec_val ds"
    using assms(3) by simp_all
  show ?thesis
    using read_dec_value [OF assms(1), of "[]"] read_dec_value [OF assms(1), of "c # rest"] assms(2) w
    by (simp add: str_int_eq)
qed

theorem str_int_sign_witness:
  "str_int (view (CHR ''-'' # ''42'') []) = Some (- dec_val ''42'')
    \<and> str_int (view (CHR ''-'' # ''42'' @ CHR '' '' # ''x'') []) = Some (dec_val ''42'')"
  by (rule str_int_sign) (simp_all add: is_digit_def byte_simps numeral_value_def)

subsection \<open>Comparison\<close>

text \<open>The first \<open>n\<close> bytes of a string, with NULs behind its end.\<close>

definition padded :: "int \<Rightarrow> str \<Rightarrow> string" where
  "padded n a = take (nat n) (chars_of a @ replicate (nat n) NUL)"

lemma ncmp_padded:
  assumes "wf_str a" "wf_str b" "0 \<le> n"
  shows "ncmp a b n = Some (padded n a = padded n b)"
proof -
  have nth: "padded n s ! k = char_at s (int k)" "length (padded n s) = nat n" if "k < nat n" "wf_str s" for s k
    using that wf_len [OF that(2)] by (auto simp: padded_def char_at_def nth_append)
  have "length (padded n s) = nat n" for s by (simp add: padded_def)
  then have "padded n a = padded n b \<longleftrightarrow> (\<forall>k < nat n. char_at a (int k) = char_at b (int k))"
    using nth(1) assms(1,2) by (simp add: list_eq_iff_nth_eq)
  also have "\<dots> \<longleftrightarrow> (\<forall>j \<in> {0..<n}. char_at a j = char_at b j)"
  proof (intro iffI ballI allI impI)
    fix j assume "\<forall>k < nat n. char_at a (int k) = char_at b (int k)" "j \<in> {0..<n}"
    then show "char_at a j = char_at b j" by (auto dest!: spec [of _ "nat j"])
  qed auto
  finally show ?thesis using assms by (simp add: ncmp_def fncmp_eq not_equal_def)
qed

text \<open>C34: On well-formed strings \<open>cmp\<close> decides equality of the bytes, \<open>icmp\<close> equality up to the
  case of the ASCII letters, \<open>ncmp\<close> equality of the first \<open>n\<close> bytes, where a string that is shorter
  goes on with NULs, and \<open>lesser\<close> is the lexicographic order of the signed bytes, so that exactly one
  of \<open>a < b\<close>, \<open>b < a\<close> and equality holds.\<close>

theorem comparisons_correct:
  assumes "wf_str a" "wf_str b"
  shows "cmp a b = Some (chars_of a = chars_of b)
    \<and> icmp a b = Some (map upcase (chars_of a) = map upcase (chars_of b))
    \<and> (\<forall>n \<ge> 0. ncmp a b n = Some (padded n a = padded n b)
        \<and> (n \<le> len a \<and> n \<le> len b \<longrightarrow> ncmp a b n = Some (take (nat n) (chars_of a) = take (nat n) (chars_of b))))
    \<and> lesser a b = Some (map schar (chars_of a) < map schar (chars_of b))
    \<and> (\<exists>l g. lesser a b = Some l \<and> lesser b a = Some g
        \<and> (cmp a b = Some True \<longrightarrow> \<not> l \<and> \<not> g) \<and> (cmp a b = Some False \<longrightarrow> l \<noteq> g))"
proof -
  have "map schar xs = map schar zs \<longleftrightarrow> xs = zs" for xs zs
    by (rule inj_map_eq_map) (simp add: inj_def)
  then have "\<exists>l g. lesser a b = Some l \<and> lesser b a = Some g
      \<and> (cmp a b = Some True \<longrightarrow> \<not> l \<and> \<not> g) \<and> (cmp a b = Some False \<longrightarrow> l \<noteq> g)"
    using assms by (simp add: cmp_eq lesser_eq) (metis linorder_neqE order_less_asym)
  moreover have "(padded n a = padded n b) = (take (nat n) (chars_of a) = take (nat n) (chars_of b))"
    if "0 \<le> n" "n \<le> len a" "n \<le> len b" for n
    using ncmp_padded [OF assms that(1)] ncmp_prefix [OF assms that] by simp
  ultimately show ?thesis
    using assms by (simp add: cmp_eq icmp_eq lesser_eq ncmp_padded)
qed

theorem comparisons_correct_witness:
  "cmp (lit ''Host'') (lit ''host'') = Some False \<and> icmp (lit ''Host'') (lit ''host'') = Some True
    \<and> ncmp (lit ''Host'') (lit ''Hostname'') 4 = Some True \<and> ncmp (lit ''Host'') (lit ''Hostname'') 5 = Some False
    \<and> lesser (lit ''Date'') (lit ''Host'') = Some True \<and> lesser (lit ''Host'') (lit ''Date'') = Some False"
  using comparisons_correct [of "lit ''Host''" "lit ''host''"] comparisons_correct [of "lit ''Host''" "lit ''Hostname''"]
    comparisons_correct [of "lit ''Date''" "lit ''Host''"] comparisons_correct [of "lit ''Host''" "lit ''Date''"]
  by (simp add: upcase_def byte_simps char_of_def padded_def numeral_eq_Suc)

subsection \<open>Fields\<close>

text \<open>\<open>name_field\<close> and \<open>skip_fields 0\<close> split a line \<open>name: value\<close> at its first colon, with the
  blanks after it dropped; a line without a colon is both its name and its value.\<close>

theorem fields_split:
  assumes "CHR '':'' \<notin> set k" "\<forall>c \<in> set sp. isspace c" "v \<noteq> []" "\<not> isspace (hd v)"
  shows "map_option chars_of (name_field (view (k @ CHR '':'' # sp @ v) ys)) = Some k
    \<and> map_option chars_of (skip_fields (view (k @ CHR '':'' # sp @ v) ys) 0) = Some v
    \<and> map_option chars_of (name_field (view k ys)) = Some k
    \<and> map_option chars_of (skip_fields (view k ys) 0) = Some k"
proof -
  have "takeWhile (\<lambda>c. c \<noteq> CHR '':'') k = k" using assms(1) by auto
  then show ?thesis
    using assms skip_fields_value [OF assms] skip_fields_whole [OF assms(1), of ys]
    by (simp add: name_field_eq takeWhile_append del: takeWhile_eq_all_conv)
qed

theorem fields_split_witness:
  "map_option chars_of (name_field (view ''localhost:8080'' [])) = Some ''localhost''
    \<and> map_option chars_of (skip_fields (view ''localhost:8080'' []) 0) = Some ''8080''"
  using fields_split [of "''localhost''" "[]" "''8080''" "[]"] by (simp add: isspace_def)

text \<open>\<open>search\<close> answers the first position of any one byte of the key, or the end of the
  string; it does not look for the key as a whole.\<close>

theorem search_any_byte:
  assumes "ks \<noteq> []" "length ks < 2 ^ 64" "0 \<le> pos" "pos \<le> int (length xs)"
  shows "\<exists>i. search (view xs ys) pos (view ks ws) = Some i \<and> pos \<le> i \<and> i \<le> int (length xs)
    \<and> (\<forall>j. pos \<le> j \<and> j < i \<longrightarrow> xs ! nat j \<notin> set ks)
    \<and> (i < int (length xs) \<longrightarrow> xs ! nat i \<in> set ks)"
proof -
  let ?t = "takeWhile (\<lambda>c. c \<notin> set ks) (drop (nat pos) xs)"
  have n: "xs ! nat j = ?t ! nat (j - pos)" if "pos \<le> j" "j < pos + int (length ?t)" for j
  proof -
    have k: "nat (j - pos) < length ?t" using that by auto
    then have "?t ! nat (j - pos) = drop (nat pos) xs ! nat (j - pos)" by (rule takeWhile_nth)
    also have "\<dots> = xs ! nat j" using that assms by (simp add: nat_diff_distrib)
    finally show ?thesis by simp
  qed
  have in_t: "c \<notin> set ks" if "c \<in> set ?t" for c using that by (auto dest: set_takeWhileD)
  have l: "int (length ?t) \<le> int (length xs) - pos"
    using assms length_takeWhile_le [of "\<lambda>c. c \<notin> set ks" "drop (nat pos) xs"] by simp
  have "xs ! nat (pos + int (length ?t)) \<in> set ks" if "pos + int (length ?t) < int (length xs)"
  proof -
    have "length ?t < length (drop (nat pos) xs)" using that assms by auto
    from nth_length_takeWhile [OF this] show ?thesis
      using that assms by (simp add: nat_add_distrib)
  qed
  moreover have "xs ! nat j \<notin> set ks" if "pos \<le> j" "j < pos + int (length ?t)" for j
    using n [OF that] that in_t nth_mem [of "nat (j - pos)" ?t] by auto
  ultimately show ?thesis
    using search_eq [OF assms, of ys ws] l
    by (intro exI [of _ "pos + int (length ?t)"]) auto
qed

theorem search_any_byte_witness:
  "search (view ''ab--x'' []) 0 (lit ''--zb'') = Some 1"
proof -
  obtain i where i: "search (view ''ab--x'' []) 0 (lit ''--zb'') = Some i" "0 \<le> i"
    "\<forall>j. 0 \<le> j \<and> j < i \<longrightarrow> ''ab--x'' ! nat j \<notin> set ''--zb''"
    "i < 5 \<longrightarrow> ''ab--x'' ! nat i \<in> set ''--zb''"
    using search_any_byte [of "''--zb''" 0 "''ab--x''" "[]" "[NUL]"] by auto
  have "i \<noteq> 0" using i(4) by auto
  moreover have "\<not> 1 < i" using i(3) [rule_format, of 1] by auto
  ultimately show ?thesis using i(1,2) by auto
qed

subsection \<open>Chunks\<close>

text \<open>\<open>dechunk\<close> returns only for a buffer that starts with a line break (or is empty), and
  then its result has no bytes: whenever the first line has a byte, \<open>skip_headers\<close>, which reads
  the line at a position that it never advances, does not return.\<close>

theorem dechunk_returns_nothing:
  "case dechunk (view xs ys) of
     None \<Rightarrow> xs \<noteq> [] \<and> no_eol (hd xs)
   | Some s \<Rightarrow> \<not> (xs \<noteq> [] \<and> no_eol (hd xs)) \<and> len s = 0 \<and> chars_of s = []"
  by (cases xs) (simp_all add: dechunk_eq ref_def len_def chars_of_def)

end
