(* ===== verification/Headers.thy ===== *)
theory Headers
  imports Str_Format "HOL-Library.Multiset"
begin

section \<open>Header tables (headers.c, headers.h, strings.c)\<close>

text \<open>
  A header table is an array of 250 slots and the number of slots in use.  The same type
  holds the request headers, the response headers, the form variables and the stored
  procedures.  \<open>free_header_slot\<close> loops for ever when the table is full (the macro
  \<open>halt\<close>), which is the value \<open>None\<close> here.
\<close>

record hslot =
  hkey :: str
  hvalue :: str

record headers_struct =
  nslots :: int
  slots :: "int \<Rightarrow> hslot"

type_synonym headers = "headers_struct option"

definition MAX_HEADERS :: int where
  "MAX_HEADERS = 250"

abbreviation empty_slot :: hslot where
  "empty_slot \<equiv> \<lparr>hkey = None, hvalue = None\<rparr>"

definition new_headers :: headers where
  "new_headers = Some \<lparr>nslots = 0, slots = (\<lambda>_. empty_slot)\<rparr>"

text \<open>A read of the array, which has \<open>MAX_HEADERS\<close> elements.\<close>

definition slot_at :: "headers_struct \<Rightarrow> int \<Rightarrow> hslot option" where
  "slot_at h i = (if 0 \<le> i \<and> i < MAX_HEADERS then Some (slots h i) else None)"

definition Key :: "headers \<Rightarrow> int \<Rightarrow> str option" where
  "Key header slot =
     (if 0 \<le> slot then (case header of None \<Rightarrow> None
        | Some h \<Rightarrow> if slot < nslots h then map_option hkey (slot_at h slot) else Some None)
      else Some None)"

definition Value :: "headers \<Rightarrow> int \<Rightarrow> str option" where
  "Value header slot =
     (if 0 \<le> slot then (case header of None \<Rightarrow> None
        | Some h \<Rightarrow> if slot < nslots h then map_option hvalue (slot_at h slot) else Some None)
      else Some None)"

text \<open>The slots the macro \<open>over\<close> walks.\<close>

definition live_slots :: "headers_struct \<Rightarrow> hslot list" where
  "live_slots h = map (\<lambda>i. slots h (int i)) [0..<nat (min (nslots h) MAX_HEADERS)]"

subsection \<open>Lookup\<close>

text \<open>A slot whose key is NULL is passed over.\<close>

definition slot_test :: "str \<Rightarrow> hslot \<Rightarrow> bool option" where
  "slot_test key s = (case hkey s of None \<Rightarrow> Some False | Some k \<Rightarrow> cmp (Some k) key)"

fun find_slot :: "str \<Rightarrow> hslot list \<Rightarrow> hslot option option" where
  "find_slot key [] = Some None"
| "find_slot key (s # ss) = do { b \<leftarrow> slot_test key s; if b then Some (Some s) else find_slot key ss }"

definition find_header :: "headers \<Rightarrow> str \<Rightarrow> str option" where
  "find_header hs key = (case hs of None \<Rightarrow> Some None
     | Some h \<Rightarrow> if key = None then Some None
        else do { r \<leftarrow> find_slot key (live_slots h);
                  Some (case r of None \<Rightarrow> None | Some s \<Rightarrow> hvalue s) })"

subsection \<open>Insertion\<close>

definition free_header_slot :: "headers \<Rightarrow> (int \<times> headers_struct) option" where
  "free_header_slot hs = (case hs of None \<Rightarrow> None
     | Some h \<Rightarrow> if nslots h < MAX_HEADERS then Some (nslots h, h\<lparr>nslots := nslots h + 1\<rparr>)
        else None)"

definition put_slot :: "headers_struct \<Rightarrow> int \<Rightarrow> str \<Rightarrow> str \<Rightarrow> headers_struct" where
  "put_slot h i k v = h\<lparr>slots := (slots h)(i := \<lparr>hkey = k, hvalue = v\<rparr>)\<rparr>"

definition append_header :: "headers \<Rightarrow> str \<Rightarrow> str \<Rightarrow> headers option" where
  "append_header hs key val = do {
     (i, h) \<leftarrow> free_header_slot (if hs = None then new_headers else hs);
     (if i > MAX_HEADERS then Some None else Some (Some (put_slot h i key val))) }"

text \<open>The macro \<open>HEADER_FUNC\<close>: both arguments are C strings, referred to and not copied.\<close>

definition header_func :: "string \<Rightarrow> headers \<Rightarrow> string \<Rightarrow> headers option" where
  "header_func k hs val = do {
     (i, h) \<leftarrow> free_header_slot hs;
     kt \<leftarrow> cstr k;
     vt \<leftarrow> cstr val;
     Some (Some (put_slot h i (ref k (int (length kt))) (ref val (int (length vt))))) }"

definition Cache_Control_MSG :: string where "Cache_Control_MSG = ''Cache-Control'' @ [NUL]"
definition Connection_MSG :: string where "Connection_MSG = ''Connection'' @ [NUL]"
definition Date_MSG :: string where "Date_MSG = ''Date'' @ [NUL]"
definition Transfer_Encoding_MSG :: string where "Transfer_Encoding_MSG = ''Transfer-Encoding'' @ [NUL]"
definition Content_Length_MSG :: string where "Content_Length_MSG = ''Content-Length'' @ [NUL]"
definition Content_Type_MSG :: string where "Content_Type_MSG = ''Content-Type'' @ [NUL]"
definition Expires_MSG :: string where "Expires_MSG = ''Expires'' @ [NUL]"
definition Location_MSG :: string where "Location_MSG = ''Location'' @ [NUL]"
definition Server_MSG :: string where "Server_MSG = ''Server'' @ [NUL]"

definition cache_control :: "headers \<Rightarrow> string \<Rightarrow> headers option" where
  "cache_control = header_func Cache_Control_MSG"
definition connection :: "headers \<Rightarrow> string \<Rightarrow> headers option" where
  "connection = header_func Connection_MSG"
definition date_field :: "headers \<Rightarrow> string \<Rightarrow> headers option" where
  "date_field = header_func Date_MSG"
definition transfer_encoding :: "headers \<Rightarrow> string \<Rightarrow> headers option" where
  "transfer_encoding = header_func Transfer_Encoding_MSG"
definition content_length :: "headers \<Rightarrow> string \<Rightarrow> headers option" where
  "content_length = header_func Content_Length_MSG"
definition content_type :: "headers \<Rightarrow> string \<Rightarrow> headers option" where
  "content_type = header_func Content_Type_MSG"
definition expires :: "headers \<Rightarrow> string \<Rightarrow> headers option" where
  "expires = header_func Expires_MSG"
definition location :: "headers \<Rightarrow> string \<Rightarrow> headers option" where
  "location = header_func Location_MSG"
definition server_name :: "headers \<Rightarrow> string \<Rightarrow> headers option" where
  "server_name = header_func Server_MSG"

subsection \<open>Sorting\<close>

text \<open>An exchange sort on a copy of the table.\<close>

definition swap_slots :: "headers_struct \<Rightarrow> int \<Rightarrow> int \<Rightarrow> headers_struct" where
  "swap_slots h i j = h\<lparr>slots := (slots h)(i := slots h j, j := slots h i)\<rparr>"

function sort_inner :: "headers_struct \<Rightarrow> int \<Rightarrow> int \<Rightarrow> headers_struct option" where
  "sort_inner h i j =
     (if j < nslots h \<and> j < MAX_HEADERS
      then do { kj \<leftarrow> Key (Some h) j; ki \<leftarrow> Key (Some h) i;
                b \<leftarrow> lesser kj ki;
                sort_inner (if b then swap_slots h i j else h) i (j + 1) }
      else Some h)"
  by pat_completeness auto
termination
  by (relation "measure (\<lambda>(h, i, j). nat (MAX_HEADERS - j))") auto

declare sort_inner.simps [simp del]

function sort_outer :: "headers_struct \<Rightarrow> int \<Rightarrow> headers_struct option" where
  "sort_outer h i =
     (if i < nslots h \<and> i < MAX_HEADERS
      then if hkey (slots h i) = None then sort_outer h (i + 1)
           else do { h' \<leftarrow> sort_inner h i (i + 1); sort_outer h' (i + 1) }
      else Some h)"
  by pat_completeness auto
termination
  by (relation "measure (\<lambda>(h, i). nat (MAX_HEADERS - i))") auto

declare sort_outer.simps [simp del]

text \<open>The copy loop: the slots the macro walks, read through \<open>Key\<close> and \<open>Value\<close>.\<close>

definition copy_headers :: "headers_struct \<Rightarrow> headers_struct" where
  "copy_headers kv = \<lparr>nslots = nslots kv,
     slots = (\<lambda>i. if 0 \<le> i \<and> i < nslots kv \<and> i < MAX_HEADERS then slots kv i else empty_slot)\<rparr>"

definition sort_headers :: "headers \<Rightarrow> headers option" where
  "sort_headers kv = (case kv of None \<Rightarrow> None
     | Some h \<Rightarrow> map_option Some (sort_outer (copy_headers h) 0))"

subsection \<open>Printing\<close>

fun print_slots :: "str \<Rightarrow> hslot list \<Rightarrow> str option" where
  "print_slots retval [] = Some retval"
| "print_slots retval (s # ss) =
     (if hkey s = None then print_slots retval ss
      else do {
        r \<leftarrow> (if retval \<noteq> None
             then fmt (''%s%s: %s'' @ CRLF) [AStr retval, AStr (hkey s), AStr (hvalue s)]
             else fmt (''%s: %s'' @ CRLF) [AStr (hkey s), AStr (hvalue s)]);
        print_slots r ss })"

definition print_headers :: "str \<Rightarrow> headers \<Rightarrow> str option" where
  "print_headers dst src = (case src of None \<Rightarrow> None | Some h \<Rightarrow> print_slots dst (live_slots h))"

fun list_slots :: "str \<Rightarrow> hslot list \<Rightarrow> str option" where
  "list_slots retval [] = Some retval"
| "list_slots retval (s # ss) =
     (if hkey s = None then list_slots retval ss
      else do {
        r \<leftarrow> (if retval \<noteq> None
             then fmt ''%s, %s : %s'' [AStr retval, AStr (hkey s), AStr (hvalue s)]
             else fmt ''%s : %s'' [AStr (hkey s), AStr (hvalue s)]);
        list_slots r ss })"

definition list_headers :: "headers \<Rightarrow> str option" where
  "list_headers kv = (case kv of None \<Rightarrow> None | Some h \<Rightarrow> list_slots None (live_slots h))"

fun url_encode_slots :: "str \<Rightarrow> hslot list \<Rightarrow> str option" where
  "url_encode_slots retval [] = Some retval"
| "url_encode_slots retval (s # ss) =
     (if hkey s = None then url_encode_slots retval ss
      else do { r \<leftarrow> fmt ''%s&%s=%s'' [AStr retval, AStr (hkey s), AStr (hvalue s)];
                url_encode_slots r ss })"

definition url_encode_headers :: "headers \<Rightarrow> str option" where
  "url_encode_headers src = (case src of None \<Rightarrow> Some None
     | Some h \<Rightarrow> do {
         k \<leftarrow> Key src 0; v \<leftarrow> Value src 0;
         r \<leftarrow> fmt ''%s=%s'' [AStr k, AStr v];
         url_encode_slots r (drop 1 (live_slots h)) })"

subsection \<open>Well-formed tables\<close>

text \<open>Every slot in use holds two strings that are not NULL and stay inside their objects.\<close>

definition wf_slot :: "hslot \<Rightarrow> bool" where
  "wf_slot s \<longleftrightarrow> hkey s \<noteq> None \<and> hvalue s \<noteq> None \<and> wf_str (hkey s) \<and> wf_str (hvalue s)"

definition wf_headers :: "headers_struct \<Rightarrow> bool" where
  "wf_headers h \<longleftrightarrow> 0 \<le> nslots h \<and> nslots h \<le> MAX_HEADERS \<and> (\<forall>s \<in> set (live_slots h). wf_slot s)"

text \<open>The abstraction: the table as an association list of byte strings.\<close>

definition entry :: "hslot \<Rightarrow> string \<times> string" where
  "entry s = (chars_of (hkey s), chars_of (hvalue s))"

definition entries :: "headers_struct \<Rightarrow> (string \<times> string) list" where
  "entries h = map entry (live_slots h)"

lemma length_live_slots [simp]: "length (live_slots h) = nat (min (nslots h) MAX_HEADERS)"
  by (simp add: live_slots_def)

lemma length_entries: "wf_headers h \<Longrightarrow> length (entries h) = nat (nslots h)"
  by (simp add: entries_def wf_headers_def)

lemma live_slots_nth:
  "0 \<le> i \<Longrightarrow> i < nslots h \<Longrightarrow> i < MAX_HEADERS \<Longrightarrow> live_slots h ! nat i = slots h i"
  by (simp add: live_slots_def nat_less_iff)

lemma Key_live:
  "0 \<le> i \<Longrightarrow> i < nslots h \<Longrightarrow> i < MAX_HEADERS \<Longrightarrow> Key (Some h) i = Some (hkey (slots h i))"
  by (simp add: Key_def slot_at_def)

lemma Value_live:
  "0 \<le> i \<Longrightarrow> i < nslots h \<Longrightarrow> i < MAX_HEADERS \<Longrightarrow> Value (Some h) i = Some (hvalue (slots h i))"
  by (simp add: Value_def slot_at_def)

lemma Key_past: "0 \<le> i \<Longrightarrow> nslots h \<le> i \<Longrightarrow> Key (Some h) i = Some None"
  by (simp add: Key_def)

lemma wf_slot_at:
  "wf_headers h \<Longrightarrow> 0 \<le> i \<Longrightarrow> i < nslots h \<Longrightarrow> wf_slot (slots h i)"
  using live_slots_nth [of i h] nth_mem [of "nat i" "live_slots h"]
  by (auto simp: wf_headers_def)

lemma wf_slotE:
  assumes "wf_slot s"
  obtains ks kt vs vt where "s = \<lparr>hkey = view ks kt, hvalue = view vs vt\<rparr>"
    "entry s = (ks, vs)"
proof -
  from assms obtain ks kt vs vt where "hkey s = view ks kt" "hvalue s = view vs vt"
    by (auto simp: wf_slot_def wf_str_view)
  then show ?thesis by (cases s, intro that [of ks kt vs vt]) (simp_all add: entry_def)
qed

lemma new_headers_wf [simp]: "new_headers = Some h \<Longrightarrow> wf_headers h"
  by (auto simp: new_headers_def wf_headers_def live_slots_def MAX_HEADERS_def)

subsection \<open>Adding a slot\<close>

lemma live_slots_put:
  assumes "0 \<le> nslots h" "nslots h < MAX_HEADERS"
  shows "live_slots (put_slot (h\<lparr>nslots := nslots h + 1\<rparr>) (nslots h) k v)
    = live_slots h @ [\<lparr>hkey = k, hvalue = v\<rparr>]"
  using assms
  by (simp add: live_slots_def put_slot_def nat_add_distrib min_def)

lemma add_slot_wf:
  assumes "wf_headers h" "nslots h < MAX_HEADERS" "wf_slot \<lparr>hkey = k, hvalue = v\<rparr>"
  shows "wf_headers (put_slot (h\<lparr>nslots := nslots h + 1\<rparr>) (nslots h) k v)"
    "entries (put_slot (h\<lparr>nslots := nslots h + 1\<rparr>) (nslots h) k v)
       = entries h @ [(chars_of k, chars_of v)]"
  using assms live_slots_put [of h k v]
  by (auto simp: wf_headers_def entries_def entry_def put_slot_def)

text \<open>There is a table for every single field.\<close>

lemma one_field:
  obtains h where "wf_headers h" "entries h = [(k, v)]" "nslots h = 1"
proof -
  obtain h0 where "new_headers = Some h0" and h0: "wf_headers h0" "entries h0 = []" "nslots h0 = 0"
    using new_headers_wf by (simp add: new_headers_def entries_def live_slots_def)
  then show ?thesis
    using add_slot_wf [OF h0(1), of "lit k" "lit v"]
    by (intro that [of "put_slot (h0\<lparr>nslots := nslots h0 + 1\<rparr>) (nslots h0) (lit k) (lit v)"])
      (simp_all add: wf_slot_def MAX_HEADERS_def put_slot_def)
qed

lemma append_header_room:
  assumes "wf_headers h" "nslots h < MAX_HEADERS"
  shows "append_header (Some h) k v =
    Some (Some (put_slot (h\<lparr>nslots := nslots h + 1\<rparr>) (nslots h) k v))"
  using assms by (simp add: append_header_def free_header_slot_def)

lemma append_header_full:
  "MAX_HEADERS \<le> nslots h \<Longrightarrow> append_header (Some h) k v = None"
  by (simp add: append_header_def free_header_slot_def)

lemma header_func_room:
  assumes "wf_headers h" "nslots h < MAX_HEADERS" "NUL \<notin> set ks" "NUL \<notin> set vs"
  shows "header_func (ks @ [NUL]) (Some h) (vs @ NUL # ws) =
    Some (Some (put_slot (h\<lparr>nslots := nslots h + 1\<rparr>) (nslots h) (lit ks) (view vs (NUL # ws))))"
  using assms by (simp add: header_func_def free_header_slot_def)

subsection \<open>Looking up\<close>

interpretation slot_search: checked_search find_slot slot_test
  by unfold_locales simp_all

lemma slot_test_wf: "wf_slot s \<Longrightarrow> wf_str key \<Longrightarrow> slot_test key s = Some (fst (entry s) = chars_of key)"
  by (auto simp: slot_test_def wf_slot_def entry_def cmp_eq)

lemma find_entry_map_of:
  "map_option (\<lambda>s. snd (entry s)) (List.find (\<lambda>s. fst (entry s) = k) ss) = map_of (map entry ss) k"
  by (induction ss) auto

lemma find_header_eq:
  assumes "wf_headers h" "wf_str key" "key \<noteq> None"
  obtains r where "find_header (Some h) key = Some r" "wf_str r"
    "map_of (entries h) (chars_of key) = (if r = None then None else Some (chars_of r))"
proof -
  let ?f = "List.find (\<lambda>s. fst (entry s) = chars_of key) (live_slots h)"
  have wf: "\<And>s. s \<in> set (live_slots h) \<Longrightarrow> wf_slot s" using assms(1) by (simp add: wf_headers_def)
  have "find_slot key (live_slots h) = Some ?f"
    using wf slot_test_wf [OF _ assms(2)] by (intro slot_search.look_find) blast
  then have f: "find_header (Some h) key = Some (case ?f of None \<Rightarrow> None | Some s \<Rightarrow> hvalue s)"
    using assms(3) by (cases key) (simp_all add: find_header_def)
  have m: "map_of (entries h) (chars_of key) = map_option (\<lambda>s. snd (entry s)) ?f"
    by (simp add: entries_def find_entry_map_of)
  show ?thesis
  proof (cases ?f)
    case None
    with f m show ?thesis by (intro that [of None]) auto
  next
    case (Some s)
    then have "wf_slot s" using wf by (auto simp: find_Some_iff)
    with Some f m show ?thesis
      by (intro that [of "hvalue s"]) (auto simp: wf_slot_def entry_def)
  qed
qed

subsection \<open>The contract of a bounded association table\<close>

text \<open>
  What the clients of a header table rely on: adding puts the pair behind the ones already
  there as long as there is room and does not return otherwise, and a lookup answers the
  first pair with the key.
\<close>

locale assoc_table =
  fixes add :: "'t \<Rightarrow> 'k \<Rightarrow> 'k \<Rightarrow> 't option"
    and lookup :: "'t \<Rightarrow> 'k \<Rightarrow> 'k option"
    and assocs :: "'t \<Rightarrow> ('a \<times> 'a) list"
    and invar :: "'t \<Rightarrow> bool"
    and cap :: nat
    and good :: "'k \<Rightarrow> bool"
    and abs :: "'k \<Rightarrow> 'a"
    and result :: "'k \<Rightarrow> 'a option"
  assumes add_room: "invar t \<Longrightarrow> length (assocs t) < cap \<Longrightarrow> good k \<Longrightarrow> good v \<Longrightarrow>
      \<exists>t'. add t k v = Some t' \<and> invar t' \<and> assocs t' = assocs t @ [(abs k, abs v)]"
    and add_full: "invar t \<Longrightarrow> cap \<le> length (assocs t) \<Longrightarrow> add t k v = None"
    and lookup_first: "invar t \<Longrightarrow> good k \<Longrightarrow>
      \<exists>r. lookup t k = Some r \<and> result r = map_of (assocs t) (abs k)"
begin

text \<open>A key that is already there keeps its value: later additions never show.\<close>

lemma lookup_after_add:
  assumes "invar t" "good k" "good v" "good q" "add t k v = Some t'"
  shows "\<exists>r. lookup t' q = Some r \<and> result r =
    (case map_of (assocs t) (abs q) of
       Some w \<Rightarrow> Some w | None \<Rightarrow> if abs q = abs k then Some (abs v) else None)"
proof -
  have room: "length (assocs t) < cap"
    using add_full [OF assms(1), of k v] assms(5) by (metis linorder_not_le option.distinct(1))
  from add_room [OF assms(1) room assms(2,3)] assms(5)
  have t': "invar t'" "assocs t' = assocs t @ [(abs k, abs v)]" by auto
  from lookup_first [OF t'(1) assms(4)] show ?thesis
    by (auto simp: t'(2) map_add_def split: option.splits)
qed

text \<open>Adding a list of pairs.\<close>

lemma add_run_room:
  assumes "invar t" "length (assocs t) + length kvs \<le> cap"
    "\<And>k v. (k, v) \<in> set kvs \<Longrightarrow> good k \<and> good v"
  shows "\<exists>t'. foldl (\<lambda>m (k, v). Option.bind m (\<lambda>t. add t k v)) (Some t) kvs = Some t' \<and> invar t'
    \<and> assocs t' = assocs t @ map (\<lambda>(k, v). (abs k, abs v)) kvs"
  using assms
proof (induction kvs arbitrary: t)
  case (Cons kv kvs)
  obtain k v where kv: "kv = (k, v)" by (cases kv)
  have "good k" "good v" "length (assocs t) < cap" using Cons.prems kv by auto
  with add_room [OF Cons.prems(1)] obtain t1
    where t1: "add t k v = Some t1" "invar t1" "assocs t1 = assocs t @ [(abs k, abs v)]" by blast
  have "length (assocs t1) + length kvs \<le> cap" using Cons.prems(2) t1 by simp
  from Cons.IH [OF t1(2) this] Cons.prems(3) show ?case
    using kv t1 by fastforce
qed simp

end

text \<open>\<open>append_header\<close> and \<open>find_header\<close> keep this contract, for tables that are not NULL.\<close>

definition good_str :: "str \<Rightarrow> bool" where
  "good_str s \<longleftrightarrow> s \<noteq> None \<and> wf_str s"

definition result_of :: "str \<Rightarrow> string option" where
  "result_of r = (if r = None then None else Some (chars_of r))"

definition wf_table :: "headers \<Rightarrow> bool" where
  "wf_table t = (case t of None \<Rightarrow> False | Some h \<Rightarrow> wf_headers h)"

definition table_entries :: "headers \<Rightarrow> (string \<times> string) list" where
  "table_entries t = (case t of None \<Rightarrow> [] | Some h \<Rightarrow> entries h)"

lemma good_view [simp]: "good_str (view xs ys)"
  by (simp add: good_str_def)

interpretation header_table: assoc_table append_header find_header table_entries wf_table
    "nat MAX_HEADERS" good_str chars_of result_of
proof unfold_locales
  fix t k v
  assume t: "wf_table t" "length (table_entries t) < nat MAX_HEADERS" and kv: "good_str k" "good_str v"
  then obtain h where h: "t = Some h" "wf_headers h" by (auto simp: wf_table_def split: option.splits)
  have room: "nslots h < MAX_HEADERS"
    using t(2) h length_entries [OF h(2)] by (simp add: table_entries_def wf_headers_def)
  show "\<exists>t'. append_header t k v = Some t' \<and> wf_table t' \<and>
      table_entries t' = table_entries t @ [(chars_of k, chars_of v)]"
    using append_header_room [OF h(2) room, of k v] add_slot_wf [OF h(2) room, of k v] kv h
    by (simp add: wf_table_def table_entries_def wf_slot_def good_str_def)
next
  fix t k v assume t: "wf_table t" "nat MAX_HEADERS \<le> length (table_entries t)"
  then obtain h where h: "t = Some h" "wf_headers h" by (auto simp: wf_table_def split: option.splits)
  with t(2) length_entries [OF h(2)] have "MAX_HEADERS \<le> nslots h"
    by (simp add: table_entries_def MAX_HEADERS_def)
  with h show "append_header t k v = None" by (simp add: append_header_full)
next
  fix t k assume "wf_table t" "good_str k"
  then obtain h where h: "t = Some h" "wf_headers h" "k \<noteq> None" "wf_str k"
    by (auto simp: wf_table_def good_str_def split: option.splits)
  from find_header_eq [OF h(2,4,3)] show "\<exists>r. find_header t k = Some r
      \<and> result_of r = map_of (table_entries t) (chars_of k)"
    using h(1) by (metis result_of_def table_entries_def option.simps(5))
qed

end
