(* ===== verification/Headers_Parse.thy ===== *)
theory Headers_Parse
  imports Headers Str_Parse
begin

section \<open>Parsing a message head (headers.c: parse_headers)\<close>

text \<open>
  The parser walks the buffer byte by byte.  \<open>o\<close> is the position, \<open>i\<close> the slot being
  filled, \<open>reset\<close> tells that a line break has been passed since the last value, and \<open>breaks\<close>
  (\<open>count\<close> in the source) counts line-break bytes in a row; the third one ends the head, and the body starts behind
  it.  The line break that ends a value is left to the outer loop except for its first byte,
  which the value scan has consumed, so a blank line is seen after two more bytes.
\<close>

text \<open>The value scan \<^verbatim>\<open>for (l = 1; (o + l) < lb && c != '\r' && c != '\n'; ++l) c = at(buf,o+l);\<close>\<close>

function value_len :: "str \<Rightarrow> int \<Rightarrow> int \<Rightarrow> char \<Rightarrow> int \<Rightarrow> int option" where
  "value_len buf lb off c l =
     (if off + l < lb \<and> c \<noteq> CR \<and> c \<noteq> LF
      then do { c' \<leftarrow> at buf (off + l); value_len buf lb off c' (l + 1) }
      else Some l)"
  by pat_completeness auto
termination
  by (relation "measure (\<lambda>(buf, lb, off, c, l). nat (lb - (off + l)))") auto

declare value_len.simps [simp del]

definition set_key :: "headers_struct \<Rightarrow> int \<Rightarrow> str \<Rightarrow> headers_struct" where
  "set_key h i k = h\<lparr>nslots := nslots h + 1, slots := (slots h)(i := (slots h i)\<lparr>hkey := k\<rparr>)\<rparr>"

definition set_value :: "headers_struct \<Rightarrow> int \<Rightarrow> str \<Rightarrow> headers_struct" where
  "set_value h i v = h\<lparr>slots := (slots h)(i := (slots h i)\<lparr>hvalue := v\<rparr>)\<rparr>"

text \<open>A view of \<open>buf\<close> that starts at \<open>off\<close>: the argument \<open>buf->data + o\<close> of \<open>ref\<close>.\<close>

definition ref_at :: "str \<Rightarrow> int \<Rightarrow> int \<Rightarrow> str option" where
  "ref_at buf off l = (case buf of None \<Rightarrow> None
     | Some v \<Rightarrow> do { d \<leftarrow> ptr_add (sdata v) off; Some (ref d l) })"

text \<open>The part of the loop body that reads a key: the new position, the byte there and the
  table.\<close>

definition read_key :: "str \<Rightarrow> int \<Rightarrow> int \<Rightarrow> int \<Rightarrow> headers_struct \<Rightarrow> (int \<times> char \<times> headers_struct) option" where
  "read_key buf lb off i h = do {
     e \<leftarrow> scan_to (\<lambda>c. c \<noteq> CHR '':'') (at buf) (off + 1) lb;
     let l = e - off;
     k \<leftarrow> ref_at buf off l;
     c \<leftarrow> at buf (off + (l - 1));
     Some (off + (l - 1), c, set_key h i k) }"

text \<open>The part that reads a value, with \<open>off\<close> at the colon.\<close>

definition read_value :: "str \<Rightarrow> int \<Rightarrow> int \<Rightarrow> int \<Rightarrow> headers_struct \<Rightarrow> (int \<times> headers_struct) option" where
  "read_value buf lb off i h = do {
     b \<leftarrow> scan_while isspace (at buf) (off + 1);
     c \<leftarrow> at buf b;
     l \<leftarrow> value_len buf lb b c 1;
     v \<leftarrow> ref_at buf b (l - 1);
     let h' = set_value h i v;
     k \<leftarrow> Key (Some h') i; v' \<leftarrow> Value (Some h') i;
     _ \<leftarrow> debug_log ''Headers[%i] [%s] = [%s]'' [AReg (of_int i), AStr k, AStr v'];
     Some (b + (l - 1), h') }"

lemma scan_to_ge: "scan_to P get i l = Some j \<Longrightarrow> i \<le> j"
proof (induction P get i l rule: scan_to.induct)
  case (1 P get i l)
  then show ?case
    by (subst (asm) (2) scan_to.simps) (fastforce simp: bind_Some_iff split: if_splits)
qed

lemma value_len_ge: "value_len buf lb off c l = Some m \<Longrightarrow> l \<le> m"
proof (induction buf lb off c l rule: value_len.induct)
  case (1 buf lb off c l)
  then show ?case
    by (subst (asm) (2) value_len.simps) (fastforce simp: bind_Some_iff split: if_splits)
qed

lemma read_key_ge: "read_key buf lb off i h = Some (o', c, h') \<Longrightarrow> off \<le> o'"
  by (auto simp: read_key_def bind_Some_iff Let_def dest: scan_to_ge)

lemma read_value_ge: "read_value buf lb off i h = Some (o', h') \<Longrightarrow> off < o'"
  by (auto simp: read_value_def bind_Some_iff Let_def dest!: value_len_ge scan_while_ret)

function parse_loop :: "str \<Rightarrow> int \<Rightarrow> int \<Rightarrow> int \<Rightarrow> bool \<Rightarrow> int \<Rightarrow> headers_struct \<Rightarrow> int
    \<Rightarrow> (headers \<times> int) option" where
  "parse_loop buf lb off i reset breaks h body =
     (if i < MAX_HEADERS \<and> off < lb then do {
        c \<leftarrow> at buf off;
        (if c = CR \<or> c = LF then
           (if breaks + 1 > 2 then Some (Some h, off + 1)
            else parse_loop buf lb (off + 1) i True (breaks + 1) h body)
         else do {
           k \<leftarrow> Key (Some h) i;
           (o1, c1, h1) \<leftarrow> (if reset \<and> k = None then read_key buf lb off i h else Some (off, c, h));
           (if reset \<and> c1 = CHR '':'' then do {
              (o2, h2) \<leftarrow> read_value buf lb o1 i h1;
              parse_loop buf lb (o2 + 1) (i + 1) False 0 h2 body }
            else parse_loop buf lb (o1 + 1) i reset 0 h1 body) }) }
      else Some (Some h, body))"
  by pat_completeness auto
termination
  by (relation "measure (\<lambda>(buf, lb, off, i, reset, breaks, h, body). nat (lb - off))")
    (auto split: if_splits dest!: read_key_ge read_value_ge)

declare parse_loop.simps [simp del]

text \<open>\<open>body\<close> is the value the out-parameter has before the call; it is only written when
  the end of the head is found.\<close>

definition parse_headers :: "str \<Rightarrow> int \<Rightarrow> (headers \<times> int) option" where
  "parse_headers buf body = do {
     let lb = len buf;
     off \<leftarrow> scan_to (\<lambda>c. c \<noteq> CR \<and> c \<noteq> LF) (at buf) 0 lb;
     (if off \<ge> lb then Some (None, body)
      else (case new_headers of None \<Rightarrow> None
            | Some h \<Rightarrow> parse_loop buf lb off 0 False 0 h body)) }"

subsection \<open>One line of the head\<close>

lemma set_key_value: "set_value (set_key h i k) i v = put_slot (h\<lparr>nslots := nslots h + 1\<rparr>) i k v"
  by (rule headers_struct.equality)
    (auto simp: set_value_def set_key_def put_slot_def fun_eq_iff intro: hslot.equality)

lemma ref_at_pieces [simp]:
  "ref_at (view (xs @ zs) ys) (int (length xs)) l = Some (ref (zs @ ys) l)"
  by (simp add: ref_at_def view_def)

lemma at_pieces: "at (view (xs @ c # zs) ys) (int (length xs)) = Some c"
  by (simp add: at_view nth_append)

lemma value_len_eq:
  assumes "\<exists>e \<in> set (c # vs). e = CR \<or> e = LF"
  shows "value_len (view (xs @ c # vs) ys) (int (length (xs @ c # vs))) (int (length xs) - k) c (k + 1)
    = Some (k + 1 + int (length (takeWhile no_eol (c # vs))))"
  using assms
proof (induction vs arbitrary: xs c k)
  case Nil
  then show ?case by (subst value_len.simps) auto
next
  case (Cons d vs)
  show ?case
  proof (cases "no_eol c")
    case False
    then show ?thesis by (subst value_len.simps) auto
  next
    case True
    have "at (view (xs @ c # d # vs) ys) (int (length xs) - k + (k + 1)) = Some d"
      using at_pieces [of "xs @ [c]" d vs ys] by (simp add: add.commute)
    moreover have "value_len (view (xs @ c # d # vs) ys) (int (length (xs @ c # d # vs)))
        (int (length xs) - k) d (k + 1 + 1)
      = Some (k + 1 + 1 + int (length (takeWhile no_eol (d # vs))))"
      using Cons.IH [of d "xs @ [c]" "k + 1"] Cons.prems True by simp
    ultimately show ?thesis
      using True by (subst value_len.simps) (simp add: algebra_simps)
  qed
qed

text \<open>A key runs to the colon behind its first byte, or to the end of what has arrived.\<close>

lemma read_key_to:
  assumes "CHR '':'' \<notin> set ks" "r = [] \<or> hd r = CHR '':''"
  shows "read_key (view (xs @ (k # ks) @ r) ys) (int (length (xs @ (k # ks) @ r))) (int (length xs)) i h =
    Some (int (length xs) + int (length ks), last (k # ks), set_key h i (view (k # ks) (r @ ys)))"
proof -
  let ?bs = "xs @ (k # ks) @ r"
  have n: "nat (int (length xs) + 1) = length (xs @ [k])" by simp
  have d: "drop (length (xs @ [k])) ?bs = ks @ r" by simp
  have t: "takeWhile (\<lambda>c. c \<noteq> CHR '':'') (ks @ r) = ks"
    using assms by (cases r) (auto simp: takeWhile_append)
  have s: "scan_to (\<lambda>c. c \<noteq> CHR '':'') (at (view ?bs ys)) (int (length xs) + 1) (int (length ?bs)) =
      Some (int (length xs) + 1 + int (length ks))"
    using str_at.scan_to_len [of "view ?bs ys" "int (length xs) + 1" "\<lambda>c. c \<noteq> CHR '':''"]
    unfolding chars_of_view n d t by simp
  obtain p q where pq: "k # ks = p @ [q]" by (metis rev_exhaust list.distinct(1))
  then have lp: "length ks = length p" by (metis length_Cons length_append_singleton nat.inject)
  have a: "at (view ?bs ys) (int (length xs) + int (length ks)) = Some (last (k # ks))"
    using at_pieces [of "xs @ p" q r ys] unfolding pq lp by simp
  have r: "ref_at (view ?bs ys) (int (length xs)) (1 + int (length ks)) = Some (view (k # ks) (r @ ys))"
    using ref_append [of "k # ks" "r @ ys"] by simp
  show ?thesis
    unfolding read_key_def s using a r by (simp add: Let_def)
qed

lemma read_key_eq:
  assumes "CHR '':'' \<notin> set ks"
  shows "read_key (view (xs @ (k # ks) @ CHR '':'' # zs) ys) (int (length (xs @ (k # ks) @ CHR '':'' # zs)))
      (int (length xs)) i h =
    Some (int (length xs) + int (length ks), last (k # ks),
      set_key h i (view (k # ks) (CHR '':'' # zs @ ys)))"
  using read_key_to [OF assms, of "CHR '':'' # zs" xs k ys i h] by simp

text \<open>A value runs from the first byte that is no space to the end of the line.\<close>

lemma read_value_eq:
  assumes "nslots h = i + 1" "0 \<le> i" "i < MAX_HEADERS" "good_str (hkey (slots h i))"
    "\<forall>c \<in> set sp. isspace c" "\<not> isspace v" "\<forall>c \<in> set vs. no_eol c" "e = CR \<or> e = LF"
  shows "read_value (view (xs @ CHR '':'' # sp @ (v # vs) @ e # zs) ys)
      (int (length (xs @ CHR '':'' # sp @ (v # vs) @ e # zs))) (int (length xs)) i h =
    Some (int (length (xs @ CHR '':'' # sp @ (v # vs))),
      set_value h i (view (v # vs) (e # zs @ ys)))"
proof -
  let ?bs = "xs @ CHR '':'' # sp @ (v # vs) @ e # zs"
  let ?b = "int (length (xs @ CHR '':'' # sp))"
  have n: "nat (int (length xs) + 1) = length (xs @ [CHR '':''])" by simp
  have d: "drop (length (xs @ [CHR '':''])) ?bs = sp @ v # vs @ e # zs" by simp
  have t: "takeWhile isspace (sp @ v # vs @ e # zs) = sp"
    using assms(5,6) by (simp add: takeWhile_append)
  have s: "scan_while isspace (at (view ?bs ys)) (int (length xs) + 1) = Some ?b"
    using str_at.scan_while_eq [of "view ?bs ys" "int (length xs) + 1" isspace]
    unfolding chars_of_view n d t by simp
  have c: "at (view ?bs ys) ?b = Some v"
    using at_pieces [of "xs @ CHR '':'' # sp" v "vs @ e # zs" ys] by simp
  have ne: "no_eol v" using assms(6) by auto
  have tw: "takeWhile no_eol (v # vs @ e # zs) = v # vs"
    using assms(7,8) ne by (auto simp: takeWhile_append)
  have l: "value_len (view ?bs ys) (int (length ?bs)) ?b v 1 = Some (1 + int (length (v # vs)))"
    using value_len_eq [of v "vs @ e # zs" "xs @ CHR '':'' # sp" ys 0] assms(8)
    unfolding tw by (auto simp: add.commute)
  have r: "ref_at (view ?bs ys) ?b (1 + int (length (v # vs)) - 1) = Some (view (v # vs) (e # zs @ ys))"
    using ref_at_pieces [of "xs @ CHR '':'' # sp" "(v # vs) @ e # zs" ys]
      ref_append [of "v # vs" "e # zs @ ys"] by simp
  let ?h = "set_value h i (view (v # vs) (e # zs @ ys))"
  obtain ks kt where kk: "hkey (slots h i) = view ks kt"
    using assms(4) by (auto simp: good_str_def wf_str_view)
  have kv: "Key (Some ?h) i = Some (view ks kt)" "Value (Some ?h) i = Some (view (v # vs) (e # zs @ ys))"
    using assms(1-3) kk by (simp_all add: Key_live Value_live set_value_def)
  have log: "debug_log ''Headers[%i] [%s] = [%s]''
      [AReg (of_int i), AStr (view ks kt), AStr (view (v # vs) (e # zs @ ys))] = Some ()"
    by (simp add: debug_log_def new_str_def)
  show ?thesis
    unfolding read_value_def s using c l r kv log by (simp add: Let_def)
qed

subsection \<open>The loop\<close>

lemma parse_break:
  assumes "i < MAX_HEADERS" "e = CR \<or> e = LF"
  shows "parse_loop (view (xs @ e # zs) ys) (int (length (xs @ e # zs))) (int (length xs)) i reset n h body =
    (if n + 1 > 2 then Some (Some h, int (length (xs @ [e])))
     else parse_loop (view (xs @ e # zs) ys) (int (length (xs @ e # zs)))
       (int (length (xs @ [e]))) i True (n + 1) h body)"
  using assms at_pieces [of xs e zs ys] by (subst parse_loop.simps) (auto simp: add.commute)

definition wf_key :: "string \<Rightarrow> bool" where
  "wf_key k \<longleftrightarrow> k \<noteq> [] \<and> no_eol (hd k) \<and> CHR '':'' \<notin> set k"

definition wf_value :: "string \<Rightarrow> bool" where
  "wf_value v \<longleftrightarrow> v \<noteq> [] \<and> \<not> isspace (hd v) \<and> (\<forall>c \<in> set v. no_eol c)"

text \<open>After a line break, a line of a key, a colon, spaces and a value fills the next slot and leaves the loop behind the
  first byte of the line break.\<close>

lemma parse_line:
  assumes "wf_headers h" "nslots h < MAX_HEADERS" "wf_key k" "wf_value v" "e = CR \<or> e = LF"
    "\<forall>c \<in> set sp. isspace c"
    and bs: "bs = xs @ k @ CHR '':'' # sp @ v @ e # zs"
  obtains h' where "parse_loop (view bs ys) (int (length bs)) (int (length xs)) (nslots h) True n h body =
      parse_loop (view bs ys) (int (length bs)) (int (length (xs @ k @ CHR '':'' # sp @ v @ [e])))
        (nslots h + 1) False 0 h' body"
    "wf_headers h'" "entries h' = entries h @ [(k, v)]" "nslots h' = nslots h + 1"
    "\<forall>j > nslots h. slots h' j = slots h j"
proof -
  obtain a as where k: "k = a # as" "no_eol a" "CHR '':'' \<notin> set as" "a \<noteq> CHR '':''"
    using assms(3) by (cases k) (auto simp: wf_key_def)
  obtain w ws where v: "v = w # ws" "\<not> isspace w" "\<forall>c \<in> set ws. no_eol c"
    using assms(4) by (cases v) (auto simp: wf_value_def)
  let ?i = "nslots h"
  let ?kv = "view k (CHR '':'' # sp @ v @ e # zs @ ys)"
  let ?vv = "view v (e # zs @ ys)"
  let ?h1 = "set_key h ?i ?kv"
  let ?h2 = "put_slot (h\<lparr>nslots := nslots h + 1\<rparr>) ?i ?kv ?vv"
  have nn: "0 \<le> ?i" using assms(1) by (simp add: wf_headers_def)
  have c: "at (view bs ys) (int (length xs)) = Some a"
    using at_pieces [of xs a "as @ CHR '':'' # sp @ v @ e # zs" ys] by (simp add: bs k)
  have rk: "read_key (view bs ys) (int (length bs)) (int (length xs)) ?i h =
      Some (int (length xs) + int (length as), last k, ?h1)"
    using read_key_eq [OF k(3), of xs a "sp @ v @ e # zs" ys ?i h] by (simp add: bs k)
  have lk: "last k \<noteq> CHR '':''"
    using assms(3) unfolding wf_key_def by (metis last_in_set)
  have rv: "read_value (view bs ys) (int (length bs)) (int (length (xs @ k))) ?i ?h1 =
      Some (int (length (xs @ k @ CHR '':'' # sp @ v)), ?h2)"
    using read_value_eq [of ?h1 ?i sp w ws e "xs @ k" zs ys] nn assms(2,5,6) v
    by (simp add: bs set_key_def good_str_def flip: set_key_value)
  have c2: "at (view bs ys) (int (length (xs @ k))) = Some CHR '':''"
    using at_pieces [of "xs @ k" "CHR '':''" "sp @ v @ e # zs" ys] by (simp add: bs)
  have key: "Key (Some ?h1) ?i = Some ?kv"
    using nn assms(2) by (simp add: Key_live set_key_def)
  have lb: "int (length xs) < int (length bs)" "int (length (xs @ k)) < int (length bs)"
    by (simp_all add: bs)
  have s1: "parse_loop (view bs ys) (int (length bs)) (int (length xs)) ?i True n h body =
      parse_loop (view bs ys) (int (length bs)) (int (length (xs @ k))) ?i True 0 ?h1 body"
    using assms(2) lb c k(2) rk lk nn
    by (subst parse_loop.simps) (simp add: Key_past k(1) add.commute)
  have s2: "parse_loop (view bs ys) (int (length bs)) (int (length (xs @ k))) ?i True 0 ?h1 body =
      parse_loop (view bs ys) (int (length bs)) (int (length (xs @ k @ CHR '':'' # sp @ v @ [e]))) (?i + 1) False 0 ?h2 body"
    using assms(2) lb c2 rv key
    by (subst parse_loop.simps) (simp add: add.commute add.left_commute)
  have "wf_slot \<lparr>hkey = ?kv, hvalue = ?vv\<rparr>" by (simp add: wf_slot_def)
  then show ?thesis
    using that [of ?h2] s1 s2 add_slot_wf [OF assms(1,2), of ?kv ?vv] by (simp add: put_slot_def)
qed

subsection \<open>A whole head\<close>

definition header_line :: "string \<times> string \<Rightarrow> string" where
  "header_line kv = fst kv @ '': '' @ snd kv @ CRLF"

definition header_lines :: "(string \<times> string) list \<Rightarrow> string" where
  "header_lines kvs = concat (map header_line kvs)"

definition wf_fields :: "(string \<times> string) list \<Rightarrow> bool" where
  "wf_fields kvs \<longleftrightarrow> (\<forall>(k, v) \<in> set kvs. wf_key k \<and> wf_value v)"

lemma header_lines_Cons: "header_lines ((k, v) # kvs) = k @ '': '' @ v @ CR # LF # header_lines kvs"
  by (simp add: header_lines_def header_line_def)

lemma header_lines_take: "length (header_lines (take k kvs)) \<le> length (header_lines kvs)"
proof -
  have "header_lines kvs = header_lines (take k kvs) @ header_lines (drop k kvs)"
    by (simp add: header_lines_def flip: concat_append map_append)
  then have "length (header_lines kvs) = length (header_lines (take k kvs)) + length (header_lines (drop k kvs))" by simp
  then show ?thesis by simp
qed

text \<open>From behind the first line-break byte after a value: the remaining fields.\<close>

lemma parse_lines:
  assumes "wf_fields kvs" "wf_headers h" "nslots h + int (length kvs) < MAX_HEADERS"
    and bs: "bs = xs @ LF # header_lines kvs @ rest"
  shows "\<exists>h'. parse_loop (view bs ys) (int (length bs)) (int (length xs)) (nslots h) False 0 h body =
      parse_loop (view bs ys) (int (length bs)) (int (length (xs @ LF # header_lines kvs))) (nslots h') True 1 h' body
    \<and> wf_headers h' \<and> entries h' = entries h @ kvs \<and> nslots h' = nslots h + int (length kvs)
    \<and> (\<forall>j \<ge> nslots h'. slots h' j = slots h j)"
  using assms
proof (induction kvs arbitrary: h xs)
  case Nil
  have "nslots h < MAX_HEADERS" using Nil.prems(3) by simp
  from parse_break [OF this, of LF xs rest ys False 0 h body] Nil.prems(2,4) show ?case
    by (intro exI [of _ h]) (simp add: header_lines_def)
next
  case (Cons kv kvs)
  obtain k v where kv: "kv = (k, v)" by (cases kv)
  have wf: "wf_key k" "wf_value v" "wf_fields kvs"
    using Cons.prems(1) by (auto simp: wf_fields_def kv)
  have m: "nslots h < MAX_HEADERS" using Cons.prems(3) by simp
  let ?rest = "LF # header_lines kvs @ rest"
  have bs: "bs = xs @ LF # k @ '': '' @ v @ CR # ?rest"
    "bs = (xs @ LF # k @ '': '' @ v @ [CR]) @ ?rest"
    "bs = (xs @ [LF]) @ k @ CHR '':'' # '' '' @ v @ CR # ?rest"
    using Cons.prems(4) by (simp_all add: kv header_lines_Cons)
  have s1: "parse_loop (view bs ys) (int (length bs)) (int (length xs)) (nslots h) False 0 h body =
      parse_loop (view bs ys) (int (length bs)) (int (length (xs @ [LF]))) (nslots h) True 1 h body"
    using parse_break [OF m, of LF xs "k @ '': '' @ v @ CR # ?rest" ys False 0 h body] by (simp add: bs(1))
  obtain h1 where h1: "parse_loop (view bs ys) (int (length bs)) (int (length (xs @ [LF]))) (nslots h) True 1 h body =
      parse_loop (view bs ys) (int (length bs)) (int (length ((xs @ [LF]) @ k @ '': '' @ v @ [CR])))
        (nslots h + 1) False 0 h1 body"
    "wf_headers h1" "entries h1 = entries h @ [(k, v)]" "nslots h1 = nslots h + 1" "\<forall>j > nslots h. slots h1 j = slots h j"
    using parse_line [OF Cons.prems(2) m wf(1,2) _ _ bs(3), of ys 1 body] by auto
  have "nslots h1 + int (length kvs) < MAX_HEADERS" using Cons.prems(3) h1(4) by simp
  from Cons.IH [OF wf(3) h1(2) this bs(2)] obtain h' where
    "parse_loop (view bs ys) (int (length bs)) (int (length (xs @ LF # k @ '': '' @ v @ [CR]))) (nslots h1) False 0 h1 body =
      parse_loop (view bs ys) (int (length bs)) (int (length ((xs @ LF # k @ '': '' @ v @ [CR]) @ LF # header_lines kvs)))
        (nslots h') True 1 h' body"
    "wf_headers h'" "entries h' = entries h1 @ kvs" "nslots h' = nslots h1 + int (length kvs)"
    "\<forall>j \<ge> nslots h'. slots h' j = slots h1 j" by blast
  then show ?case
    using s1 h1 by (intro exI [of _ h']) (simp add: kv header_lines_Cons)
qed

lemma parse_fields:
  assumes "wf_fields kvs" "wf_headers h" "nslots h + int (length kvs) < MAX_HEADERS"
    and bs: "bs = xs @ LF # header_lines kvs @ CRLF @ zs"
  shows "\<exists>h'. parse_loop (view bs ys) (int (length bs)) (int (length xs)) (nslots h) False 0 h body =
      Some (Some h', int (length (xs @ LF # header_lines kvs @ CRLF)))
    \<and> wf_headers h' \<and> entries h' = entries h @ kvs"
proof -
  obtain h' where h': "parse_loop (view bs ys) (int (length bs)) (int (length xs)) (nslots h) False 0 h body =
      parse_loop (view bs ys) (int (length bs)) (int (length (xs @ LF # header_lines kvs))) (nslots h') True 1 h' body"
    "wf_headers h'" "entries h' = entries h @ kvs" "nslots h' = nslots h + int (length kvs)"
    using parse_lines [OF assms] by blast
  have m: "nslots h' < MAX_HEADERS" using h'(4) assms(3) by simp
  show ?thesis
    using h' parse_break [OF m, of CR "xs @ LF # header_lines kvs" "LF # zs" ys True 1 h' body]
      parse_break [OF m, of LF "xs @ LF # header_lines kvs @ [CR]" zs ys True 2 h' body] bs
    by (intro exI [of _ h']) simp
qed

text \<open>The request line and the fields, up to what follows them.\<close>

lemma parse_headers_lines:
  assumes "wf_fields kvs" "int (length kvs) < MAX_HEADERS" "\<forall>c \<in> set line. no_eol c"
    and bs: "bs = line @ CRLF @ header_lines kvs @ rest"
  shows "\<exists>h n. parse_headers (view bs ys) body =
      parse_loop (view bs ys) (int (length bs)) (int (length (line @ CRLF @ header_lines kvs))) (nslots h) True n h body
    \<and> wf_headers h \<and> entries h = kvs \<and> nslots h = int (length kvs) \<and> n = (if kvs = [] then 2 else 1)
    \<and> (\<forall>j \<ge> nslots h. hvalue (slots h j) = None)"
proof -
  obtain h0 where h0: "new_headers = Some h0" "wf_headers h0" "nslots h0 = 0" "entries h0 = []" "\<forall>j. hvalue (slots h0 j) = None"
    using new_headers_wf by (simp add: new_headers_def entries_def live_slots_def)
  have m: "nslots h0 < MAX_HEADERS" by (simp add: h0 MAX_HEADERS_def)
  have b: "bs = line @ CR # LF # header_lines kvs @ rest" by (simp add: bs)
  have "takeWhile no_eol bs = line" using assms(3) by (simp add: b takeWhile_append)
  then have s: "scan_to no_eol (at (view bs ys)) 0 (int (length bs)) = Some (int (length line))"
    using str_at.scan_to_len [of "view bs ys" 0 no_eol] by simp
  have s1: "parse_headers (view bs ys) body =
      parse_loop (view bs ys) (int (length bs)) (int (length line)) (nslots h0) False 0 h0 body"
    using s by (simp add: parse_headers_def h0) (simp add: b)
  have s2: "parse_loop (view bs ys) (int (length bs)) (int (length line)) (nslots h0) False 0 h0 body =
      parse_loop (view bs ys) (int (length bs)) (int (length (line @ CRLF))) (nslots h0) True 2 h0 body"
    using parse_break [OF m, of CR line "LF # header_lines kvs @ rest" ys False 0 h0 body]
      parse_break [OF m, of LF "line @ [CR]" "header_lines kvs @ rest" ys True 1 h0 body]
    by (simp add: b)
  show ?thesis
  proof (cases kvs)
    case Nil
    then show ?thesis using s1 s2 h0 by (intro exI [of _ h0] exI [of _ 2]) (simp add: header_lines_def)
  next
    case (Cons kv kvs')
    obtain k v where kv: "kv = (k, v)" by (cases kv)
    have wf: "wf_key k" "wf_value v" "wf_fields kvs'"
      using assms(1) by (auto simp: wf_fields_def Cons kv)
    let ?rest = "LF # header_lines kvs' @ rest"
    have bs': "bs = (line @ CRLF) @ k @ CHR '':'' # '' '' @ v @ CR # ?rest"
      "bs = (line @ CRLF @ k @ '': '' @ v @ [CR]) @ ?rest"
      by (simp_all add: bs Cons kv header_lines_Cons)
    obtain h1 where h1: "parse_loop (view bs ys) (int (length bs)) (int (length (line @ CRLF))) (nslots h0) True 2 h0 body =
        parse_loop (view bs ys) (int (length bs)) (int (length ((line @ CRLF) @ k @ '': '' @ v @ [CR])))
          (nslots h0 + 1) False 0 h1 body"
      "wf_headers h1" "entries h1 = entries h0 @ [(k, v)]" "nslots h1 = nslots h0 + 1" "\<forall>j > nslots h0. slots h1 j = slots h0 j"
      using parse_line [OF h0(2) m wf(1,2) _ _ bs'(1), of ys 2 body] by auto
    have "nslots h1 + int (length kvs') < MAX_HEADERS" using assms(2) h1(4) h0(3) by (simp add: Cons)
    from parse_lines [OF wf(3) h1(2) this bs'(2), of ys body] obtain h' where
      "parse_loop (view bs ys) (int (length bs)) (int (length (line @ CRLF @ k @ '': '' @ v @ [CR]))) (nslots h1) False 0 h1 body =
        parse_loop (view bs ys) (int (length bs)) (int (length ((line @ CRLF @ k @ '': '' @ v @ [CR]) @ LF # header_lines kvs')))
          (nslots h') True 1 h' body"
      "wf_headers h'" "entries h' = entries h1 @ kvs'" "nslots h' = nslots h1 + int (length kvs')"
      "\<forall>j \<ge> nslots h'. slots h' j = slots h1 j" by blast
    then show ?thesis
      using s1 s2 h1 h0(3-5) by (intro exI [of _ h'] exI [of _ 1]) (simp add: Cons kv header_lines_Cons)
  qed
qed

lemma parse_headers_fields:
  assumes "wf_fields kvs" "kvs \<noteq> []" "int (length kvs) < MAX_HEADERS" "\<forall>c \<in> set line. no_eol c"
    and head: "head = line @ CRLF @ header_lines kvs @ CRLF"
  shows "\<exists>h. parse_headers (view (head @ zs) ys) body = Some (Some h, int (length head))
    \<and> wf_headers h \<and> entries h = kvs"
proof -
  define xs where "xs = line @ CRLF @ header_lines kvs"
  have bs: "head @ zs = line @ CRLF @ header_lines kvs @ CRLF @ zs" "head @ zs = xs @ CR # LF # zs"
    by (simp_all add: head xs_def)
  obtain h where h: "parse_headers (view (head @ zs) ys) body =
      parse_loop (view (head @ zs) ys) (int (length (head @ zs))) (int (length xs)) (nslots h) True 1 h body"
    "wf_headers h" "entries h = kvs" "nslots h = int (length kvs)"
    using parse_headers_lines [OF assms(1,3,4) bs(1), of ys body] assms(2) unfolding xs_def by auto
  have m: "nslots h < MAX_HEADERS" using h(4) assms(3) by simp
  have "parse_headers (view (head @ zs) ys) body = Some (Some h, int (length (xs @ CRLF)))"
    unfolding h(1) unfolding bs(2)
    using parse_break [OF m, of CR xs "LF # zs" ys True 1 h body] parse_break [OF m, of LF "xs @ [CR]" zs ys True 2 h body]
    by simp
  then show ?thesis using h(2,3) by (intro exI [of _ h]) (simp add: head xs_def)
qed

text \<open>A head of which only whole lines have arrived: the position of the body is left alone.\<close>

lemma parse_headers_part:
  assumes "wf_fields kvs" "int (length kvs) < MAX_HEADERS" "\<forall>c \<in> set line. no_eol c"
  shows "\<exists>h. parse_headers (view (line @ CRLF @ header_lines kvs) ys) body = Some (Some h, body)
    \<and> wf_headers h \<and> entries h = kvs"
proof -
  have bs: "line @ CRLF @ header_lines kvs = line @ CRLF @ header_lines kvs @ []" by simp
  obtain h n where h: "parse_headers (view (line @ CRLF @ header_lines kvs) ys) body =
      parse_loop (view (line @ CRLF @ header_lines kvs) ys) (int (length (line @ CRLF @ header_lines kvs)))
        (int (length (line @ CRLF @ header_lines kvs))) (nslots h) True n h body"
    "wf_headers h" "entries h = kvs"
    using parse_headers_lines [OF assms bs, of ys body] by auto
  moreover have "parse_loop buf l l i True n h body = Some (Some h, body)" for buf l i
    by (subst parse_loop.simps) simp
  ultimately show ?thesis by (intro exI [of _ h]) simp
qed

subsection \<open>Printing a table\<close>

lemma fmt_line [simp]:
  "fmt (''%s: %s'' @ CRLF) [AStr (view ks kt), AStr (view vs vt)] = Some (lit (header_line (ks, vs)))"
  by (simp add: fmt_def new_str_def header_line_def)

lemma fmt_more [simp]:
  "fmt (''%s%s: %s'' @ CRLF) [AStr (view rs rt), AStr (view ks kt), AStr (view vs vt)]
     = Some (lit (rs @ header_line (ks, vs)))"
  by (simp add: fmt_def new_str_def header_line_def)

lemma print_slots_more:
  "\<forall>s \<in> set ss. wf_slot s \<Longrightarrow>
     print_slots (lit rs) ss = Some (lit (rs @ header_lines (map entry ss)))"
proof (induction ss arbitrary: rs)
  case (Cons s ss)
  then obtain ks kt vs vt where s: "s = \<lparr>hkey = view ks kt, hvalue = view vs vt\<rparr>" "entry s = (ks, vs)"
    by (auto elim: wf_slotE)
  then have "print_slots (lit rs) (s # ss) = print_slots (lit (rs @ header_line (ks, vs))) ss"
    using fmt_more [of rs "[NUL]" ks kt vs vt] by (simp del: fmt_more)
  with Cons s show ?case by (simp add: header_lines_def)
qed (simp add: header_lines_def)

lemma print_headers_eq:
  assumes "wf_headers h"
  shows "print_headers None (Some h) =
    Some (if entries h = [] then None else lit (header_lines (entries h)))"
proof (cases "live_slots h")
  case Nil
  then show ?thesis by (simp add: print_headers_def entries_def)
next
  case (Cons s ss)
  have wf: "wf_slot s" "\<forall>s \<in> set ss. wf_slot s"
    using assms Cons by (auto simp: wf_headers_def)
  from wf(1) obtain ks kt vs vt where s: "s = \<lparr>hkey = view ks kt, hvalue = view vs vt\<rparr>" "entry s = (ks, vs)"
    by (auto elim: wf_slotE)
  then have "print_slots None (s # ss) = print_slots (lit (header_line (ks, vs))) ss"
    using fmt_line [of ks kt vs vt] by (simp del: fmt_line)
  with print_slots_more [OF wf(2), of "header_line (ks, vs)"] s Cons show ?thesis
    by (simp add: print_headers_def entries_def header_lines_def)
qed

text \<open>A NULL table is dereferenced by the macro \<open>over\<close>.\<close>

lemma print_headers_NULL [simp]: "print_headers dst None = None"
  by (simp add: print_headers_def)

subsection \<open>Heads that the parser misreads\<close>

text \<open>A head without any field: the third line-break byte ends it, one byte early.\<close>

lemma parse_headers_none:
  assumes "\<forall>c \<in> set line. no_eol c"
  shows "\<exists>h. parse_headers (view (line @ CRLF @ CRLF @ zs) ys) body =
      Some (Some h, int (length (line @ CRLF @ CRLF)) - 1)
    \<and> wf_headers h \<and> entries h = []"
proof -
  obtain h0 where h0: "new_headers = Some h0" "wf_headers h0" "nslots h0 = 0" "entries h0 = []"
    using new_headers_wf by (simp add: new_headers_def entries_def live_slots_def)
  have m: "0 < MAX_HEADERS" by (simp add: MAX_HEADERS_def)
  let ?bs = "line @ CR # LF # CR # LF # zs"
  have "takeWhile no_eol ?bs = line" using assms by (simp add: takeWhile_append)
  then have s: "scan_to no_eol (at (view ?bs ys)) 0 (int (length ?bs)) = Some (int (length line))"
    using str_at.scan_to_len [of "view ?bs ys" 0 no_eol] by simp
  have "parse_headers (view ?bs ys) body =
      parse_loop (view ?bs ys) (int (length ?bs)) (int (length line)) 0 False 0 h0 body"
    using s by (simp add: parse_headers_def h0)
  also have "\<dots> = Some (Some h0, int (length (line @ [CR, LF, CR])))"
    using parse_break [OF m, of CR line "LF # CR # LF # zs" ys False 0 h0 body]
      parse_break [OF m, of LF "line @ [CR]" "CR # LF # zs" ys True 1 h0 body]
      parse_break [OF m, of CR "line @ [CR, LF]" "LF # zs" ys True 2 h0 body] by simp
  finally have "parse_headers (view ?bs ys) body = Some (Some h0, int (length (line @ [CR, LF, CR])))" .
  then show ?thesis using h0(2,4) by (intro exI [of _ h0]) simp
qed

text \<open>A buffer without a line break: no table, and \<open>body\<close> is left alone.\<close>

lemma parse_headers_unbroken:
  assumes "\<forall>c \<in> set xs. no_eol c"
  shows "parse_headers (view xs ys) body = Some (None, body)"
proof -
  have "takeWhile no_eol xs = xs" using assms by (simp add: takeWhile_eq_all_conv)
  then show ?thesis
    using str_at.scan_to_len [of "view xs ys" 0 no_eol]
    by (simp add: parse_headers_def del: takeWhile_eq_all_conv)
qed

text \<open>A head that has arrived up to the middle of a key: the key has no value yet, and the table that
  the worker prints for its log has a NULL in it.\<close>

lemma print_slots_NULL:
  assumes "hkey s \<noteq> None" "hvalue s = None"
  shows "print_slots r (ss @ [s]) = None"
proof (induction ss arbitrary: r)
  case Nil
  obtain k where k: "hkey s = Some k" using assms(1) by blast
  show ?case
  proof (cases r)
    case None
    then show ?thesis using k assms(2)
      by (cases "fetch_bytes (sdata k) (slen k)") (simp_all add: fmt_def new_str_def convert_def)
  next
    case (Some v)
    then show ?thesis using k assms(2)
      by (cases "fetch_bytes (sdata k) (slen k)"; cases "fetch_bytes (sdata v) (slen v)")
        (simp_all add: fmt_def new_str_def convert_def)
  qed
next
  case (Cons s' ss)
  then show ?case by simp
qed

lemma parse_headers_cut:
  assumes "wf_fields kvs" "int (length kvs) < MAX_HEADERS" "\<forall>c \<in> set line. no_eol c"
    "k \<noteq> []" "no_eol (hd k)" "CHR '':'' \<notin> set k"
  shows "\<exists>h. parse_headers (view (line @ CRLF @ header_lines kvs @ k) ys) body = Some (Some h, body)
    \<and> print_headers None (Some h) = None"
proof -
  define xs where "xs = line @ CRLF @ header_lines kvs"
  obtain a as where k: "k = a # as" "no_eol a" "CHR '':'' \<notin> set as" "a \<noteq> CHR '':''"
    using assms(4-6) by (cases k) auto
  have b: "line @ CRLF @ header_lines kvs @ k = xs @ k" by (simp add: xs_def)
  have b': "xs @ k = line @ CRLF @ header_lines kvs @ k" by (simp add: xs_def)
  obtain h n where h: "parse_headers (view (xs @ k) ys) body =
      parse_loop (view (xs @ k) ys) (int (length (xs @ k))) (int (length xs)) (nslots h) True n h body"
    "wf_headers h" "nslots h = int (length kvs)" "\<forall>j \<ge> nslots h. hvalue (slots h j) = None"
    using parse_headers_lines [OF assms(1-3) b', of ys body] unfolding xs_def by auto
  let ?i = "nslots h" and ?h = "set_key h (nslots h) (view k ys)"
  have m: "?i < MAX_HEADERS" "0 \<le> ?i" using assms(2) h(3) by simp_all
  have at: "at (view (xs @ k) ys) (int (length xs)) = Some a" using at_pieces [of xs a as ys] by (simp add: k)
  have rk: "read_key (view (xs @ k) ys) (int (length (xs @ k))) (int (length xs)) ?i h
      = Some (int (length xs) + int (length as), last k, ?h)"
    using read_key_to [OF k(3), of "[]" xs a ys ?i h] by (simp add: k)
  have lk: "last k \<noteq> CHR '':''" using assms(4,6) by (metis last_in_set)
  have "parse_loop (view (xs @ k) ys) (int (length (xs @ k))) (int (length xs)) ?i True n h body = Some (Some ?h, body)"
    using m at rk lk k(2)
    by (subst parse_loop.simps) (simp add: Key_past k(1), subst parse_loop.simps, simp)
  moreover have "live_slots ?h = live_slots h @ [\<lparr>hkey = view k ys, hvalue = None\<rparr>]"
  proof -
    have "(slots h ?i)\<lparr>hkey := view k ys\<rparr> = \<lparr>hkey = view k ys, hvalue = None\<rparr>"
      using h(4) by (intro hslot.equality) simp_all
    then have "?h = put_slot (h\<lparr>nslots := ?i + 1\<rparr>) ?i (view k ys) None"
      by (simp add: set_key_def put_slot_def)
    then show ?thesis using live_slots_put [OF m(2,1)] by simp
  qed
  ultimately show ?thesis
    using h(1) unfolding b by (intro exI [of _ ?h]) (simp add: print_headers_def print_slots_NULL view_def)
qed

text \<open>An empty value: the search for its first byte runs over the line break, and the whole
  next line becomes the value.\<close>

lemma parse_headers_empty_value:
  assumes "\<forall>c \<in> set line. no_eol c" "wf_key k" "wf_value v"
  shows "\<exists>h. parse_headers (view (line @ CRLF @ k @ '':'' @ CRLF @ v @ CRLF @ CRLF @ zs) ys) body =
      Some (Some h, int (length (line @ CRLF @ k @ '':'' @ CRLF @ v @ CRLF @ CRLF)))
    \<and> entries h = [(k, v)]"
proof -
  define bs where "bs = line @ CRLF @ k @ '':'' @ CRLF @ v @ CRLF @ CRLF @ zs"
  have bs: "bs = line @ CR # LF # k @ CHR '':'' # CRLF @ v @ CR # LF # CRLF @ zs"
    "bs = (line @ CRLF) @ k @ CHR '':'' # CRLF @ v @ CR # LF # CRLF @ zs"
    "bs = (line @ CRLF @ k @ CHR '':'' # CRLF @ v @ [CR]) @ LF # header_lines [] @ CRLF @ zs"
    by (simp_all add: bs_def header_lines_def)
  obtain h0 where h0: "new_headers = Some h0" "wf_headers h0" "nslots h0 = 0" "entries h0 = []"
    using new_headers_wf by (simp add: new_headers_def entries_def live_slots_def)
  have m: "nslots h0 < MAX_HEADERS" by (simp add: h0 MAX_HEADERS_def)
  have "takeWhile no_eol bs = line" using assms(1) by (simp add: bs(1) takeWhile_append)
  then have s: "scan_to no_eol (at (view bs ys)) 0 (int (length bs)) = Some (int (length line))"
    using str_at.scan_to_len [of "view bs ys" 0 no_eol] by simp
  have s1: "parse_headers (view bs ys) body =
      parse_loop (view bs ys) (int (length bs)) (int (length line)) (nslots h0) False 0 h0 body"
    using s by (simp add: parse_headers_def h0) (simp add: bs(1))
  have s2: "parse_loop (view bs ys) (int (length bs)) (int (length line)) (nslots h0) False 0 h0 body =
      parse_loop (view bs ys) (int (length bs)) (int (length (line @ CRLF))) (nslots h0) True 2 h0 body"
    using parse_break [OF m, of CR line "LF # k @ CHR '':'' # CRLF @ v @ CR # LF # CRLF @ zs" ys False 0 h0 body]
      parse_break [OF m, of LF "line @ [CR]" "k @ CHR '':'' # CRLF @ v @ CR # LF # CRLF @ zs" ys True 1 h0 body]
    by (simp add: bs(1))
  obtain h1 where h1: "parse_loop (view bs ys) (int (length bs)) (int (length (line @ CRLF))) (nslots h0) True 2 h0 body =
      parse_loop (view bs ys) (int (length bs)) (int (length ((line @ CRLF) @ k @ CHR '':'' # CRLF @ v @ [CR])))
        (nslots h0 + 1) False 0 h1 body"
    "wf_headers h1" "entries h1 = entries h0 @ [(k, v)]" "nslots h1 = nslots h0 + 1"
    using parse_line [OF h0(2) m assms(2,3) _ _ bs(2), of ys 2 body] by auto
  have "nslots h1 + int (length []) < MAX_HEADERS" using h1(4) h0(3) by (simp add: MAX_HEADERS_def)
  from parse_fields [OF _ h1(2) this bs(3), of ys body] obtain h' where
    "parse_loop (view bs ys) (int (length bs)) (int (length (line @ CRLF @ k @ CHR '':'' # CRLF @ v @ [CR])))
        (nslots h1) False 0 h1 body =
      Some (Some h', int (length ((line @ CRLF @ k @ CHR '':'' # CRLF @ v @ [CR]) @ LF # header_lines [] @ CRLF)))"
    "entries h' = entries h1 @ []" by (auto simp: wf_fields_def)
  then show ?thesis
    unfolding bs_def [symmetric] using s1 s2 h1 h0
    by (intro exI [of _ h']) (simp add: header_lines_def)
qed

end
