(* ===== verification/Headers_Sort.thy ===== *)
theory Headers_Sort
  imports Headers
begin

section \<open>Sorting a header table (headers.c: sort_headers)\<close>

text \<open>
  The two nested loops of \<open>sort_headers\<close> only exchange slots, so the table keeps its slots;
  and after round \<open>i\<close> the key in slot \<open>i\<close> is at most every later one, so the keys end up
  in the order of \<open>lesser\<close>.
\<close>

definition key_bytes :: "hslot \<Rightarrow> int list" where
  "key_bytes s = map schar (chars_of (hkey s))"

lemma swap_simps [simp]:
  "nslots (swap_slots h i j) = nslots h"
  "slots (swap_slots h i j) k = (if k = j then slots h i else if k = i then slots h j else slots h k)"
  by (simp_all add: swap_slots_def)

lemma live_slots_swap:
  assumes "0 \<le> i" "0 \<le> j" "i < nslots h" "j < nslots h" "nslots h \<le> MAX_HEADERS"
  shows "live_slots (swap_slots h i j) =
    (live_slots h)[nat j := live_slots h ! nat i, nat i := live_slots h ! nat j]"
proof (rule nth_equalityI)
  show "length (live_slots (swap_slots h i j)) =
    length ((live_slots h)[nat j := live_slots h ! nat i, nat i := live_slots h ! nat j])"
    by simp
next
  fix k assume "k < length (live_slots (swap_slots h i j))"
  then have k: "int k < nslots h" "k < nat (nslots h)" using assms by auto
  with assms live_slots_nth [of "int k" "swap_slots h i j"] live_slots_nth [of i h]
    live_slots_nth [of j h] live_slots_nth [of "int k" h]
  show "live_slots (swap_slots h i j) ! k =
    (live_slots h)[nat j := live_slots h ! nat i, nat i := live_slots h ! nat j] ! k"
    by (auto simp: nth_list_update)
qed

lemma swap_wf:
  assumes "wf_headers h" "0 \<le> i" "0 \<le> j" "i < nslots h" "j < nslots h"
  shows "wf_headers (swap_slots h i j)" "mset (live_slots (swap_slots h i j)) = mset (live_slots h)"
proof -
  have n: "nslots h \<le> MAX_HEADERS" using assms(1) by (simp add: wf_headers_def)
  have "nat j < length (live_slots h)" "nat i < length (live_slots h)"
    using assms n by auto
  then show m: "mset (live_slots (swap_slots h i j)) = mset (live_slots h)"
    using live_slots_swap [OF assms(2-5) n] mset_swap [of "nat i" "live_slots h" "nat j"] by simp
  show "wf_headers (swap_slots h i j)"
    using assms(1) mset_eq_setD [OF m] by (simp add: wf_headers_def)
qed

subsection \<open>One round\<close>

definition round_inv :: "headers_struct \<Rightarrow> headers_struct \<Rightarrow> int \<Rightarrow> bool" where
  "round_inv h h' i \<longleftrightarrow> wf_headers h' \<and> nslots h' = nslots h
     \<and> mset (live_slots h') = mset (live_slots h)
     \<and> (\<forall>k < i. slots h' k = slots h k)
     \<and> (\<forall>k. i \<le> k \<and> k < nslots h \<longrightarrow> (\<exists>m. i \<le> m \<and> m < nslots h \<and> slots h' k = slots h m))"

lemma round_inv_refl: "wf_headers h \<Longrightarrow> round_inv h h i"
  by (auto simp: round_inv_def)

lemma round_inv_trans: "round_inv h h1 i \<Longrightarrow> round_inv h1 h2 i \<Longrightarrow> round_inv h h2 i"
  unfolding round_inv_def by metis

lemma round_inv_swap:
  assumes "wf_headers h" "0 \<le> i" "i < j" "j < nslots h"
  shows "round_inv h (swap_slots h i j) i"
  using assms swap_wf [OF assms(1), of i j]
  by (auto simp: round_inv_def) (metis less_imp_le)

lemma sort_inner_round:
  assumes "wf_headers h" "0 \<le> i" "i < j" "j \<le> nslots h"
    "\<forall>k. i \<le> k \<and> k < j \<longrightarrow> key_bytes (slots h i) \<le> key_bytes (slots h k)"
  shows "\<exists>h'. sort_inner h i j = Some h' \<and> round_inv h h' i
    \<and> (\<forall>k. i \<le> k \<and> k < nslots h \<longrightarrow> key_bytes (slots h' i) \<le> key_bytes (slots h' k))"
  using assms
proof (induction h i j rule: sort_inner.induct)
  case (1 h i j)
  have n: "nslots h \<le> MAX_HEADERS" using "1.prems"(1) by (simp add: wf_headers_def)
  show ?case
  proof (cases "j < nslots h")
    case False
    with "1.prems" show ?thesis
      by (subst sort_inner.simps) (auto simp: round_inv_refl)
  next
    case True
    then have jm: "j < nslots h \<and> j < MAX_HEADERS" using n by simp
    have k: "Key (Some h) j = Some (hkey (slots h j))" "Key (Some h) i = Some (hkey (slots h i))"
      using jm "1.prems" by (auto intro!: Key_live)
    have wf: "wf_str (hkey (slots h j))" "wf_str (hkey (slots h i))"
      using wf_slot_at [OF "1.prems"(1)] jm "1.prems" by (auto simp: wf_slot_def)
    let ?b = "key_bytes (slots h j) < key_bytes (slots h i)"
    let ?h = "if ?b then swap_slots h i j else h"
    have l: "lesser (hkey (slots h j)) (hkey (slots h i)) = Some ?b"
      using wf by (simp add: lesser_eq key_bytes_def)
    have step: "sort_inner h i j = sort_inner ?h i (j + 1)"
      using jm k l by (subst sort_inner.simps) simp
    have r: "round_inv h ?h i"
      using "1.prems" True by (auto intro: round_inv_swap round_inv_refl)
    have least: "\<forall>k. i \<le> k \<and> k < j + 1 \<longrightarrow> key_bytes (slots ?h i) \<le> key_bytes (slots ?h k)"
    proof (intro allI impI)
      fix k assume k: "i \<le> k \<and> k < j + 1"
      then have "k = j \<or> k = i \<or> key_bytes (slots h i) \<le> key_bytes (slots h k)"
        using "1.prems"(5) by auto
      then show "key_bytes (slots ?h i) \<le> key_bytes (slots ?h k)"
        using "1.prems"(3) by auto
    qed
    have "wf_headers ?h" "nslots ?h = nslots h" using r by (simp_all add: round_inv_def)
    with "1.IH" [OF jm k l] "1.prems" True least
    obtain h' where h': "sort_inner ?h i (j + 1) = Some h'" "round_inv ?h h' i"
      "\<forall>k. i \<le> k \<and> k < nslots h \<longrightarrow> key_bytes (slots h' i) \<le> key_bytes (slots h' k)"
      by auto
    with step round_inv_trans [OF r h'(2)] show ?thesis by auto
  qed
qed

subsection \<open>All rounds\<close>

definition sorted_upto :: "headers_struct \<Rightarrow> int \<Rightarrow> bool" where
  "sorted_upto h i \<longleftrightarrow>
     (\<forall>a b. 0 \<le> a \<and> a < i \<and> a \<le> b \<and> b < nslots h \<longrightarrow> key_bytes (slots h a) \<le> key_bytes (slots h b))"

lemma sort_outer_sorts:
  assumes "wf_headers h" "0 \<le> i" "i \<le> nslots h" "sorted_upto h i"
  shows "\<exists>h'. sort_outer h i = Some h' \<and> wf_headers h' \<and> nslots h' = nslots h
    \<and> mset (live_slots h') = mset (live_slots h) \<and> sorted_upto h' (nslots h)"
  using assms
proof (induction h i rule: sort_outer.induct)
  case (1 h i)
  have n: "nslots h \<le> MAX_HEADERS" using "1.prems"(1) by (simp add: wf_headers_def)
  show ?case
  proof (cases "i < nslots h")
    case False
    with "1.prems" show ?thesis by (subst sort_outer.simps) auto
  next
    case True
    then have im: "i < nslots h \<and> i < MAX_HEADERS" using n by simp
    have nn: "hkey (slots h i) \<noteq> None"
      using wf_slot_at [OF "1.prems"(1), of i] True "1.prems" by (auto simp: wf_slot_def)
    have "\<forall>k. i \<le> k \<and> k < i + 1 \<longrightarrow> key_bytes (slots h i) \<le> key_bytes (slots h k)"
      by (metis order_antisym order_refl zless_add1_eq less_imp_le)
    then obtain h1 where h1: "sort_inner h i (i + 1) = Some h1" "round_inv h h1 i"
      "\<forall>k. i \<le> k \<and> k < nslots h \<longrightarrow> key_bytes (slots h1 i) \<le> key_bytes (slots h1 k)"
      using sort_inner_round [of h i "i + 1"] "1.prems" True by auto
    have n1: "nslots h1 = nslots h" "wf_headers h1" "mset (live_slots h1) = mset (live_slots h)"
      using h1(2) by (simp_all add: round_inv_def)
    have "sorted_upto h1 (i + 1)"
      unfolding sorted_upto_def n1
    proof (intro allI impI)
      fix a b assume ab: "0 \<le> a \<and> a < i + 1 \<and> a \<le> b \<and> b < nslots h"
      show "key_bytes (slots h1 a) \<le> key_bytes (slots h1 b)"
      proof (cases "a = i")
        case True
        with ab h1(3) show ?thesis by blast
      next
        case False
        then have a: "a < i" "slots h1 a = slots h a"
          using ab h1(2) by (auto simp: round_inv_def)
        obtain m where "a \<le> m" "m < nslots h" "slots h1 b = slots h m"
          using ab h1(2) a(1) unfolding round_inv_def by (metis linorder_not_le order_trans less_imp_le)
        with a ab "1.prems"(4) show ?thesis by (simp add: sorted_upto_def)
      qed
    qed
    with "1.IH"(2) [OF im nn h1(1)] n1 "1.prems" True
    obtain h' where "sort_outer h1 (i + 1) = Some h'" "wf_headers h'" "nslots h' = nslots h1"
      "mset (live_slots h') = mset (live_slots h1)" "sorted_upto h' (nslots h1)" by auto
    with im nn h1(1) n1 show ?thesis by (subst sort_outer.simps) auto
  qed
qed

lemma sorted_upto_sorted:
  assumes "wf_headers h" "sorted_upto h (nslots h)"
  shows "sorted (map key_bytes (live_slots h))"
proof (rule sorted_iff_nth_mono [THEN iffD2], intro allI impI)
  have n: "nslots h \<le> MAX_HEADERS" "0 \<le> nslots h" using assms(1) by (simp_all add: wf_headers_def)
  fix a b assume ab: "a \<le> b" "b < length (map key_bytes (live_slots h))"
  then have "int b < nslots h" using n by auto
  with ab n assms(2) live_slots_nth [of "int a" h] live_slots_nth [of "int b" h]
  show "map key_bytes (live_slots h) ! a \<le> map key_bytes (live_slots h) ! b"
    by (auto simp: sorted_upto_def)
qed

lemma copy_headers_live: "live_slots (copy_headers h) = live_slots h"
  by (auto simp: live_slots_def copy_headers_def intro!: map_cong)

lemma copy_headers_wf: "wf_headers h \<Longrightarrow> wf_headers (copy_headers h)"
  by (simp add: wf_headers_def copy_headers_live) (simp add: copy_headers_def)

lemma sort_headers_result:
  assumes "wf_headers h"
  obtains h' where "sort_headers (Some h) = Some (Some h')" "wf_headers h'"
    "mset (live_slots h') = mset (live_slots h)" "sorted (map key_bytes (live_slots h'))"
proof -
  have w: "wf_headers (copy_headers h)" "0 \<le> nslots (copy_headers h)"
    "sorted_upto (copy_headers h) 0"
    using copy_headers_wf [OF assms] by (auto simp: wf_headers_def sorted_upto_def)
  then obtain h' where "sort_outer (copy_headers h) 0 = Some h'" "wf_headers h'"
    "nslots h' = nslots (copy_headers h)" "mset (live_slots h') = mset (live_slots h)"
    "sorted_upto h' (nslots (copy_headers h))"
    using sort_outer_sorts [of "copy_headers h" 0] by (auto simp: copy_headers_live)
  then show ?thesis
    using that [of h'] sorted_upto_sorted by (simp add: sort_headers_def)
qed

text \<open>C12: sorting a well-formed header table returns (no fault, no endless loop) a
  well-formed table of the same slots, none lost and none duplicated, in the lexicographic
  order of the keys' signed bytes.\<close>

theorem sort_headers_correct:
  assumes "wf_headers h"
  shows "\<exists>h'. sort_headers (Some h) = Some (Some h') \<and> wf_headers h'
    \<and> mset (live_slots h') = mset (live_slots h)
    \<and> sorted (map (\<lambda>s. map schar (chars_of (hkey s))) (live_slots h'))"
  using sort_headers_result [OF assms] unfolding key_bytes_def by metis

definition two_headers :: headers_struct where
  "two_headers = put_slot (put_slot \<lparr>nslots = 2, slots = (\<lambda>_. empty_slot)\<rparr>
     0 (lit ''Host'') (lit ''a'')) 1 (lit ''Age'') (lit ''1'')"

theorem sort_headers_correct_witness:
  "wf_headers two_headers \<and> (\<exists>h'. sort_headers (Some two_headers) = Some (Some h') \<and> wf_headers h'
    \<and> mset (live_slots h') = mset (live_slots two_headers)
    \<and> sorted (map (\<lambda>s. map schar (chars_of (hkey s))) (live_slots h')))"
proof -
  have "live_slots two_headers = [\<lparr>hkey = lit ''Host'', hvalue = lit ''a''\<rparr>,
      \<lparr>hkey = lit ''Age'', hvalue = lit ''1''\<rparr>]"
    by (simp add: live_slots_def two_headers_def put_slot_def MAX_HEADERS_def upt_rec)
  then have w: "wf_headers two_headers"
    by (simp add: wf_headers_def wf_slot_def) (simp add: two_headers_def put_slot_def MAX_HEADERS_def)
  from w sort_headers_correct [OF w] show ?thesis by simp
qed

end
