(* ===== verification/Headers_Props.thy ===== *)
theory Headers_Props
  imports Headers_Parse Headers_Sort
begin

section \<open>What the header tables guarantee\<close>

text \<open>
  Lookup after insertion, the full table, the round trip of the head of a message through
  printing and parsing, and the two heads that the parser misreads.
\<close>

subsection \<open>Lookup after insertion\<close>

text \<open>C29: After \<open>append_header\<close> a lookup still answers the value the table had for a key, and the
  new value exactly for a key that the table did not have: a second field of the same name is
  stored but never found.\<close>

theorem find_after_append:
  assumes "wf_headers h" "good_str k" "good_str v" "good_str q"
    "append_header (Some h) k v = Some t"
  shows "\<exists>r. find_header t q = Some r \<and> result_of r =
    (case map_of (entries h) (chars_of q) of
       Some w \<Rightarrow> Some w
     | None \<Rightarrow> if chars_of q = chars_of k then Some (chars_of v) else None)"
  using header_table.lookup_after_add [of "Some h" k v q t] assms
  by (simp add: wf_table_def table_entries_def)

theorem find_after_append_witness:
  "\<exists>t r. append_header new_headers (lit ''Host'') (lit ''a'') = Some t
    \<and> find_header t (lit ''Host'') = Some r \<and> result_of r = Some ''a''"
proof -
  obtain h where h: "new_headers = Some h" "wf_headers h" "entries h = []" "nslots h < MAX_HEADERS"
    using new_headers_wf by (simp add: new_headers_def entries_def live_slots_def MAX_HEADERS_def)
  then obtain t where "append_header (Some h) (lit ''Host'') (lit ''a'') = Some t"
    using append_header_room by blast
  with find_after_append [OF h(2), of "lit ''Host''" "lit ''a''" "lit ''Host''" t] h show ?thesis by auto
qed

text \<open>Adding fields one after the other keeps their order while there is room for all of
  them, and the whole run does not return when they are more than the 250 slots.\<close>

theorem append_run:
  assumes "\<forall>(k, v) \<in> set kvs. good_str k \<and> good_str v"
  shows "foldl (\<lambda>m (k, v). Option.bind m (\<lambda>t. append_header t k v)) (Some new_headers) kvs = None
      \<longleftrightarrow> 250 < length kvs"
    (is "?run (Some new_headers) kvs = None \<longleftrightarrow> _")
proof -
  have n: "wf_table new_headers" "table_entries new_headers = []" "nat MAX_HEADERS = 250"
    using new_headers_wf
    by (auto simp: wf_table_def table_entries_def new_headers_def entries_def live_slots_def MAX_HEADERS_def)
  have none: "?run None xs = None" for xs by (induction xs) auto
  show ?thesis
  proof (cases "length kvs \<le> 250")
    case True
    with header_table.add_run_room [OF n(1), of kvs] assms n show ?thesis by fastforce
  next
    case False
    define as where "as = take 250 kvs"
    have "drop 250 kvs \<noteq> []" using False by simp
    then obtain k v bs where "drop 250 kvs = (k, v) # bs" by (metis list.exhaust surj_pair)
    then have kvs: "kvs = as @ (k, v) # bs" by (metis as_def append_take_drop_id)
    have "length as = 250" using False by (simp add: as_def)
    with header_table.add_run_room [OF n(1), of as] assms n kvs obtain t where
      t: "?run (Some new_headers) as = Some t" "wf_table t" "length (table_entries t) = 250" by fastforce
    have "append_header t k v = None"
      using header_table.add_full [OF t(2), of k v] t(3) n by simp
    then have "?run (Some new_headers) kvs = None" using t(1) none by (simp add: kvs)
    with False show ?thesis by simp
  qed
qed

theorem append_run_witness:
  "foldl (\<lambda>m (k, v). Option.bind m (\<lambda>t. append_header t k v)) (Some new_headers)
     (replicate 251 (lit ''a'', lit ''b'')) = None"
  using append_run [of "replicate 251 (lit ''a'', lit ''b'')"] by simp

subsection \<open>The head of a message\<close>

text \<open>A head of a first line, at least one well-formed field and a blank line is parsed into
  exactly its fields, in order, and the body starts behind the blank line.\<close>

theorem parse_head:
  assumes "wf_fields kvs" "kvs \<noteq> []" "length kvs < 250" "\<forall>c \<in> set line. no_eol c"
  shows "\<exists>h. parse_headers (view (line @ CRLF @ header_lines kvs @ CRLF @ zs) ys) body =
      Some (Some h, int (length (line @ CRLF @ header_lines kvs @ CRLF)))
    \<and> wf_headers h \<and> entries h = kvs"
proof -
  have "int (length kvs) < MAX_HEADERS" using assms(3) by (simp add: MAX_HEADERS_def)
  from parse_headers_fields [OF assms(1,2) this assms(4) refl, of zs ys body] show ?thesis
    by (simp only: append_assoc)
qed

lemma GET_line: "\<forall>c \<in> set ''GET / HTTP/1.1''. no_eol c"
  by simp

lemma Host_field: "wf_fields [(''Host'', ''a:80'')]"
  by (simp add: wf_fields_def wf_key_def wf_value_def isspace_def)

theorem parse_head_witness:
  "\<exists>h. parse_headers (view (''GET / HTTP/1.1'' @ CRLF @ header_lines [(''Host'', ''a:80'')] @ CRLF @ ''body'') []) 0 =
      Some (Some h, int (length (''GET / HTTP/1.1'' @ CRLF @ header_lines [(''Host'', ''a:80'')] @ CRLF)))
    \<and> wf_headers h \<and> entries h = [(''Host'', ''a:80'')]"
  using parse_head [OF Host_field _ _ GET_line, of "''body''" "[]" 0] by simp

text \<open>C15: What \<open>print_headers\<close> prints for a table, sent behind a first line and before a blank
  line, is parsed back into the same fields.\<close>

theorem print_parse_roundtrip:
  assumes "wf_headers h" "wf_fields (entries h)" "entries h \<noteq> []" "nslots h < 250"
    "\<forall>c \<in> set line. no_eol c"
  shows "\<exists>s h'. print_headers None (Some h) = Some s
    \<and> parse_headers (view (line @ CRLF @ chars_of s @ CRLF @ zs) ys) body =
        Some (Some h', int (length (line @ CRLF @ chars_of s @ CRLF)))
    \<and> entries h' = entries h"
proof -
  have "length (entries h) < 250" using assms(1,4) by (simp add: length_entries wf_headers_def nat_less_iff)
  have "int (length (entries h)) < MAX_HEADERS"
    using assms(1,4) by (simp add: length_entries wf_headers_def MAX_HEADERS_def)
  from parse_headers_fields [OF assms(2,3) this assms(5) refl, of zs ys body] show ?thesis
    using print_headers_eq [OF assms(1)] assms(3) by (fastforce simp only: append_assoc if_False chars_of_view)
qed

theorem print_parse_roundtrip_witness:
  "\<exists>h s h'. entries h = [(''Host'', ''a:80'')] \<and> print_headers None (Some h) = Some s
    \<and> parse_headers (view (''GET / HTTP/1.1'' @ CRLF @ chars_of s @ CRLF) []) 0 =
        Some (Some h', int (length (''GET / HTTP/1.1'' @ CRLF @ chars_of s @ CRLF)))
    \<and> entries h' = entries h"
proof -
  obtain h where h: "wf_headers h" "entries h = [(''Host'', ''a:80'')]" "nslots h = 1"
    using one_field .
  have "wf_fields (entries h)" unfolding h(2) by (rule Host_field)
  moreover have "entries h \<noteq> []" using h(2) by simp
  ultimately show ?thesis
    using print_parse_roundtrip [OF h(1) _ _ _ GET_line, of "[]" "[]" 0] h(2,3)
    by (intro exI [of _ h]) (simp only: append_Nil2 simp_thms)
qed

text \<open>The head of a message without any field ends one byte early: the body that
  \<open>parse_headers\<close> reports starts with the last byte of the blank line.\<close>

theorem fieldless_head_off_by_one:
  assumes "\<forall>c \<in> set line. no_eol c"
  shows "\<exists>h. parse_headers (view (line @ CRLF @ CRLF @ zs) ys) body =
      Some (Some h, int (length (line @ CRLF @ CRLF)) - 1) \<and> entries h = []"
  using parse_headers_none [OF assms] by blast

theorem fieldless_head_off_by_one_witness:
  "\<exists>h. parse_headers (view (''GET / HTTP/1.1'' @ CRLF @ CRLF @ ''body'') []) 0 =
      Some (Some h, int (length (''GET / HTTP/1.1'' @ CRLF @ CRLF)) - 1) \<and> entries h = []"
  by (rule fieldless_head_off_by_one [OF GET_line])

text \<open>A field with an empty value takes the whole next line as its value, and that line is not
  parsed as a field of its own.\<close>

theorem empty_value_takes_next_line:
  assumes "\<forall>c \<in> set line. no_eol c" "wf_key k" "wf_value (k' @ '': '' @ v)"
  shows "\<exists>h n. parse_headers (view (line @ CRLF @ k @ '':'' @ CRLF @ header_lines [(k', v)] @ CRLF) ys) body
      = Some (Some h, n) \<and> entries h = [(k, k' @ '': '' @ v)]"
  using parse_headers_empty_value [OF assms, of "[]" ys body]
  by (force simp: header_lines_def header_line_def)

theorem empty_value_takes_next_line_witness:
  "\<exists>h n. parse_headers (view (''GET / HTTP/1.1'' @ CRLF @ ''Token'' @ '':'' @ CRLF
        @ header_lines [(''Host'', ''a'')] @ CRLF) []) 0
      = Some (Some h, n) \<and> entries h = [(''Token'', ''Host'' @ '': '' @ ''a'')]"
  by (rule empty_value_takes_next_line [OF GET_line])
    (simp_all add: wf_key_def wf_value_def isspace_def)

end
