(* ===== verification/Uri.thy ===== *)
theory Uri
  imports Headers_Parse
begin

section \<open>URI encoding and form variables (uri.c)\<close>

text \<open>
  \<open>parse_uri_encoded\<close> splits \<open>name=value&name=value\<close> into a header table; the second
  delimiter list has a length of one, so only the ampersand ends a value.  \<open>uri_encode\<close> indexes
  its table of hexadecimal digits with a signed \<open>char\<close>, so a byte above 127 reads before the
  table.
\<close>

definition mark_chars :: string where
  "mark_chars = ''-_.!~*'' @ [CHR 0x27] @ ''()'' @ [NUL]"

definition mark_len :: int where
  "mark_len = 9"

definition hex_chars :: string where
  "hex_chars = ''0123456789ABCDEF'' @ [NUL]"

subsection \<open>Form variables\<close>

function uri_fields_loop :: "str \<Rightarrow> int \<Rightarrow> int \<Rightarrow> headers \<Rightarrow> headers option" where
  "uri_fields_loop buf l i retval =
     (if i < l
      then do {
        e \<leftarrow> find_str buf i (''='' @ [NUL]) 1;
        (if e \<ge> l
         then do { _ \<leftarrow> debug_log ''Key not found %i > %i'' [AReg (of_int e), AReg (of_int l)]; Some retval }
         else do {
           key \<leftarrow> ref_at buf i (e - i);
           a \<leftarrow> find_str buf (e + 1) (''&'' @ CRLF @ [NUL]) 1;
           val \<leftarrow> (if a > l then ref_at buf (e + 1) (l - (e + 1))
                  else ref_at buf (e + 1) (a - (e + 1)));
           t \<leftarrow> append_header retval key val;
           uri_fields_loop buf l (a + 1) t }) }
      else Some retval)"
  by pat_completeness auto
termination
  by (relation "measure (\<lambda>(buf, l, i, retval). nat (l - i))") (auto dest!: find_str_ge)

declare uri_fields_loop.simps [simp del]

definition parse_uri_encoded :: "headers \<Rightarrow> str \<Rightarrow> int \<Rightarrow> headers option" where
  "parse_uri_encoded head buf pos =
     (if buf = None then Some None
      else do {
        let l = len buf;
        let retval = (if head \<noteq> None then head else new_headers);
        i \<leftarrow> scan_while isspace (at buf) pos;
        uri_fields_loop buf l i retval })"

subsection \<open>Encoding and decoding\<close>

function mark_loop :: "char \<Rightarrow> int \<Rightarrow> bool option" where
  "mark_loop c k =
     (if k < mark_len
      then do { m \<leftarrow> peek mark_chars k; if m = c then Some True else mark_loop c (k + 1) }
      else Some False)"
  by pat_completeness auto
termination
  by (relation "measure (\<lambda>(c, k). nat (mark_len - k))") auto

declare mark_loop.simps [simp del]

definition is_mark_char :: "char \<Rightarrow> bool option" where
  "is_mark_char c = mark_loop c 0"

definition is_clean_char :: "char \<Rightarrow> bool option" where
  "is_clean_char c =
     (if between (schar CHR ''A'') (schar c) (schar CHR ''Z'')
       \<or> between (schar CHR ''a'') (schar c) (schar CHR ''z'')
       \<or> between (schar CHR ''0'') (schar c) (schar CHR ''9'')
      then Some True else is_mark_char c)"

text \<open>The first loop of \<open>uri_encode\<close> computes the length, the second one fills the string.\<close>

function encoded_len :: "str \<Rightarrow> int \<Rightarrow> int \<Rightarrow> int \<Rightarrow> int option" where
  "encoded_len s i l j =
     (if i < l
      then do { c \<leftarrow> at s i; b \<leftarrow> is_clean_char c; encoded_len s (i + 1) l (j + (if b then 1 else 3)) }
      else Some j)"
  by pat_completeness auto
termination
  by (relation "measure (\<lambda>(s, i, l, j). nat (l - i))") auto

declare encoded_len.simps [simp del]

function encode_loop :: "str \<Rightarrow> int \<Rightarrow> int \<Rightarrow> str \<Rightarrow> int \<Rightarrow> str option" where
  "encode_loop s i l retval j =
     (if i < l
      then do {
        c \<leftarrow> at s i;
        b \<leftarrow> is_clean_char c;
        (if b then do { r \<leftarrow> set_at retval j c; encode_loop s (i + 1) l r (j + 1) }
         else do {
           r \<leftarrow> set_at retval j CHR ''%'';
           h \<leftarrow> peek hex_chars (tdiv (schar c) 16);
           r \<leftarrow> set_at r (j + 1) h;
           g \<leftarrow> peek hex_chars (tmod (schar c) 16);
           r \<leftarrow> set_at r (j + 2) g;
           encode_loop s (i + 1) l r (j + 3) }) }
      else Some retval)"
  by pat_completeness auto
termination
  by (relation "measure (\<lambda>(s, i, l, retval, j). nat (l - i))") auto

declare encode_loop.simps [simp del]

definition uri_encode :: "str \<Rightarrow> str option" where
  "uri_encode s = do {
     j \<leftarrow> encoded_len s 0 (len s) 0;
     encode_loop s 0 (len s) (blank j) 0 }"

text \<open>\<open>from_hex\<close> adds to a \<open>char\<close>; the sum is reduced to eight bits once, at the end.\<close>

definition hex_part :: "char \<Rightarrow> int" where
  "hex_part a =
     (if between (schar CHR ''0'') (schar a) (schar CHR ''9'') then schar a - schar CHR ''0'' else 0)
   + (if between (schar CHR ''A'') (schar a) (schar CHR ''F'') then schar a - schar CHR ''A'' + 10 else 0)
   + (if between (schar CHR ''a'') (schar a) (schar CHR ''f'') then schar a - schar CHR ''a'' + 10 else 0)"

definition from_hex :: "char \<Rightarrow> char \<Rightarrow> char" where
  "from_hex a b = char_of_int (hex_part a * 16 + hex_part b)"

function decode_loop :: "str \<Rightarrow> int \<Rightarrow> int \<Rightarrow> str \<Rightarrow> int \<Rightarrow> (str \<times> int) option" where
  "decode_loop s i l retval j =
     (if i < l
      then do {
        c \<leftarrow> at s i;
        (if c = CHR ''+'' then do {
           r \<leftarrow> set_at retval j CHR '' ''; decode_loop s (i + 1) l r (j + 1) }
         else if c = CHR ''%'' then do {
           a \<leftarrow> at s (i + 1); b \<leftarrow> at s (i + 2);
           r \<leftarrow> set_at retval j (from_hex a b); decode_loop s (i + 3) l r (j + 1) }
         else do {
           r \<leftarrow> set_at retval j c; decode_loop s (i + 1) l r (j + 1) }) }
      else Some (retval, j))"
  by pat_completeness auto
termination
  by (relation "measure (\<lambda>(s, i, l, retval, j). nat (l - i))") auto

declare decode_loop.simps [simp del]

definition uri_decode :: "str \<Rightarrow> str option" where
  "uri_decode s = do {
     (r, j) \<leftarrow> decode_loop s 0 (len s) (blank (len s)) 0;
     (case r of None \<Rightarrow> None | Some v \<Rightarrow> Some (Some (v\<lparr>slen := j\<rparr>))) }"

subsection \<open>The classes of bytes\<close>

definition clean :: "char \<Rightarrow> bool" where
  "clean c \<longleftrightarrow> between 65 (schar c) 90 \<or> between 97 (schar c) 122 \<or> is_digit c \<or> c \<in> set (butlast mark_chars)"

lemma is_mark_char_eq: "is_mark_char c = Some (c \<in> set (butlast mark_chars))"
  by (simp add: is_mark_char_def mark_loop.simps mark_len_def mark_chars_def eq_commute [of _ c])

lemma is_clean_char_eq [run_simps]: "is_clean_char c = Some (clean c)"
  by (simp add: is_clean_char_def clean_def is_digit_def is_mark_char_eq)

text \<open>A byte in its encoded form, and what decoding makes of a string.\<close>

definition enc_byte :: "char \<Rightarrow> string" where
  "enc_byte c = (if clean c then [c]
     else [CHR ''%'', hex_chars ! nat (schar c div 16), hex_chars ! nat (schar c mod 16)])"

definition head_byte :: "string \<Rightarrow> char" where
  "head_byte cs = (case cs of [] \<Rightarrow> NUL | c # _ \<Rightarrow> c)"

function dec_bytes :: "string \<Rightarrow> string" where
  "dec_bytes [] = []"
| "dec_bytes (c # cs) =
     (if c = CHR ''+'' then CHR '' '' # dec_bytes cs
      else if c = CHR ''%'' then from_hex (head_byte cs) (head_byte (drop 1 cs)) # dec_bytes (drop 2 cs)
      else c # dec_bytes cs)"
  by pat_completeness auto
termination
  by (relation "measure length") auto

subsection \<open>Encoding\<close>

lemma set_at_view [simp]:
  "set_at (view (xs @ c # ys) zs) (int (length xs)) d = Some (view (xs @ d # ys) zs)"
  by (simp add: set_at_def view_def)

lemma set_at_done:
  "int (length ds) = j \<Longrightarrow> set_at (view (ds @ c # ys) zs) j d = Some (view ((ds @ [d]) @ ys) zs)"
  using set_at_view by auto

lemma hex_char_peek: "0 \<le> n \<Longrightarrow> n < 16 \<Longrightarrow> peek hex_chars n = Some (hex_chars ! nat n)"
  by (simp add: hex_chars_def)

definition enc_bytes :: "string \<Rightarrow> string" where
  "enc_bytes cs = concat (map enc_byte cs)"

lemma enc_bytes_simps [simp]: "enc_bytes [] = []" "enc_bytes (c # cs) = enc_byte c @ enc_bytes cs"
  by (simp_all add: enc_bytes_def)

definition seven_bit :: "string \<Rightarrow> bool" where
  "seven_bit cs \<longleftrightarrow> (\<forall>c \<in> set cs. 0 \<le> schar c)"

lemma encoded_len_eq:
  "encoded_len (view (ps @ cs) ys) (int (length ps)) (int (length (ps @ cs))) j
     = Some (j + int (length (enc_bytes cs)))"
proof (induction cs arbitrary: ps j)
  case Nil
  then show ?case by (subst encoded_len.simps) simp
next
  case (Cons c cs)
  from Cons.IH [of "ps @ [c]"] show ?case
    by (subst encoded_len.simps) (simp add: at_pieces is_clean_char_eq enc_byte_def ac_simps)
qed

lemma encode_loop_eq:
  assumes "seven_bit cs"
  shows "encode_loop (view (ps @ cs) ys) (int (length ps)) (int (length (ps @ cs)))
      (view (ds @ replicate (length (enc_bytes cs)) NUL) []) (int (length ds))
    = Some (view (ds @ enc_bytes cs) [])"
  using assms
proof (induction cs arbitrary: ps ds)
  case Nil
  then show ?case by (subst encode_loop.simps) simp
next
  case (Cons c cs)
  have c: "0 \<le> schar c" "schar c < 128" "seven_bit cs"
    using Cons.prems schar_range [of c] by (simp_all add: seven_bit_def)
  show ?case
  proof (cases "clean c")
    case True
    with Cons.IH [OF c(3), of "ps @ [c]" "ds @ [c]"] show ?thesis
      by (subst encode_loop.simps) (simp add: at_pieces is_clean_char_eq enc_byte_def ac_simps)
  next
    case False
    let ?h = "hex_chars ! nat (schar c div 16)" and ?g = "hex_chars ! nat (schar c mod 16)"
      and ?r = "replicate (length (enc_bytes cs)) NUL"
    have p: "peek hex_chars (tdiv (schar c) 16) = Some ?h" "peek hex_chars (tmod (schar c) 16) = Some ?g"
      using c by (simp_all add: hex_char_peek)
    have w: "set_at (view (ds @ NUL # NUL # NUL # ?r) []) (int (length ds)) CHR ''%''
        = Some (view ((ds @ [CHR ''%'']) @ NUL # NUL # ?r) [])"
      "set_at (view ((ds @ [CHR ''%'']) @ NUL # NUL # ?r) []) (int (length ds) + 1) ?h
        = Some (view ((ds @ [CHR ''%'', ?h]) @ NUL # ?r) [])"
      "set_at (view ((ds @ [CHR ''%'', ?h]) @ NUL # ?r) []) (int (length ds) + 2) ?g
        = Some (view ((ds @ [CHR ''%'', ?h, ?g]) @ ?r) [])"
      by (subst set_at_done; simp)+
    from Cons.IH [OF c(3), of "ps @ [c]" "ds @ [CHR ''%'', ?h, ?g]"] False w p show ?thesis
      by (subst encode_loop.simps) (simp add: at_pieces is_clean_char_eq enc_byte_def ac_simps)
  qed
qed

lemma uri_encode_eq [run_simps]:
  assumes "seven_bit xs"
  shows "uri_encode (view xs ys) = Some (view (enc_bytes xs) [])"
proof -
  have "blank (int (length (enc_bytes xs))) = view (replicate (length (enc_bytes xs)) NUL) []"
    using blank_view [of "int (length (enc_bytes xs))"] by simp
  then show ?thesis
    using encoded_len_eq [of "[]" xs ys 0] encode_loop_eq [OF assms, of "[]" ys "[]"]
    by (simp add: uri_encode_def)
qed

subsection \<open>Decoding\<close>

lemma at_tail:
  "at (view (ps @ c # cs) ys) (int (length ps) + 1) = Some (head_byte cs)"
  "at (view (ps @ c # cs) ys) (int (length ps) + 2) = Some (head_byte (drop 1 cs))"
  by (cases cs; cases "tl cs"; auto simp: at_view nth_append nat_add_distrib head_byte_def)+

lemma decode_loop_past:
  "l \<le> i \<Longrightarrow> decode_loop s i l r j = Some (r, j)"
  by (subst decode_loop.simps) simp

lemma decode_loop_eq:
  assumes "length cs \<le> k"
  shows "\<exists>k'. decode_loop (view (ps @ cs) ys) (int (length ps)) (int (length (ps @ cs)))
      (view (ds @ replicate k NUL) []) (int (length ds))
    = Some (view ((ds @ dec_bytes cs) @ replicate k' NUL) [], int (length (ds @ dec_bytes cs)))"
  using assms
proof (induction cs arbitrary: ps ds k rule: dec_bytes.induct)
  case 1
  then show ?case by (subst decode_loop.simps) auto
next
  case (2 c cs)
  obtain k' where k: "k = Suc k'" "length cs \<le> k'" using "2.prems" by (cases k) auto
  have w: "set_at (view (ds @ NUL # replicate k' NUL) []) (int (length ds)) d
      = Some (view ((ds @ [d]) @ replicate k' NUL) [])" for d
    by (rule set_at_done) simp
  have a: "at (view (ps @ c # cs) ys) (int (length ps)) = Some c" by (rule at_pieces)
  consider "c = CHR ''+''" | "c = CHR ''%''" | "c \<noteq> CHR ''+''" "c \<noteq> CHR ''%''" by blast
  then show ?case
  proof cases
    case 1
    with "2.IH"(1) [OF 1 k(2), of "ps @ [c]" "ds @ [CHR '' '']"] w a show ?thesis
      by (subst decode_loop.simps) (simp add: k ac_simps)
  next
    case 2
    let ?d = "from_hex (head_byte cs) (head_byte (drop 1 cs))"
    have p: "c \<noteq> CHR ''+''" using 2 by simp
    show ?thesis
    proof (cases "length cs < 2")
      case True
      then have "drop 2 cs = []" by simp
      then show ?thesis using 2 w a at_tail [of ps c cs ys] True
        by (subst decode_loop.simps) (auto simp: k decode_loop_past)
    next
      case False
      then obtain e f cs' where cs: "cs = e # f # cs'" by (cases cs; cases "tl cs") auto
      have "length (drop 2 cs) \<le> k'" using k(2) by simp
      from "2.IH"(2) [OF p 2 this, of "ps @ [c, e, f]" "ds @ [?d]"] w a at_tail [of ps c cs ys] 2
      show ?thesis by (subst decode_loop.simps) (simp add: k cs ac_simps)
    qed
  next
    case 3
    with "2.IH"(3) [OF 3 k(2), of "ps @ [c]" "ds @ [c]"] w a show ?thesis
      by (subst decode_loop.simps) (simp add: k ac_simps)
  qed
qed

lemma uri_decode_eq [run_simps]: "\<exists>zs. uri_decode (view xs ys) = Some (view (dec_bytes xs) zs)"
proof -
  have "blank (int (length xs)) = view (replicate (length xs) NUL) []"
    using blank_view [of "int (length xs)"] by simp
  with decode_loop_eq [of xs "length xs" "[]" ys "[]"] obtain k where
    "decode_loop (view xs ys) 0 (int (length xs)) (blank (int (length xs))) 0
      = Some (view (dec_bytes xs @ replicate k NUL) [], int (length (dec_bytes xs)))" by auto
  moreover have "Some \<lparr>slen = int (length ds), sdata = ds @ zs\<rparr> = view ds zs" for ds zs
    by (simp add: view_def)
  ultimately show ?thesis by (simp add: uri_decode_def)
qed

subsection \<open>What encoding guarantees\<close>

lemma hex_digit_chars:
  "0 \<le> n \<Longrightarrow> n < 16 \<Longrightarrow> hex_part (hex_chars ! nat n) = n"
proof -
  assume "0 \<le> n" "n < 16"
  then have "n \<in> set [0..15]" by simp
  moreover have "\<forall>k \<in> set [0..15]. hex_part (hex_chars ! nat k) = k"
    by (simp add: hex_part_def hex_chars_def byte_simps upto_rec1)
  ultimately show ?thesis by blast
qed

lemma from_hex_chars:
  "0 \<le> schar c \<Longrightarrow> from_hex (hex_chars ! nat (schar c div 16)) (hex_chars ! nat (schar c mod 16)) = c"
proof -
  assume "0 \<le> schar c"
  then have "hex_part (hex_chars ! nat (schar c div 16)) = schar c div 16"
    "hex_part (hex_chars ! nat (schar c mod 16)) = schar c mod 16"
    using schar_range [of c] by (intro hex_digit_chars; simp)+
  then show ?thesis by (simp add: from_hex_def)
qed

lemma clean_not_special: "clean c \<Longrightarrow> c \<noteq> CHR ''+'' \<and> c \<noteq> CHR ''%''"
  by (auto simp: clean_def is_digit_def mark_chars_def byte_simps)

lemma dec_enc_bytes: "seven_bit cs \<Longrightarrow> dec_bytes (enc_bytes cs) = cs"
  by (induction cs) (auto simp: seven_bit_def enc_byte_def clean_not_special head_byte_def from_hex_chars)

lemma clean_seven_bit: "clean c \<Longrightarrow> 0 \<le> schar c"
  by (auto simp: clean_def is_digit_def mark_chars_def byte_simps)

lemma high_byte_index:
  assumes "schar c < 0"
  shows "peek hex_chars (tdiv (schar c) 16) = None \<or> peek hex_chars (tmod (schar c) 16) = None"
proof (cases "\<bar>schar c\<bar> div 16 = 0")
  case True
  then have "tmod (schar c) 16 = schar c" by (simp add: tmod_def tdiv_def)
  with assms show ?thesis by (simp add: peek_def)
next
  case False
  moreover have "0 \<le> \<bar>schar c\<bar> div 16" by simp
  ultimately have "tdiv (schar c) 16 < 0" using assms unfolding tdiv_def by simp
  then show ?thesis by (simp add: peek_def)
qed

lemma encode_loop_high:
  assumes "\<not> seven_bit cs"
  shows "encode_loop (view (ps @ cs) ys) (int (length ps)) (int (length (ps @ cs))) r j = None"
  using assms
proof (induction cs arbitrary: ps r j)
  case (Cons c cs)
  show ?case
  proof (cases "schar c < 0")
    case True
    with clean_seven_bit [of c] have n: "\<not> clean c" by auto
    have "encode_loop (view (ps @ c # cs) ys) (int (length ps)) (int (length (ps @ c # cs))) r j \<noteq> Some q" for q
      using n high_byte_index [OF True]
      by (subst encode_loop.simps) (auto simp: at_pieces is_clean_char_eq bind_Some_iff)
    then show ?thesis by (cases "encode_loop (view (ps @ c # cs) ys) (int (length ps)) (int (length (ps @ c # cs))) r j") auto
  next
    case False
    then have "\<not> seven_bit cs" using Cons.prems by (simp add: seven_bit_def)
    from Cons.IH [OF this, of "ps @ [c]"] show ?thesis
      by (subst encode_loop.simps)
        (auto simp: at_pieces is_clean_char_eq ac_simps split: Option.bind_split)
  qed
qed (simp add: seven_bit_def)

text \<open>C25: Encoding a string of 7 bit bytes and decoding the result gives the string back, and the
  encoded form has no bytes but letters, digits, the nine marks and percent signs.\<close>

theorem uri_roundtrip:
  assumes "seven_bit xs"
  shows "\<exists>e d. uri_encode (view xs ys) = Some e \<and> uri_decode e = Some d \<and> chars_of d = xs
    \<and> (\<forall>c \<in> set (chars_of e). is_clean_char c = Some True \<or> c = CHR ''%'')"
proof -
  have "clean (hex_chars ! nat n)" if "0 \<le> n" "n < 16" for n
  proof -
    have "n \<in> set [0..15]" using that by simp
    moreover have "\<forall>k \<in> set [0..15]. clean (hex_chars ! nat k)"
      by (simp add: clean_def is_digit_def hex_chars_def byte_simps upto_rec1)
    ultimately show ?thesis by blast
  qed
  then have "\<forall>c \<in> set (enc_byte d). clean c \<or> c = CHR ''%''" if "0 \<le> schar d" for d
    using that schar_range [of d] by (simp add: enc_byte_def)
  then have "\<forall>c \<in> set (enc_bytes xs). clean c \<or> c = CHR ''%''"
    using assms by (fastforce simp: enc_bytes_def seven_bit_def)
  then show ?thesis
    using uri_encode_eq [OF assms, of ys] uri_decode_eq [of "enc_bytes xs" "[]"] dec_enc_bytes [OF assms]
    by (auto simp: is_clean_char_eq)
qed

theorem uri_roundtrip_witness:
  "\<exists>e d. uri_encode (lit ''a b&c'') = Some e \<and> uri_decode e = Some d \<and> chars_of d = ''a b&c''
    \<and> (\<forall>c \<in> set (chars_of e). is_clean_char c = Some True \<or> c = CHR ''%'')"
  by (rule uri_roundtrip) (simp add: seven_bit_def byte_simps)

text \<open>\<open>uri_encode\<close> returns exactly for strings without a byte above 127; any such byte makes it
  read outside its table of digits.\<close>

theorem uri_encode_faults:
  "uri_encode (view xs ys) = None \<longleftrightarrow> (\<exists>c \<in> set xs. schar c < 0)"
proof (cases "seven_bit xs")
  case True
  then show ?thesis by (force simp: uri_encode_eq seven_bit_def)
next
  case False
  with encode_loop_high [of xs "[]" ys] have "uri_encode (view xs ys) = None"
    by (cases "encoded_len (view xs ys) 0 (int (length xs)) 0") (simp_all add: uri_encode_def)
  with False show ?thesis by (force simp: seven_bit_def not_le)
qed

end
