(* ===== verification/Auth.thy ===== *)
theory Auth
  imports Uri
begin

section \<open>Digests and encodings (auth.c)\<close>

text \<open>
  \<open>hex\<close> prints the bytes of digests, random values and whatever a page asks for.  The digests
  themselves are OpenSSL's: the functions below take what it computes as an argument.
\<close>

text \<open>The two nibbles of a \<open>char\<close>, which is sign-extended before it is masked.\<close>

definition high_nibble :: "char \<Rightarrow> int" where
  "high_nibble c = drop_bit 4 (and 0xF0 (schar c))"

definition low_nibble :: "char \<Rightarrow> int" where
  "low_nibble c = and 0x0F (schar c)"

fun hex_loop :: "string \<Rightarrow> str \<Rightarrow> str option" where
  "hex_loop [] retval = Some retval"
| "hex_loop (c # cs) retval = do {
     retval \<leftarrow> (if retval \<noteq> None
       then fmt ''%s%h%h'' [AStr retval, AReg (of_int (high_nibble c)), AReg (of_int (low_nibble c))]
       else fmt ''%h%h'' [AReg (of_int (high_nibble c)), AReg (of_int (low_nibble c))]);
     hex_loop cs retval }"

definition hex :: "str \<Rightarrow> str option" where
  "hex data = (case data of None \<Rightarrow> None
     | Some v \<Rightarrow> do { xs \<leftarrow> fetch_bytes (sdata v) (slen v); hex_loop xs None })"

text \<open>The MD5 digest of \<open>l\<close> bytes, 16 bytes that the library writes over the buffer.\<close>

definition md5sum :: "(string \<Rightarrow> string) \<Rightarrow> string \<Rightarrow> int \<Rightarrow> str option" where
  "md5sum MD5 data l = do {
     x \<leftarrow> fetch_bytes data l;
     (if length (MD5 x) = 16 then Some (view (MD5 x) []) else None) }"

definition md5hex :: "(string \<Rightarrow> string) \<Rightarrow> string \<Rightarrow> int \<Rightarrow> str option" where
  "md5hex MD5 data l = do { s \<leftarrow> md5sum MD5 data l; hex s }"

text \<open>\<open>HMAC\<close> writes its digest over the buffer of 256 bytes and its length over the length.\<close>

definition hmac1 :: "(string \<Rightarrow> string \<Rightarrow> string) \<Rightarrow> str \<Rightarrow> str \<Rightarrow> str option" where
  "hmac1 HMAC secret data = (case (secret, data) of
     (Some k, Some d) \<Rightarrow> do {
       x \<leftarrow> fetch_bytes (sdata k) (slen k);
       y \<leftarrow> fetch_bytes (sdata d) (slen d);
       let m = HMAC x y;
       (if length m \<le> 256 then Some (view m (replicate (256 - length m) NUL)) else None) }
   | _ \<Rightarrow> None)"

text \<open>The encoder of OpenSSL ends its text with a line feed, which \<open>base64\<close> drops; it fails when
  the text cannot be flushed.  An empty text would be copied with a length of -1.\<close>

definition base64 :: "(string \<Rightarrow> string option) \<Rightarrow> str \<Rightarrow> str option" where
  "base64 BIO s = (case s of None \<Rightarrow> None
     | Some v \<Rightarrow> do {
         x \<leftarrow> fetch_bytes (sdata v) (slen v);
         (case BIO x of None \<Rightarrow> Some None
          | Some out \<Rightarrow> copy (Some out) (int (length out) - 1)) })"

subsection \<open>Reading it back\<close>

definition hex_pair :: "char \<Rightarrow> string" where
  "hex_pair c = [hex_digit (byte c div 16), hex_digit (byte c mod 16)]"

fun unhex :: "string \<Rightarrow> string" where
  "unhex (a # b # cs) = from_hex a b # unhex cs"
| "unhex cs = []"

lemma and_low: "and 0x0F x = x mod 16" for x :: int
  using take_bit_eq_mask [of 4 x] by (simp add: mask_eq_exp_minus_1 and.commute take_bit_eq_mod)

lemma schar_mods: "schar c mod 16 = byte c mod 16" "schar c div 16 mod 16 = byte c div 16"
proof -
  define k :: int where "k = (if byte c < 128 then 0 else - 1)"
  have k: "schar c = byte c + 256 * k" by (simp add: schar_def k_def)
  have e: "byte c + 256 * k = byte c + (16 * k) * 16" by simp
  show "schar c mod 16 = byte c mod 16" unfolding k e by (rule mod_mult_self1)
  have "schar c div 16 = 16 * k + byte c div 16" unfolding k e by (rule div_mult_self1) simp
  then have "schar c div 16 mod 16 = byte c div 16 mod 16" by simp
  also have "\<dots> = byte c div 16" using byte_range [of c] by (intro mod_pos_pos_trivial) auto
  finally show "schar c div 16 mod 16 = byte c div 16" .
qed

lemma nibbles: "high_nibble c = byte c div 16" "low_nibble c = byte c mod 16"
proof -
  show "low_nibble c = byte c mod 16" by (simp only: low_nibble_def and_low schar_mods)
  have "high_nibble c = and (drop_bit 4 0xF0) (drop_bit 4 (schar c))"
    by (simp only: high_nibble_def drop_bit_and)
  also have "\<dots> = and 0x0F (schar c div 16)" by (simp add: drop_bit_eq_div)
  finally show "high_nibble c = byte c div 16" by (simp only: and_low schar_mods)
qed

lemma hex_one:
  assumes "0 \<le> n" "n < 16"
  shows "chars_of (hex_str (of_int n)) = [hex_digit n]"
proof -
  have u: "uint (of_int n :: reg) = n" using assms by (simp add: uint_word_of_int)
  then have "unat (of_int n :: reg) = nat n" by (simp add: unat_eq_nat_uint)
  then have "printed_digits 16 (unat (of_int n :: reg)) = 1" using assms by (simp add: printed_digits_def ndigits.simps)
  then show ?thesis using assms by (simp add: hex_str_eq u)
qed

lemma hex_two:
  "chars_of (hex_str (of_int (high_nibble c))) @ chars_of (hex_str (of_int (low_nibble c))) = hex_pair c"
  using byte_range [of c] by (simp add: nibbles hex_one hex_pair_def)

lemma hex_loop_eq: "hex_loop cs (lit ds) = Some (lit (ds @ concat (map hex_pair cs)))"
  using hex_two by (induction cs arbitrary: ds) (simp_all add: fmt_def new_str_def)

lemma hex_part_digit: "0 \<le> n \<Longrightarrow> n < 16 \<Longrightarrow> hex_part (hex_digit n) = n"
proof -
  assume n: "0 \<le> n" "n < 16"
  have "\<forall>n \<in> {0..15}. hex_part (hex_digit n) = n"
    by (simp add: hex_part_def hex_digit_def byte_simps simp_from_to)
  with n show ?thesis by auto
qed

lemma unhex_pair: "unhex (hex_pair c @ ds) = c # unhex ds"
  using byte_range [of c] by (simp add: hex_pair_def from_hex_def hex_part_digit)

text \<open>Every byte is printed as two hexadecimal digits, from which \<open>from_hex\<close> reads it back.\<close>

theorem hex_roundtrip:
  "\<exists>ds. hex (view (c # cs) ys) = Some (lit ds) \<and> length ds = 2 * Suc (length cs) \<and> unhex ds = c # cs"
proof -
  have "hex (view (c # cs) ys) = hex_loop (c # cs) None"
    by (simp only: hex_def case_view str_struct.simps fetch_view bind.bind_lunit)
  then have "hex (view (c # cs) ys) = Some (lit (concat (map hex_pair (c # cs))))"
    using hex_two [of c] hex_loop_eq [of cs "hex_pair c"] by (simp add: fmt_def new_str_def)
  moreover have "unhex (concat (map hex_pair bs)) = bs" for bs by (induction bs) (simp_all add: unhex_pair)
  moreover have "length (concat (map hex_pair bs)) = 2 * length bs" for bs by (induction bs) (simp_all add: hex_pair_def)
  ultimately show ?thesis
    by (intro exI [of _ "concat (map hex_pair (c # cs))"]) (simp add: unhex_pair, simp add: hex_pair_def)
qed

end
