(* ===== verification/Uri_Form.thy ===== *)
theory Uri_Form
  imports Uri
begin

section \<open>Form variables are split at the right bytes (uri.c: parse_uri_encoded)\<close>

text \<open>
  The correctness of \<open>parse_uri_encoded\<close> on \<open>name=value\<close> pairs joined by ampersands, and its
  behaviour when they are more than the table has slots for.
\<close>

fun form_bytes :: "(string \<times> string) list \<Rightarrow> string" where
  "form_bytes [] = []"
| "form_bytes [(k, v)] = k @ ''='' @ v"
| "form_bytes ((k, v) # kvs) = k @ ''='' @ v @ ''&'' @ form_bytes kvs"

definition wf_form :: "(string \<times> string) list \<Rightarrow> bool" where
  "wf_form kvs \<longleftrightarrow> (\<forall>(k, v) \<in> set kvs. CHR ''='' \<notin> set k \<and> CHR ''&'' \<notin> set v)"

lemma form_bytes_Cons:
  "form_bytes ((k, v) # kvs) = k @ CHR ''='' # v @ (if kvs = [] then [] else CHR ''&'' # form_bytes kvs)"
  by (cases kvs) auto

lemma find_one:
  assumes "xs = ps @ as @ bs" "c \<notin> set as" "bs = [] \<or> hd bs = c"
  shows "find_str (view xs ys) (int (length ps)) (c # es) 1 = Some (int (length (ps @ as)))"
proof -
  have "takeWhile (\<lambda>b. b \<notin> {c}) (as @ bs) = as"
    using assms by (cases bs) (auto simp: takeWhile_append)
  with find_str_eq [of "[c]" "int (length ps)" xs ys es] show ?thesis
    by (simp add: assms(1))
qed

text \<open>One pair: the table grows by it, and the scan goes on behind the ampersand.\<close>

lemma uri_pair:
  assumes "CHR ''='' \<notin> set k" "CHR ''&'' \<notin> set v" "rest = [] \<or> (\<exists>r. rest = CHR ''&'' # r)"
    and xs: "xs = ps @ k @ CHR ''='' # v @ rest"
  shows "uri_fields_loop (view xs ys) (int (length xs)) (int (length ps)) t =
    do { t' \<leftarrow> append_header t (view k (CHR ''='' # v @ rest @ ys)) (view v (rest @ ys));
         uri_fields_loop (view xs ys) (int (length xs)) (int (length (ps @ k @ CHR ''='' # v)) + 1) t' }"
proof -
  have e: "find_str (view xs ys) (int (length ps)) (''='' @ [NUL]) 1 = Some (int (length (ps @ k)))"
    using find_one [of xs ps k "CHR ''='' # v @ rest" "CHR ''=''" ys "[NUL]"] assms(1) by (simp add: xs)
  have a: "find_str (view xs ys) (int (length (ps @ k)) + 1) (''&'' @ CRLF @ [NUL]) 1
      = Some (int (length (ps @ k @ CHR ''='' # v)))"
    using find_one [of xs "ps @ k @ [CHR ''='']" v rest "CHR ''&''" ys "CRLF @ [NUL]"] assms(2,3)
    by (auto simp: xs ac_simps)
  have r: "ref_at (view xs ys) (int (length ps)) (int (length k)) = Some (view k (CHR ''='' # v @ rest @ ys))"
    unfolding xs ref_at_pieces using ref_append [of k "CHR ''='' # v @ rest @ ys"] by simp
  have q: "ref_at (view xs ys) (int (length (ps @ k)) + 1) (int (length v)) = Some (view v (rest @ ys))"
    using ref_at_pieces [of "ps @ k @ [CHR ''='']" "v @ rest" ys "int (length v)"] ref_append [of v "rest @ ys"]
    by (simp add: xs ac_simps)
  show ?thesis
    using e a r q by (subst uri_fields_loop.simps) (simp add: xs ac_simps)
qed

lemma uri_fields_room:
  assumes "wf_form kvs" "wf_headers h" "nslots h + int (length kvs) \<le> MAX_HEADERS" "xs = ps @ form_bytes kvs"
  shows "\<exists>h'. uri_fields_loop (view xs ys) (int (length xs)) (int (length ps)) (Some h) = Some (Some h')
    \<and> wf_headers h' \<and> nslots h' = nslots h + int (length kvs) \<and> entries h' = entries h @ kvs"
  using assms
proof (induction kvs arbitrary: h ps)
  case Nil
  then show ?case by (subst uri_fields_loop.simps) auto
next
  case (Cons kv kvs)
  obtain k v where kv: "kv = (k, v)" by (cases kv)
  let ?rest = "if kvs = [] then [] else CHR ''&'' # form_bytes kvs"
  have kv_ok: "CHR ''='' \<notin> set k" "CHR ''&'' \<notin> set v" "wf_form kvs"
    using Cons.prems(1) by (auto simp: wf_form_def kv)
  have xs: "xs = ps @ k @ CHR ''='' # v @ ?rest"
    using Cons.prems(4) by (simp add: kv form_bytes_Cons)
  have room: "nslots h < MAX_HEADERS" using Cons.prems(3) by simp
  let ?k = "view k (CHR ''='' # v @ ?rest @ ys)" and ?v = "view v (?rest @ ys)"
  define h1 where "h1 = put_slot (h\<lparr>nslots := nslots h + 1\<rparr>) (nslots h) ?k ?v"
  have h1: "append_header (Some h) ?k ?v = Some (Some h1)"
    using append_header_room [OF Cons.prems(2) room] by (simp add: h1_def)
  have w: "wf_headers h1" "entries h1 = entries h @ [(k, v)]" "nslots h1 + int (length kvs) \<le> MAX_HEADERS"
      "nslots h1 = nslots h + 1"
    unfolding h1_def using add_slot_wf [OF Cons.prems(2) room, of ?k ?v] Cons.prems(3)
    by (simp_all add: wf_slot_def put_slot_def)
  have step: "uri_fields_loop (view xs ys) (int (length xs)) (int (length ps)) (Some h) =
      uri_fields_loop (view xs ys) (int (length xs)) (int (length (ps @ k @ CHR ''='' # v)) + 1) (Some h1)"
    using uri_pair [OF kv_ok(1,2) _ xs, of ys "Some h"] h1 by simp
  show ?case
  proof (cases "kvs = []")
    case True
    then have "uri_fields_loop (view xs ys) (int (length xs)) (int (length (ps @ k @ CHR ''='' # v)) + 1) (Some h1)
        = Some (Some h1)"
      using xs by (subst uri_fields_loop.simps) simp
    with step w True kv show ?thesis by simp
  next
    case False
    then have "xs = (ps @ k @ CHR ''='' # v @ [CHR ''&'']) @ form_bytes kvs" using xs by simp
    from Cons.IH [OF kv_ok(3) w(1,3) this] step w(2,4) kv show ?thesis by (simp add: ac_simps)
  qed
qed

lemma uri_fields_full:
  assumes "wf_form kvs" "wf_headers h" "MAX_HEADERS < nslots h + int (length kvs)" "xs = ps @ form_bytes kvs"
  shows "uri_fields_loop (view xs ys) (int (length xs)) (int (length ps)) (Some h) = None"
  using assms
proof (induction kvs arbitrary: h ps)
  case Nil
  then show ?case by (simp add: wf_headers_def)
next
  case (Cons kv kvs)
  obtain k v where kv: "kv = (k, v)" by (cases kv)
  let ?rest = "if kvs = [] then [] else CHR ''&'' # form_bytes kvs"
  have kv_ok: "CHR ''='' \<notin> set k" "CHR ''&'' \<notin> set v" "wf_form kvs"
    using Cons.prems(1) by (auto simp: wf_form_def kv)
  have xs: "xs = ps @ k @ CHR ''='' # v @ ?rest"
    using Cons.prems(4) by (simp add: kv form_bytes_Cons)
  let ?k = "view k (CHR ''='' # v @ ?rest @ ys)" and ?v = "view v (?rest @ ys)"
  show ?case
  proof (cases "nslots h < MAX_HEADERS")
    case False
    then show ?thesis
      using uri_pair [OF kv_ok(1,2) _ xs, of ys "Some h"] append_header_full [of h ?k ?v] by simp
  next
    case True
    define h1 where "h1 = put_slot (h\<lparr>nslots := nslots h + 1\<rparr>) (nslots h) ?k ?v"
    have w: "wf_headers h1" "MAX_HEADERS < nslots h1 + int (length kvs)"
      unfolding h1_def using add_slot_wf(1) [OF Cons.prems(2) True, of ?k ?v] Cons.prems(3)
      by (simp_all add: wf_slot_def put_slot_def)
    then have ne: "kvs \<noteq> []" by (auto simp: wf_headers_def)
    then have "xs = (ps @ k @ CHR ''='' # v @ [CHR ''&'']) @ form_bytes kvs" using xs by simp
    from Cons.IH [OF kv_ok(3) w this] show ?thesis
      using uri_pair [OF kv_ok(1,2) _ xs, of ys "Some h"] append_header_room [OF Cons.prems(2) True, of ?k ?v]
      by (simp add: h1_def ne ac_simps)
  qed
qed

text \<open>The blanks before the first pair are skipped.\<close>

lemma parse_uri_start:
  assumes "\<forall>c \<in> set sp. isspace c" "form = [] \<or> \<not> isspace (hd form)"
  shows "parse_uri_encoded head (view (ps @ sp @ form) ys) (int (length ps)) =
    uri_fields_loop (view (ps @ sp @ form) ys) (int (length (ps @ sp @ form))) (int (length (ps @ sp)))
      (if head \<noteq> None then head else new_headers)"
proof -
  have "takeWhile isspace (sp @ form) = sp"
    using assms by (cases form) (auto simp: takeWhile_append)
  then have "scan_while isspace (at (view (ps @ sp @ form) ys)) (int (length ps)) = Some (int (length (ps @ sp)))"
    using str_at.scan_while_eq [of "view (ps @ sp @ form) ys" "int (length ps)" isspace] by simp
  then show ?thesis by (simp add: parse_uri_encoded_def Let_def)
qed

text \<open>The form variables of a request: a table of exactly these pairs, or none when there are none.\<close>

definition holds_vars :: "headers \<Rightarrow> (string \<times> string) list \<Rightarrow> bool" where
  "holds_vars t kvs \<longleftrightarrow> (case t of None \<Rightarrow> kvs = []
     | Some h \<Rightarrow> wf_headers h \<and> nslots h = int (length kvs) \<and> entries h = kvs)"

lemma form_bytes_Nil [simp]: "form_bytes kvs = [] \<longleftrightarrow> kvs = []"
  by (cases kvs) (auto simp: form_bytes_Cons)

lemma parse_form_onto:
  assumes "holds_vars t vs" "wf_form kvs" "length vs + length kvs \<le> 250" "\<forall>c \<in> set sp. isspace c"
    "kvs = [] \<or> \<not> isspace (hd (form_bytes kvs))"
  shows "\<exists>h. parse_uri_encoded t (view (ps @ sp @ form_bytes kvs) ys) (int (length ps)) = Some (Some h)
    \<and> holds_vars (Some h) (vs @ kvs)"
proof -
  obtain h0 where h0: "(if t \<noteq> None then t else new_headers) = Some h0" "wf_headers h0" "entries h0 = vs"
    "nslots h0 = int (length vs)"
    using new_headers_wf assms(1)
    by (cases t) (auto simp: new_headers_def entries_def live_slots_def holds_vars_def)
  have "nslots h0 + int (length kvs) \<le> MAX_HEADERS" using h0 assms(3) by (simp add: MAX_HEADERS_def)
  from uri_fields_room [OF assms(2) h0(2) this, of _ "ps @ sp" ys] show ?thesis
    using parse_uri_start [OF assms(4), of "form_bytes kvs" t ps ys] assms(5) h0 by (auto simp: holds_vars_def)
qed

lemma parse_form_eq:
  assumes "wf_form kvs" "kvs \<noteq> []" "length kvs \<le> 250" "\<forall>c \<in> set sp. isspace c"
    "\<not> isspace (hd (form_bytes kvs))"
  shows "\<exists>h. parse_uri_encoded None (view (ps @ sp @ form_bytes kvs) ys) (int (length ps)) = Some (Some h)
    \<and> wf_headers h \<and> entries h = kvs"
  using parse_form_onto [of None "[]" kvs sp ps ys] assms by (auto simp: holds_vars_def)

text \<open>C26: The pairs of a form body are added to the table in their order, undecoded, whatever
  stands before the body; a table that is not given is a new one.\<close>

theorem form_fields:
  assumes "wf_form kvs" "kvs \<noteq> []" "length kvs \<le> 250" "\<forall>c \<in> set sp. isspace c"
    "\<not> isspace (hd (form_bytes kvs))"
  shows "\<exists>h. parse_uri_encoded None (view (ps @ sp @ form_bytes kvs) ys) (int (length ps)) = Some (Some h)
    \<and> wf_headers h \<and> entries h = kvs"
  using assms by (rule parse_form_eq)

theorem form_fields_witness:
  "\<exists>h. parse_uri_encoded None (view (''?'' @ [] @ form_bytes [(''a'', ''1''), (''b'', ''2%20'')]) []) 1 = Some (Some h)
    \<and> wf_headers h \<and> entries h = [(''a'', ''1''), (''b'', ''2%20'')]"
  using form_fields [of "[(''a'', ''1''), (''b'', ''2%20'')]" "[]" "''?''" "[]"]
  by (simp add: wf_form_def isspace_def)

text \<open>A form body of more pairs than the table has free slots is never parsed to its end: the
  process stays in the loop of \<open>free_header_slot\<close>.\<close>

theorem form_overflow_hangs:
  assumes "wf_form kvs" "wf_headers h" "250 < nslots h + int (length kvs)" "\<forall>c \<in> set sp. isspace c"
    "\<not> isspace (hd (form_bytes kvs))"
  shows "parse_uri_encoded (Some h) (view (ps @ sp @ form_bytes kvs) ys) (int (length ps)) = None"
  using uri_fields_full [OF assms(1,2), of _ "ps @ sp" ys] assms(3,5)
    parse_uri_start [OF assms(4), of "form_bytes kvs" "Some h" ps ys]
  by (simp add: MAX_HEADERS_def)

theorem form_overflow_hangs_witness:
  "parse_uri_encoded new_headers (view (form_bytes (replicate 251 (''a'', ''1''))) []) 0 = None"
proof -
  obtain h0 where h0: "new_headers = Some h0" "wf_headers h0" "nslots h0 = 0"
    using new_headers_wf by (simp add: new_headers_def)
  have "replicate 251 (''a'', ''1'') = (''a'', ''1'') # replicate 250 (''a'', ''1'')"
    by (simp add: numeral_eq_Suc)
  then have "\<not> isspace (hd (form_bytes (replicate 251 (''a'', ''1''))))"
    by (simp only: form_bytes_Cons) (simp add: isspace_def)
  then show ?thesis
    using form_overflow_hangs [of "replicate 251 (''a'', ''1'')" h0 "[]" "[]" "[]"] h0
    by (simp add: wf_form_def)
qed

end
