(* ===== verification/Mime.thy ===== *)
theory Mime
  imports Str_Format
begin

section \<open>Mime types (mime.c)\<close>

text \<open>
  The table that maps the ending of a file name to a content type and a handler.  The first
  entry whose ending is the part behind the last dot is taken; the last entry of the table,
  which has no ending, catches the rest.
\<close>

datatype handler = Script_Handler | Img_Handler | Lws_Handler

record mime =
  ending :: string
  mtype :: string
  mhandler :: handler

definition mime_types :: "mime list" where
  "mime_types = map (\<lambda>(e, t, h). \<lparr>ending = e, mtype = t, mhandler = h\<rparr>)
    [(''html'', ''text/html'', Script_Handler),
     (''shtml'', ''text/html'', Img_Handler),
     (''lws'', ''text/html'', Lws_Handler),
     (''lws'', ''text/html'', Lws_Handler),
     (''xml'', ''text/xml'', Lws_Handler),
     (''txt'', ''text/plain'', Script_Handler),
     (''svg'', ''image/svg+xml'', Lws_Handler),
     (''css'', ''text/css'', Script_Handler),
     (''js'', ''application/x-javascript'', Script_Handler),
     (''ico'', ''image/x-icon'', Img_Handler),
     (''jpg'', ''image/jpeg'', Img_Handler),
     (''png'', ''image/png'', Img_Handler),
     (''gif'', ''image/gif'', Img_Handler),
     (''mpg'', ''video/mpeg'', Img_Handler),
     (''mp4'', ''video/mp4'', Img_Handler),
     (''mp3'', ''audio/mp3'', Img_Handler),
     (''mov'', ''video/quicktime'', Img_Handler),
     (''pdf'', ''application/pdf'', Img_Handler),
     (''zip'', ''application/zip'', Img_Handler),
     (''ps'', ''application/postscript'', Img_Handler),
     (''eps'', ''application/postscript'', Img_Handler),
     (''swf'', ''application/x-shockwave-flash'', Img_Handler),
     (''ttf'', ''application/octet-stream'', Img_Handler),
     (''otf'', ''application/octet-stream'', Img_Handler)]"

definition default_mime :: mime where
  "default_mime = \<lparr>ending = [], mtype = ''application/octet-stream'', mhandler = Img_Handler\<rparr>"

text \<open>\<open>strncmp\<close> against a pattern without NUL bytes, as far as the sources use it: are the bytes
  at \<open>p\<close> those of the pattern?\<close>

fun strn_eq :: "string \<Rightarrow> int \<Rightarrow> string \<Rightarrow> bool option" where
  "strn_eq d p [] = Some True"
| "strn_eq d p (c # cs) = do { x \<leftarrow> peek d p; if x = c then strn_eq d (p + 1) cs else Some False }"

text \<open>The search for the dot, from the end of the name to its second byte.\<close>

function ending_start :: "string \<Rightarrow> int \<Rightarrow> int option" where
  "ending_start filename i =
     (if i > 0
      then do { c \<leftarrow> peek filename (i - 1);
                if c = CHR ''.'' then Some i else ending_start filename (i - 1) }
      else Some i)"
  by pat_completeness auto
termination
  by (relation "measure (\<lambda>(filename, i). nat i)") auto

declare ending_start.simps [simp del]

definition mime_test :: "string \<times> int \<Rightarrow> mime \<Rightarrow> bool option" where
  "mime_test q m = (case q of (p, l) \<Rightarrow>
     if l = int (length (ending m)) then strn_eq p 0 (ending m) else Some False)"

fun find_mime :: "string \<times> int \<Rightarrow> mime list \<Rightarrow> mime option option" where
  "find_mime q [] = Some None"
| "find_mime q (m # ms) = do { b \<leftarrow> mime_test q m; if b then Some (Some m) else find_mime q ms }"

definition lookup_mimetype :: "string \<Rightarrow> mime option" where
  "lookup_mimetype filename = do {
     name \<leftarrow> cstr filename;
     _ \<leftarrow> debug_log ''Local: %c'' [AChars filename];
     i \<leftarrow> ending_start filename (int (length name) - 1);
     p \<leftarrow> ptr_add filename i;
     r \<leftarrow> find_mime (p, int (length name) - i) mime_types;
     let mt = (case r of None \<Rightarrow> default_mime | Some m \<Rightarrow> m);
     _ \<leftarrow> debug_log ''Mime: %c (%c)'' [AChars (mtype mt @ [NUL]), AChars p];
     Some mt }"

subsection \<open>Which entry is found\<close>

lemma strn_eq_here:
  "strn_eq (ps @ qs) (int (length ps)) cs = (if length cs \<le> length qs then Some (take (length cs) qs = cs)
     else strn_eq (ps @ qs) (int (length ps)) cs)"
proof (induction cs arbitrary: ps qs)
  case (Cons c cs)
  show ?case
  proof (cases qs)
    case (Cons q qs')
    from Cons.IH [of "ps @ [q]" qs'] show ?thesis
      by (auto simp: Cons ac_simps)
  qed simp
qed simp

lemma strn_eq_take:
  "length cs \<le> length qs \<Longrightarrow> strn_eq (ps @ qs) (int (length ps)) cs = Some (take (length cs) qs = cs)"
  using strn_eq_here [of ps qs cs] by simp

interpretation mime_search: checked_search find_mime mime_test
  by unfold_locales simp_all

lemma mime_test_eq:
  "mime_test (ext @ NUL # ys, int (length ext)) m = Some (ending m = ext)"
proof (cases "length (ending m) = length ext")
  case True
  then show ?thesis
    using strn_eq_take [of "ending m" "ext @ NUL # ys" "[]"] by (auto simp: mime_test_def)
qed (auto simp: mime_test_def)

lemma find_mime_eq:
  "find_mime (ext @ NUL # ys, int (length ext)) ms = Some (List.find (\<lambda>m. ending m = ext) ms)"
  using mime_test_eq by (intro mime_search.look_find) auto

lemma ending_start_dot:
  "CHR ''.'' \<notin> set cs \<Longrightarrow>
     ending_start (ps @ CHR ''.'' # cs @ ys) (int (length (ps @ [CHR ''.''])) + int (length cs))
       = Some (int (length (ps @ [CHR ''.''])))"
proof (induction cs arbitrary: ys rule: rev_induct)
  case Nil
  have "peek (ps @ CHR ''.'' # ys) (int (length ps)) = Some CHR ''.''" by (simp add: peek_def)
  then show ?case by (subst ending_start.simps) simp
next
  case (snoc c cs)
  have "peek (ps @ CHR ''.'' # cs @ c # ys) (int (length ps) + 1 + int (length cs)) = Some c"
    by (simp add: peek_def nth_append nat_add_distrib)
  moreover have "c \<noteq> CHR ''.''" using snoc.prems by auto
  ultimately show ?case using snoc.IH [of "c # ys"] snoc.prems
    by (subst ending_start.simps) (simp add: ac_simps)
qed

lemma mime_types_printable: "\<forall>m \<in> set mime_types. NUL \<notin> set (mtype m)" "NUL \<notin> set (mtype default_mime)"
  by (simp_all add: mime_types_def default_mime_def)

text \<open>C37: The type of a file is the first table entry for the part of its name behind the last dot,
  and \<open>application/octet-stream\<close> where the table has no entry; names with upper case endings
  get the latter.\<close>

theorem lookup_mimetype_ending:
  assumes "ext \<noteq> []" "CHR ''.'' \<notin> set ext" "NUL \<notin> set (base @ ext)"
  shows "lookup_mimetype (base @ ''.'' @ ext @ [NUL]) =
    Some (case List.find (\<lambda>m. ending m = ext) mime_types of None \<Rightarrow> default_mime | Some m \<Rightarrow> m)"
proof -
  define name where "name = base @ CHR ''.'' # ext"
  define m where "m = (case List.find (\<lambda>m. ending m = ext) mime_types of None \<Rightarrow> default_mime | Some m \<Rightarrow> m)"
  obtain es e where ext: "ext = es @ [e]" using assms(1) by (metis rev_exhaust)
  have n: "NUL \<notin> set name" using assms(3) by (simp add: name_def)
  then have c: "cstr (name @ [NUL]) = Some name" by simp
  have "ending_start (name @ [NUL]) (int (length name) - 1) = Some (int (length (base @ [CHR ''.''])))"
    using ending_start_dot [of es base "[e, NUL]"] assms(2) by (simp add: name_def ext ac_simps)
  moreover have "ptr_add (name @ [NUL]) (int (length (base @ [CHR ''.'']))) = Some (ext @ [NUL])"
    by (simp add: name_def nat_add_distrib)
  moreover have "int (length name) - int (length (base @ [CHR ''.''])) = int (length ext)"
    by (simp add: name_def)
  moreover have "debug_log ''Local: %c'' [AChars (name @ [NUL])] = Some ()"
    using n by (simp add: debug_log_def new_str_def)
  moreover have "debug_log ''Mime: %c (%c)'' [AChars (mtype m @ [NUL]), AChars (ext @ [NUL])] = Some ()"
  proof -
    have "NUL \<notin> set (mtype m)"
      using mime_types_printable by (auto simp: m_def find_Some_iff split: option.splits)
    then show ?thesis using assms(3) by (simp add: debug_log_def new_str_def)
  qed
  ultimately have "lookup_mimetype (name @ [NUL]) = Some m"
    using c find_mime_eq [of ext "[]"] by (simp add: lookup_mimetype_def Let_def flip: m_def)
  then show ?thesis by (simp add: name_def m_def)
qed

theorem lookup_mimetype_ending_witness:
  "map_option mhandler (lookup_mimetype (''/site/index'' @ ''.'' @ ''lws'' @ [NUL])) = Some Lws_Handler
    \<and> map_option mhandler (lookup_mimetype (''/site/index'' @ ''.'' @ ''LWS'' @ [NUL])) = Some Img_Handler"
  using lookup_mimetype_ending [of "''lws''" "''/site/index''"] lookup_mimetype_ending [of "''LWS''" "''/site/index''"]
  by (simp add: mime_types_def default_mime_def)

end
