(* ===== verification/Files.thy ===== *)
theory Files
  imports Mime
begin

section \<open>The file cache and the template scanner (files.c, files.h)\<close>

text \<open>
  At start-up every file below the working directory is mapped and put into an array; a request
  is answered from that array only.  A file whose handler is the Lua handler is cut into
  segments of text and script.  The bytes of a mapping are those of the file followed by the
  zeros that fill its last page; a read behind them is a fault.  What the system answers to
  \<open>open\<close>, \<open>fstat\<close> and \<open>mmap\<close> is an argument: \<open>None\<close> is a failed mapping, whose pointer is not
  NULL, so that the code goes on with it.
\<close>

datatype kind = END | TEXT | SCRIPT | EMIT

record parsed =
  pkind :: kind
  poffset :: int
  plength :: int

record file_cache =
  ffd :: int
  fname :: string
  fsize :: int
  fdata :: string
  fparsed :: "parsed list option"
  fmime :: "mime option"

type_synonym File = "file_cache option"

text \<open>An answer of the system: the descriptor, whether \<open>fstat\<close> failed, the size, the mapping.\<close>

record opened =
  ofd :: int
  ostat_failed :: bool
  osize :: int
  omap :: "string option"

definition MAX_FILES :: int where
  "MAX_FILES = 1024"

definition sizeof_parsed :: nat where
  "sizeof_parsed = 12"

definition page_size :: nat where
  "page_size = 4096"

subsection \<open>Segments\<close>

text \<open>The array of segments fills one page of the region; it is cleared first, so that an entry
  of kind 0 ends it.\<close>

definition new_parsed :: "parsed list" where
  "new_parsed = replicate (page_size div sizeof_parsed) \<lparr>pkind = END, poffset = 0, plength = 0\<rparr>"

definition mark_file :: "parsed list \<Rightarrow> int \<Rightarrow> kind \<Rightarrow> int \<Rightarrow> int \<Rightarrow> (int \<times> parsed list) option" where
  "mark_file ps i t off l =
     (if 0 \<le> i \<and> i < int (length ps)
      then Some (i + 1, ps[nat i := \<lparr>pkind = t, poffset = off, plength = l\<rparr>])
      else None)"

text \<open>
  The search for the end of a script segment.  The positions are \<open>int\<close>s and the size of the file is
  an \<open>off_t\<close>: every sum is checked, and \<open>seek_end_int\<close>, \<open>parse_file_step_int\<close> and
  \<open>parse_file_loop_int\<close> say that no check fails in a file that ends below \<open>2 ^ 31 - 4\<close>.
\<close>

function seek_end :: "string \<Rightarrow> int \<Rightarrow> int \<Rightarrow> int \<Rightarrow> int \<Rightarrow> int option" where
  "seek_end script sz off e l = do {
     p \<leftarrow> ckint (off + l + 3 + e);
     (if p < sz
      then do { b \<leftarrow> strn_eq script p (if e \<noteq> 0 then ''=?>'' else ''?>'');
                if b then Some l else seek_end script sz off e (l + 1) }
      else Some l) }"
  by pat_completeness auto
termination
  by (relation "measure (\<lambda>(script, sz, off, e, l). nat (sz - (off + l + 3 + e)))") (auto dest!: ckint_SomeD)

declare seek_end.simps [simp del]

lemma seek_end_int:
  assumes "- (2 ^ 31) \<le> off + l + 3 + e" "off + l + 3 + e < 2 ^ 31"
  shows "seek_end script sz off e l =
     (if off + l + 3 + e < sz
      then do { b \<leftarrow> strn_eq script (off + l + 3 + e) (if e \<noteq> 0 then ''=?>'' else ''?>'');
                if b then Some l else seek_end script sz off e (l + 1) }
      else Some l)"
  by (subst seek_end.simps) (simp only: ckint_id [OF assms] bind.bind_lunit)

lemma seek_end_ge:
  "seek_end script sz off e l = Some m \<Longrightarrow> l \<le> m \<and> - (2 ^ 31) \<le> off + m + 3 + e \<and> off + m + 3 + e < 2 ^ 31"
proof (induction script sz off e l rule: seek_end.induct)
  case (1 script sz off e l)
  let ?pat = "if e \<noteq> 0 then ''=?>'' else ''?>''"
  obtain p where p: "ckint (off + l + 3 + e) = Some p"
    using "1.prems" by (subst (asm) seek_end.simps) (auto simp only: bind_Some_iff)
  note q = ckint_SomeD [OF p]
  show ?case
  proof (cases "p < sz")
    case True
    with "1.prems" p obtain b where b: "strn_eq script p ?pat = Some b"
      "(if b then Some l else seek_end script sz off e (l + 1)) = Some m"
      by (subst (asm) seek_end.simps) (simp only: if_True bind_Some_iff bind.bind_lunit, blast)
    from "1.IH" [OF p True b(1)] b(2) q show ?thesis by (cases b) auto
  next
    case False
    with "1.prems" p q show ?thesis by (subst (asm) seek_end.simps) simp
  qed
qed

text \<open>The body of the loop: the position before \<^verbatim>\<open>++o\<close>, the start of the text, the number of
  segments and the segments.\<close>

definition parse_file_step :: "string \<Rightarrow> int \<Rightarrow> int \<Rightarrow> int \<Rightarrow> int \<Rightarrow> parsed list
    \<Rightarrow> (int \<times> int \<times> int \<times> parsed list) option" where
  "parse_file_step script sz off l i ps = do {
     m \<leftarrow> strn_eq script off ''<?'';
     sp \<leftarrow> (if m then do { p2 \<leftarrow> ckint (off + 2); map_option isspace (peek script p2) } else Some False);
     (if sp then do {
        (i1, ps1) \<leftarrow> (if l < off then mark_file ps i TEXT l (off - l) else Some (i, ps));
        c2 \<leftarrow> peek script (off + 2);
        let e = (if c2 = CHR ''='' then 1 else 0);
        l1 \<leftarrow> seek_end script sz off e 0;
        (if off + l1 + 3 + e < sz then do {
           (i2, ps2) \<leftarrow> mark_file ps1 i1 (if e = 1 then EMIT else SCRIPT) (off + 3 + e) l1;
           let o2 = off + (l1 + 3 + e);
           l2 \<leftarrow> ckint (o2 + 2 + e);
           Some (o2, l2, i2, ps2) }
         else Some (off, l1, i1, ps1)) }
      else Some (off, l, i, ps)) }"

lemma parse_file_step_ge: "parse_file_step script sz off l i ps = Some (o2, r) \<Longrightarrow> off \<le> o2"
  by (auto simp: parse_file_step_def bind_Some_iff Let_def split: if_splits dest!: seek_end_ge)

lemma parse_file_step_lt:
  "parse_file_step script sz off l i ps = Some (o2, r) \<Longrightarrow> off < sz \<Longrightarrow> o2 < sz"
  unfolding parse_file_step_def
  by (auto simp: bind_Some_iff Let_def simp del: strn_eq.simps split: if_splits)

lemma parse_file_step_int:
  assumes "0 \<le> off" "off < sz" "sz + 4 < 2 ^ 31"
  shows "parse_file_step script sz off l i ps = do {
     m \<leftarrow> strn_eq script off ''<?'';
     sp \<leftarrow> (if m then map_option isspace (peek script (off + 2)) else Some False);
     (if sp then do {
        (i1, ps1) \<leftarrow> (if l < off then mark_file ps i TEXT l (off - l) else Some (i, ps));
        c2 \<leftarrow> peek script (off + 2);
        let e = (if c2 = CHR ''='' then 1 else 0);
        l1 \<leftarrow> seek_end script sz off e 0;
        (if off + l1 + 3 + e < sz then do {
           (i2, ps2) \<leftarrow> mark_file ps1 i1 (if e = 1 then EMIT else SCRIPT) (off + 3 + e) l1;
           let o2 = off + (l1 + 3 + e);
           Some (o2, o2 + 2 + e, i2, ps2) }
         else Some (off, l1, i1, ps1)) }
      else Some (off, l, i, ps)) }"
proof -
  have p: "ckint (off + 2) = Some (off + 2)" using assms by (intro ckint_id) auto
  have q: "seek_end script sz off 1 0 = Some l1 \<Longrightarrow> 4 + (off + l1) < sz \<Longrightarrow> ckint (7 + (off + l1)) = Some (7 + (off + l1))"
    "seek_end script sz off 0 0 = Some l1 \<Longrightarrow> off + l1 + 3 < sz \<Longrightarrow> ckint (5 + (off + l1)) = Some (5 + (off + l1))" for l1
    using assms by (auto intro!: ckint_id dest!: seek_end_ge)
  show ?thesis
    unfolding parse_file_step_def p bind.bind_lunit
    by (intro Option.bind_cong refl if_cong) (auto simp: Let_def q simp del: ckint_id intro!: Option.bind_cong split: prod.split)
qed

function parse_file_loop :: "string \<Rightarrow> int \<Rightarrow> int \<Rightarrow> int \<Rightarrow> int \<Rightarrow> parsed list \<Rightarrow> parsed list option" where
  "parse_file_loop script sz off l i ps = do {
     c \<leftarrow> peek script off;
     (if c \<noteq> NUL \<and> off < sz then do {
        (o2, l2, i2, ps2) \<leftarrow> parse_file_step script sz off l i ps;
        o3 \<leftarrow> ckint (o2 + 1);
        parse_file_loop script sz o3 l2 i2 ps2 }
      else do { (i1, ps1) \<leftarrow> mark_file ps i TEXT l (off - l); Some ps1 }) }"
  by pat_completeness auto
termination
  by (relation "measure (\<lambda>(script, sz, off, l, i, ps). nat (sz - off))")
    (auto dest!: parse_file_step_ge ckint_SomeD)

declare parse_file_loop.simps [simp del]

lemma parse_file_loop_int:
  assumes "0 \<le> off" "sz < 2 ^ 31"
  shows "parse_file_loop script sz off l i ps = do {
     c \<leftarrow> peek script off;
     (if c \<noteq> NUL \<and> off < sz then do {
        (o2, l2, i2, ps2) \<leftarrow> parse_file_step script sz off l i ps;
        parse_file_loop script sz (o2 + 1) l2 i2 ps2 }
      else do { (i1, ps1) \<leftarrow> mark_file ps i TEXT l (off - l); Some ps1 }) }"
proof -
  have "ckint (o2 + 1) = Some (o2 + 1)" if "parse_file_step script sz off l i ps = Some (o2, r)" "off < sz" for o2 r
    using assms parse_file_step_ge [OF that(1)] parse_file_step_lt [OF that] by (intro ckint_id) auto
  then show ?thesis
    by (subst parse_file_loop.simps) (auto simp del: ckint_id intro!: Option.bind_cong split: prod.split)
qed

definition parse_file :: "file_cache \<Rightarrow> file_cache option" where
  "parse_file fc =
     (if fparsed fc \<noteq> None then Some fc
      else do { ps \<leftarrow> parse_file_loop (fdata fc) (fsize fc) 0 0 0 new_parsed;
                Some (fc\<lparr>fparsed := Some ps\<rparr>) })"

subsection \<open>Opening and reloading\<close>

text \<open>\<open>parseable_file\<close> of mime.c stores the type it looked up.\<close>

definition parseable_file :: "file_cache \<Rightarrow> (bool \<times> file_cache) option" where
  "parseable_file fc = do {
     m \<leftarrow> (case fmime fc of None \<Rightarrow> lookup_mimetype (fname fc) | Some m \<Rightarrow> Some m);
     Some (mhandler m = Lws_Handler, fc\<lparr>fmime := Some m\<rparr>) }"

text \<open>The bytes behind a mapping; nothing can be read through a failed one.\<close>

definition mapped :: "opened \<Rightarrow> string" where
  "mapped w = (case omap w of None \<Rightarrow> [] | Some d \<Rightarrow> d)"

definition open_file :: "str \<Rightarrow> opened \<Rightarrow> File option" where
  "open_file filename w = (case filename of None \<Rightarrow> None
     | Some v \<Rightarrow> do {
         n \<leftarrow> fetch_bytes (sdata v) (len filename);
         (if ofd w < 0 \<or> ostat_failed w then do {
            _ \<leftarrow> error_log ''Failed to open file %s'' [AStr filename]; Some None }
          else do {
            (p, fc) \<leftarrow> parseable_file \<lparr>ffd = ofd w, fname = n @ [NUL], fsize = osize w,
              fdata = mapped w, fparsed = None, fmime = None\<rparr>;
            (if p then map_option Some (parse_file fc) else Some (Some fc)) }) })"

text \<open>The cache: an array of \<open>MAX_FILES\<close> pointers, of which the first \<open>file_index\<close> are set.\<close>

type_synonym cache = "file_cache option list"

text \<open>\<open>load_directory\<close>: the entries that the traversal yields are an argument, each with its name,
  its path, the bit test of its \<open>fts_info\<close> and the system's answers.  An entry past the end of
  the array would be written over the index itself.\<close>

record fts_entry =
  fts_name :: string
  fts_accpath :: string
  fts_is_file :: bool
  fts_open :: opened

fun load_entries :: "fts_entry list \<Rightarrow> cache \<Rightarrow> cache option" where
  "load_entries [] files = Some files"
| "load_entries (fe # fes) files = do {
     _ \<leftarrow> debug_log ''Testing %c'' [AChars (fts_name fe @ [NUL])];
     (if fts_name fe \<noteq> [] \<and> hd (fts_name fe) = CHR ''.'' then load_entries fes files
      else if fts_is_file fe then do {
        let filename = view (fts_accpath fe) [NUL];
        _ \<leftarrow> debug_log ''Opening file %s'' [AStr filename];
        fc \<leftarrow> open_file filename (fts_open fe);
        (if int (length files) < MAX_FILES then load_entries fes (files @ [fc]) else None) }
      else load_entries fes files) }"

definition load_directory :: "str \<Rightarrow> fts_entry list \<Rightarrow> cache \<Rightarrow> cache option" where
  "load_directory directory fes files = (case directory of None \<Rightarrow> None
     | Some v \<Rightarrow> do {
         _ \<leftarrow> debug_log ''Opening directory %s'' [AStr directory];
         load_entries fes files })"

subsection \<open>Lookup\<close>

definition file_test :: "str \<Rightarrow> file_cache option \<Rightarrow> bool option" where
  "file_test filename f = (case f of None \<Rightarrow> None | Some fc \<Rightarrow> cmp filename (view (butlast (fname fc)) [NUL]))"

fun find_file :: "str \<Rightarrow> cache \<Rightarrow> file_cache option option option" where
  "find_file filename [] = Some None"
| "find_file filename (f # fs) = do {
     b \<leftarrow> file_test filename f; if b then Some (Some f) else find_file filename fs }"

interpretation file_search: checked_search find_file file_test
  by unfold_locales simp_all

definition query_cache :: "cache \<Rightarrow> str \<Rightarrow> File option" where
  "query_cache files filename = do {
     r \<leftarrow> find_file filename files;
     Some (case r of None \<Rightarrow> None | Some f \<Rightarrow> f) }"

definition load :: "cache \<Rightarrow> str \<Rightarrow> File option" where
  "load files filename = (if filename = None then Some None else query_cache files filename)"

text \<open>\<open>reload\<close> walks the whole array, so the last entry with the descriptor is the one it maps
  again; the segments of the entry are not computed again.\<close>

fun last_fd :: "int \<Rightarrow> cache \<Rightarrow> int \<Rightarrow> int option \<Rightarrow> int option option" where
  "last_fd fd [] i r = Some r"
| "last_fd fd (f # fs) i r = (case f of None \<Rightarrow> None
     | Some fc \<Rightarrow> last_fd fd fs (i + 1) (if ffd fc = fd then Some i else r))"

definition reload :: "int \<Rightarrow> opened \<Rightarrow> cache \<Rightarrow> (File \<times> cache) option" where
  "reload fd w files = do {
     r \<leftarrow> last_fd fd files 0 None;
     (case r of None \<Rightarrow> Some (None, files)
      | Some i \<Rightarrow> (case files ! nat i of None \<Rightarrow> None
         | Some fc \<Rightarrow>
             if ofd w < 0 \<or> ostat_failed w then do {
               _ \<leftarrow> error_log ''Failed to open file %c'' [AChars (fname fc)];
               Some (None, files[nat i := Some (fc\<lparr>ffd := ofd w, fdata := []\<rparr>)]) }
             else let fc' = fc\<lparr>ffd := ofd w, fsize := osize w, fdata := mapped w\<rparr>
               in Some (Some fc', files[nat i := Some fc']))) }"

definition temp_file :: "cache \<Rightarrow> reg \<Rightarrow> str option" where
  "temp_file files now = fmt ''/tmp/%i%i'' [AReg (of_nat (length files)), AReg now]"

definition file_path :: "str \<Rightarrow> str \<Rightarrow> str \<Rightarrow> str option" where
  "file_path cwd h f = fmt ''%s/%s%s'' [AStr cwd, AStr h, AStr f]"

end
