(* ===== verification/Content.thy ===== *)
theory Content
  imports Headers_Parse Files
begin

section \<open>Content lengths and multipart forms (transfer.c, forms.c)\<close>

text \<open>
  How many bytes of a body to wait for, and the parser of \<open>multipart/form-data\<close> bodies.  Its
  searches go through \<open>search\<close>, which looks for any one byte of its key.
\<close>

subsection \<open>Content lengths\<close>

definition is_chunked :: "headers \<Rightarrow> bool option" where
  "is_chunked hs = do {
     f \<leftarrow> cstr Transfer_Encoding_MSG;
     k \<leftarrow> fmt f [];
     enc \<leftarrow> find_header hs k;
     (if enc \<noteq> None then do { c \<leftarrow> fmt ''chunked'' []; icmp enc c } else Some False) }"

partial_function (option) chunked_length_loop :: "str \<Rightarrow> int \<Rightarrow> int \<Rightarrow> int option" where
  "chunked_length_loop src pos acc = do {
     line \<leftarrow> read_line src pos;
     n \<leftarrow> str_hex line;
     (if len line \<noteq> 0
      then chunked_length_loop src (pos + (len line + 2) + n) (wrap32 (acc + n))
      else Some (wrap32 (acc + n))) }"

definition chunked_length :: "str \<Rightarrow> int option" where
  "chunked_length src = do { pos \<leftarrow> skip_headers src 0; chunked_length_loop src pos 0 }"

definition inbound_content_length :: "str \<Rightarrow> headers \<Rightarrow> int option" where
  "inbound_content_length src hs =
     (if src = None \<or> hs = None then Some 0
      else do {
        b \<leftarrow> is_chunked hs;
        (if b then chunked_length src
         else do { k \<leftarrow> fmt ''Content-Length'' []; v \<leftarrow> find_header hs k; str_int v }) })"

definition outbound_content_length :: "str \<Rightarrow> File \<Rightarrow> int" where
  "outbound_content_length src fc =
     (if src \<noteq> None then len src else case fc of None \<Rightarrow> 0 | Some f \<Rightarrow> fsize f)"

subsection \<open>Multipart forms\<close>

function boundary_loop :: "str \<Rightarrow> int \<Rightarrow> int \<Rightarrow> str option" where
  "boundary_loop enc el i =
     (if i < el
      then do {
        t \<leftarrow> from_str enc i (el - i);
        k \<leftarrow> fmt ''boundary='' [];
        b \<leftarrow> ncmp k t 9;
        (if b then do {
           t \<leftarrow> from_str enc (i + 9) (el - (i + 9));
           _ \<leftarrow> debug_log ''Boundary is %s'' [AStr t];
           fmt ''--%s'' [AStr t] }
         else boundary_loop enc el (i + 1)) }
      else Some None)"
  by pat_completeness auto
termination
  by (relation "measure (\<lambda>(enc, el, i). nat (el - i))") auto

declare boundary_loop.simps [simp del]

definition find_boundary :: "str \<Rightarrow> str option" where
  "find_boundary enc = boundary_loop enc (len enc) 19"

definition parse_name :: "str \<Rightarrow> int \<Rightarrow> str option" where
  "parse_name src pos = do {
     let bl = len src;
     k \<leftarrow> fmt (''name='' @ [DQUOTE]) [];
     s \<leftarrow> search src pos k;
     let off = 6 + s;
     (if off \<ge> bl then Some None
      else do {
        e \<leftarrow> find_str src (off + 1) [DQUOTE, NUL] 1;
        (if e - off > 4000 then do { _ \<leftarrow> error_log ''Filename exceeds legit size'' []; Some None }
         else from_str src off (e - off)) }) }"

definition found_file :: "str \<Rightarrow> int \<Rightarrow> int \<Rightarrow> bool option" where
  "found_file src pos e = do {
     k \<leftarrow> fmt (''filename='' @ [DQUOTE]) [];
     s \<leftarrow> search src pos k;
     Some (6 + s < len src \<and> 6 + s < e) }"

definition skip_content_headers :: "str \<Rightarrow> int \<Rightarrow> int option" where
  "skip_content_headers src pos = do {
     k \<leftarrow> fmt (CRLF @ CRLF) [];
     s \<leftarrow> search src pos k;
     Some (4 + s) }"

text \<open>\<open>save_contents\<close>: the name of the temporary file, whether it could be opened and the files
  written so far are arguments; a range that is no part of the object is a failed write.\<close>

definition save_contents :: "str \<Rightarrow> bool \<Rightarrow> str \<Rightarrow> int \<Rightarrow> int \<Rightarrow> (str \<times> string) list
    \<Rightarrow> (str \<times> (str \<times> string) list) option" where
  "save_contents filename opens src pos e disk = (case src of None \<Rightarrow> None
     | Some v \<Rightarrow>
        if \<not> opens then do {
          _ \<leftarrow> error_log ''Failed to open file for writing %s'' [AStr filename]; Some (filename, disk) }
        else do {
          d \<leftarrow> ptr_add (sdata v) pos;
          (case fetch_bytes d (e - pos) of
             None \<Rightarrow> do { _ \<leftarrow> error_log ''Failed to write to %s'' [AStr filename]; Some (filename, disk) }
           | Some xs \<Rightarrow> Some (filename, disk @ [(filename, xs)])) })"

lemma search_ge: "search s i k = Some j \<Longrightarrow> i \<le> j"
  unfolding search_def find_str_def
  by (auto simp: bind_Some_iff split: option.splits dest: find_loop_ge)

text \<open>The boundary starts with two dashes, so its length \<open>bl\<close> is never negative.\<close>

function multipart_loop :: "str \<Rightarrow> bool \<Rightarrow> str \<Rightarrow> str \<Rightarrow> int \<Rightarrow> int \<Rightarrow> headers \<Rightarrow> (str \<times> string) list
    \<Rightarrow> (headers \<times> (str \<times> string) list) option" where
  "multipart_loop tmp opens contents boundary bl i hs disk =
     (if i < len contents then (if bl < 0 then None else do {
        n \<leftarrow> search contents (i + 1) boundary;
        srcname \<leftarrow> parse_name contents i;
        (if srcname = None then do {
           _ \<leftarrow> skip_content_headers contents i;
           multipart_loop tmp opens contents boundary bl (n + bl) hs disk }
         else do {
           e \<leftarrow> skip_content_headers contents i;
           f \<leftarrow> found_file contents i e;
           (dstname, disk) \<leftarrow> (if f then save_contents tmp opens contents e (n - 2) disk
              else map_option (\<lambda>s. (s, disk)) (from_str contents e (n - 2 - e)));
           hs \<leftarrow> append_header hs srcname dstname;
           multipart_loop tmp opens contents boundary bl (n + bl) hs disk }) })
      else Some (hs, disk))"
  by pat_completeness auto
termination
  by (relation "measure (\<lambda>(tmp, opens, contents, boundary, bl, i, hs, disk). nat (len contents - i))")
    (auto dest!: search_ge)

declare multipart_loop.simps [simp del]

definition parse_multipart_body :: "str \<Rightarrow> bool \<Rightarrow> str \<Rightarrow> int \<Rightarrow> headers \<Rightarrow> str \<Rightarrow> (str \<times> string) list
    \<Rightarrow> (headers \<times> (str \<times> string) list) option" where
  "parse_multipart_body tmp opens contents body hs enctype disk = do {
     boundary \<leftarrow> find_boundary enctype;
     (if boundary = None then do {
        _ \<leftarrow> error_log ''multipart/form-data without boundary'' []; Some (hs, disk) }
      else do {
        i \<leftarrow> search contents body boundary;
        multipart_loop tmp opens contents boundary (len boundary) i hs disk }) }"

subsection \<open>How long a body is expected to be\<close>

lemma fmt_literal: "CHR ''%'' \<notin> set f \<Longrightarrow> fmt f [] = Some (lit f)"
  by (rule fmt_plain)

lemma find_literal:
  assumes "wf_headers h"
  obtains r where "find_header (Some h) (lit k) = Some r" "wf_str r"
    "map_of (entries h) k = (if r = None then None else Some (chars_of r))"
  using find_header_eq [OF assms, of "lit k"] by auto

lemma is_chunked_eq:
  assumes "wf_headers h"
  shows "is_chunked (Some h) = Some (case map_of (entries h) ''Transfer-Encoding'' of
      None \<Rightarrow> False | Some te \<Rightarrow> map upcase te = map upcase ''chunked'')"
proof -
  obtain r where r: "find_header (Some h) (lit ''Transfer-Encoding'') = Some r" "wf_str r"
    "map_of (entries h) ''Transfer-Encoding'' = (if r = None then None else Some (chars_of r))"
    using find_literal [OF assms] .
  have k: "cstr Transfer_Encoding_MSG = Some ''Transfer-Encoding''"
    by (simp add: Transfer_Encoding_MSG_def cstr_def)
  have "icmp r (lit ''chunked'') = Some (map upcase (chars_of r) = map upcase ''chunked'')"
    using icmp_eq [of r "lit ''chunked''"] r(2) by simp
  then show ?thesis
    using r by (simp add: is_chunked_def k fmt_literal)
qed

lemma inbound_length_eq:
  assumes "wf_headers h" "map_of (entries h) ''Transfer-Encoding'' = None"
    "\<forall>c \<in> set ds. is_digit c" "ds \<noteq> []" "dec_val ds < 2 ^ 31" "rest = [] \<or> \<not> is_digit (hd rest)"
    "map_of (entries h) ''Content-Length'' = None \<or> map_of (entries h) ''Content-Length'' = Some (ds @ rest)"
  shows "inbound_content_length (view xs ys) (Some h) =
    Some (if map_of (entries h) ''Content-Length'' = None then 0 else dec_val ds)"
proof -
  obtain r where r: "find_header (Some h) (lit ''Content-Length'') = Some r" "wf_str r"
    "map_of (entries h) ''Content-Length'' = (if r = None then None else Some (chars_of r))"
    using find_literal [OF assms(1)] .
  have "0 \<le> foldl (\<lambda>r c. r * 10 + dec_value c) m cs"
    if "\<forall>c \<in> set cs. is_digit c" "0 \<le> m" for m cs
    using that by (induction cs arbitrary: m) (auto simp: is_digit_def between_def)
  from this [OF assms(3), of 0] have "0 \<le> dec_val ds" by (simp add: numeral_value_def)
  then have "wrap32 (dec_val ds) = dec_val ds" using assms(5) by simp
  moreover have "str_int r = Some (wrap32 (dec_val ds))" if "r \<noteq> None"
    using str_int_prefix [OF r(2) _ assms(3,6,4)] that r(3) assms(7) by auto
  ultimately show ?thesis
    using r is_chunked_eq [OF assms(1)] assms(2)
    by (cases "r = None") (simp_all add: inbound_content_length_def fmt_literal)
qed

text \<open>A request that is not chunked is complete after the number of body bytes that its
  \<open>Content-Length\<close> field begins with, and without that field as soon as its head is read.\<close>

theorem inbound_length_field:
  assumes "wf_headers h" "map_of (entries h) ''Transfer-Encoding'' = None"
    "\<forall>c \<in> set ds. is_digit c" "ds \<noteq> []" "dec_val ds < 2 ^ 31" "rest = [] \<or> \<not> is_digit (hd rest)"
    "map_of (entries h) ''Content-Length'' = None \<or> map_of (entries h) ''Content-Length'' = Some (ds @ rest)"
  shows "inbound_content_length (view xs ys) (Some h) =
    Some (if map_of (entries h) ''Content-Length'' = None then 0 else dec_val ds)"
  using assms by (rule inbound_length_eq)

theorem inbound_length_field_witness:
  "\<exists>h. entries h = [(''Content-Length'', ''12'')] \<and> inbound_content_length (view ''x'' []) (Some h) = Some 12"
proof -
  obtain h where h: "wf_headers h" "entries h = [(''Content-Length'', ''12'')]"
    using one_field .
  then have "inbound_content_length (view ''x'' []) (Some h) =
      Some (if map_of (entries h) ''Content-Length'' = None then 0 else dec_val ''12'')"
    by (intro inbound_length_field [of h "''12''" "[]"]) (simp_all add: is_digit_def byte_simps numeral_value_def)
  with h show ?thesis by (intro exI [of _ h]) (simp add: numeral_value_def byte_simps)
qed

text \<open>C40: A request with the field \<open>Transfer-Encoding: chunked\<close> whose first line is not empty is
  never complete: the computation of its length does not return, so the process spins on it.\<close>

theorem chunked_request_hangs:
  assumes "wf_headers h" "map_of (entries h) ''Transfer-Encoding'' = Some te"
    "map upcase te = map upcase ''chunked''" "xs \<noteq> []" "no_eol (hd xs)"
  shows "inbound_content_length (view xs ys) (Some h) = None"
proof -
  have "takeWhile no_eol xs \<noteq> []" using assms(4,5) by (cases xs) auto
  then have "skip_headers (view xs ys) 0 = None" using skip_headers_eq [of 0 xs ys] by simp
  then show ?thesis
    using is_chunked_eq [OF assms(1)] assms(2,3)
    by (simp add: inbound_content_length_def chunked_length_def)
qed

theorem chunked_request_hangs_witness:
  "\<exists>h. entries h = [(''Transfer-Encoding'', ''Chunked'')]
    \<and> inbound_content_length (view ''POST / HTTP/1.1'' []) (Some h) = None"
proof -
  obtain h where h: "wf_headers h" "entries h = [(''Transfer-Encoding'', ''Chunked'')]"
    using one_field .
  then show ?thesis
    using chunked_request_hangs [OF h(1), of "''Chunked''" "''POST / HTTP/1.1''" "[]"]
    by (auto simp: upcase_def byte_simps char_of_def)
qed

subsection \<open>Multipart forms\<close>

text \<open>Every part of a multipart form whose head starts with the field
  \<open>Content-Disposition: form-data\<close> gets the same name, the middle of that very line: the name
  is taken from behind the first byte that is one of those of \<open>name="\<close>.\<close>

theorem multipart_names_are_wrong:
  assumes "set bnd \<inter> set (''name='' @ [DQUOTE]) = {}"
  shows "map_option chars_of (parse_name (view (ps @ bnd @ CRLF @ ''Content-Disposition: form-data; name='' @ DQUOTE # rest) ys)
      (int (length ps))) = Some ''Disposition: form-data; name=''"
proof -
  let ?t = "''Disposition: form-data; name=''"
  let ?pre = "ps @ bnd @ CRLF @ ''Co''"
  let ?xs = "?pre @ ''ntent-'' @ ?t @ DQUOTE # rest"
  have "takeWhile (\<lambda>c. c \<notin> set (''name='' @ [DQUOTE])) (bnd @ CRLF @ ''Content-Disposition: form-data; name='' @ DQUOTE # rest)
      = bnd @ CRLF @ ''Co''"
    using assms by (subst takeWhile_append2) auto
  then have s: "search (view ?xs ys) (int (length ps)) (lit (''name='' @ [DQUOTE])) = Some (int (length ?pre))"
    using search_eq [of "''name='' @ [DQUOTE]" "int (length ps)" ?xs ys "[NUL]"] by simp
  have "takeWhile (\<lambda>c. c \<notin> set [DQUOTE]) (tl ?t @ DQUOTE # rest) = tl ?t" by simp
  moreover have "drop (nat (int (length ?pre) + 6 + 1)) ?xs = tl ?t @ DQUOTE # rest"
    by (simp add: nat_add_distrib)
  ultimately have f: "find_str (view ?xs ys) (6 + int (length ?pre) + 1) [DQUOTE, NUL] 1
      = Some (6 + int (length ?pre) + int (length ?t))"
    using find_str_eq [of "[DQUOTE]" "6 + int (length ?pre) + 1" ?xs ys "[NUL]"] by (simp add: ac_simps)
  have "from_str (view ((?pre @ ''ntent-'') @ ?t @ DQUOTE # rest) ys) (int (length (?pre @ ''ntent-''))) (int (length ?t))
      = Some (view ?t ((DQUOTE # rest) @ ys))"
    by (rule from_str_pieces)
  then have "from_str (view ?xs ys) (6 + int (length ?pre)) (int (length ?t)) = Some (view ?t ((DQUOTE # rest) @ ys))"
    by (simp add: ac_simps)
  then have "parse_name (view ?xs ys) (int (length ps)) = Some (view ?t ((DQUOTE # rest) @ ys))"
    using s f by (simp add: parse_name_def Let_def fmt_literal)
  then show ?thesis by simp
qed

theorem multipart_names_are_wrong_witness:
  "map_option chars_of (parse_name (view ([] @ ''--XyZ'' @ CRLF @ ''Content-Disposition: form-data; name=''
      @ DQUOTE # ''user'' @ [DQUOTE]) []) (int (length ([] :: string)))) = Some ''Disposition: form-data; name=''"
  by (rule multipart_names_are_wrong) simp

end
