(* ===== verification/Files_Props.thy ===== *)
theory Files_Props
  imports Files "HOL-Library.Sublist"
begin

section \<open>What the template scanner and the file cache guarantee\<close>

text \<open>
  A template is a list of texts and scripts; \<open>render\<close> writes it the way an author does, and the
  scanner must find its parts again.  The scanner reads one byte behind the file, so a template
  that fills its last page cannot be opened.
\<close>

subsection \<open>Templates\<close>

type_synonym template = "(string \<times> char \<times> string) list"

fun render :: "template \<Rightarrow> string \<Rightarrow> string" where
  "render [] t = t"
| "render ((s, c, p) # parts) t = s @ ''<?'' @ [c] @ p @ ''?>'' @ render parts t"

fun template_parts :: "template \<Rightarrow> string \<Rightarrow> (kind \<times> string) list" where
  "template_parts [] t = [(TEXT, t)]"
| "template_parts ((s, c, p) # parts) t =
     (if s = [] then [] else [(TEXT, s)]) @ (SCRIPT, p) # template_parts parts t"

definition wf_text :: "string \<Rightarrow> bool" where
  "wf_text s \<longleftrightarrow> NUL \<notin> set s \<and> \<not> sublist ''<?'' s"

definition wf_template :: "template \<Rightarrow> bool" where
  "wf_template parts \<longleftrightarrow> (\<forall>(s, c, p) \<in> set parts.
     wf_text s \<and> isspace c \<and> NUL \<notin> set p \<and> \<not> sublist ''?>'' p)"

text \<open>The parts that the scanned segments of a file stand for.\<close>

definition segments :: "file_cache \<Rightarrow> (kind \<times> string) list" where
  "segments fc = (case fparsed fc of None \<Rightarrow> []
     | Some ps \<Rightarrow> map (\<lambda>p. (pkind p, take (nat (plength p)) (drop (nat (poffset p)) (fdata fc))))
         (takeWhile (\<lambda>p. pkind p \<noteq> END) ps))"

abbreviation zero_parsed :: parsed where
  "zero_parsed \<equiv> \<lparr>pkind = END, poffset = 0, plength = 0\<rparr>"

lemma peek_here: "peek (ps @ c # qs) (int (length ps)) = Some c"
  by (simp add: peek_def)

lemma peek_here_Suc: "peek (ps @ a # c # qs) (int (length ps) + 1) = Some c"
  by (simp add: peek_def nth_append nat_add_distrib)

lemma mark_file_next:
  "mark_file (es @ replicate (Suc k) zero_parsed) (int (length es)) t off l =
     Some (int (length es) + 1, (es @ [\<lparr>pkind = t, poffset = off, plength = l\<rparr>]) @ replicate k zero_parsed)"
  by (simp add: mark_file_def)

lemma strn_eq_two:
  "strn_eq (ps @ x # y # qs) (int (length ps)) [a, b] = Some (x = a \<and> y = b)"
  using strn_eq_take [of "[a, b]" "x # y # qs" ps] by simp

lemma strn_eq_first: "x \<noteq> a \<Longrightarrow> strn_eq (ps @ x # qs) (int (length ps)) (a # as) = Some False"
  by (simp add: peek_here)

text \<open>The end of a script is found.\<close>

lemma seek_end_eq:
  assumes "\<not> sublist ''?>'' p" "int (length ps) = off + 3 + k" "d = ps @ p @ ''?>'' @ zs"
    "off + 3 + k + int (length p) < sz" "sz < 2 ^ 31"
  shows "seek_end d sz off 0 k = Some (k + int (length p))"
  using assms
proof (induction p arbitrary: ps k)
  case Nil
  then have "strn_eq d (off + k + 3) ''?>'' = Some True"
    using strn_eq_two [of ps "CHR ''?''" "CHR ''>''" zs] by (simp add: ac_simps)
  with Nil show ?case by (subst seek_end_int) (auto simp: algebra_simps)
next
  case (Cons c p)
  have "strn_eq d (off + k + 3) ''?>'' = Some False"
  proof -
    obtain b bs where b: "p @ ''?>'' @ zs = b # bs" by (cases p) auto
    have "\<not> (c = CHR ''?'' \<and> b = CHR ''>'')"
    proof
      assume "c = CHR ''?'' \<and> b = CHR ''>''"
      with b Cons.prems(1) show False by (cases p) (auto simp: sublist_Cons_right)
    qed
    then show ?thesis
      using strn_eq_two [of ps c b bs "CHR ''?''" "CHR ''>''"] b Cons.prems(2,3)
      by (simp add: ac_simps)
  qed
  moreover have "seek_end d sz off 0 (k + 1) = Some (k + 1 + int (length p))"
    using Cons.prems by (intro Cons.IH [of "ps @ [c]"]) (auto simp: sublist_Cons_right)
  ultimately show ?case
    using Cons.prems(2,4,5) by (subst seek_end_int) (auto simp: ac_simps simp del: strn_eq.simps)
qed

text \<open>Text is passed over.\<close>

lemma scan_text:
  assumes "wf_text s" "d = ps @ s @ zs" "int (length (ps @ s)) \<le> sz" "zs \<noteq> []" "s = [] \<or> hd zs \<noteq> CHR ''?''"
    "sz < 2 ^ 31"
  shows "parse_file_loop d sz (int (length ps)) l i es = parse_file_loop d sz (int (length (ps @ s))) l i es"
  using assms
proof (induction s arbitrary: ps)
  case (Cons c s)
  obtain b bs where b: "s @ zs = b # bs" using Cons.prems(4) by (cases s) (auto simp: neq_Nil_conv)
  have "\<not> (c = CHR ''<'' \<and> b = CHR ''?'')"
  proof
    assume "c = CHR ''<'' \<and> b = CHR ''?''"
    with b Cons.prems(1,5) show False by (cases s) (auto simp: wf_text_def sublist_Cons_right)
  qed
  then have "strn_eq d (int (length ps)) ''<?'' = Some False"
    using strn_eq_two [of ps c b bs] b Cons.prems(2) by simp
  then have "parse_file_step d sz (int (length ps)) l i es = Some (int (length ps), l, i, es)"
    by (simp add: parse_file_step_def)
  moreover have "peek d (int (length ps)) = Some c" "c \<noteq> NUL"
    using Cons.prems peek_here by (auto simp: wf_text_def)
  moreover have "parse_file_loop d sz (int (length (ps @ [c]))) l i es
      = parse_file_loop d sz (int (length ((ps @ [c]) @ s))) l i es"
    using Cons.prems by (intro Cons.IH) (auto simp: wf_text_def sublist_Cons_right neq_Nil_conv)
  ultimately show ?case
    using Cons.prems(3,6) by (subst parse_file_loop_int) (simp_all add: ac_simps)
qed simp

text \<open>A script is marked, and the text before it when there is any.\<close>

definition segs_of :: "int \<Rightarrow> string \<Rightarrow> string \<Rightarrow> parsed list" where
  "segs_of off s p = (if s = [] then [] else [\<lparr>pkind = TEXT, poffset = off, plength = int (length s)\<rparr>])
     @ [\<lparr>pkind = SCRIPT, poffset = off + int (length s) + 3, plength = int (length p)\<rparr>]"

lemma step_script:
  assumes "isspace c" "\<not> sublist ''?>'' p" "d = ps @ ''<?'' @ c # p @ ''?>'' @ zs"
    "int (length (ps @ ''<?'' @ c # p @ ''?>'')) \<le> sz" "sz + 4 < 2 ^ 31" "off = int (length ps)"
  shows "parse_file_step d sz off l i ts = do {
      (i1, ts1) \<leftarrow> (if l < off then mark_file ts i TEXT l (off - l) else Some (i, ts));
      (i2, ts2) \<leftarrow> mark_file ts1 i1 SCRIPT (off + 3) (int (length p));
      Some (off + (int (length p) + 3), off + (int (length p) + 3) + 2, i2, ts2) }"
proof -
  have "d = (ps @ ''<?'' @ [c]) @ p @ ''?>'' @ zs" by (simp add: assms(3))
  from seek_end_eq [OF assms(2) _ this, of off 0 sz] assms(4-6)
  have seek: "seek_end d sz off 0 0 = Some (int (length p))" by simp
  have here: "strn_eq d off ''<?'' = Some True" "peek d (off + 2) = Some c"
    using strn_eq_two [of ps "CHR ''<''" "CHR ''?''" "c # p @ ''?>'' @ zs"] peek_here [of "ps @ ''<?''" c "p @ ''?>'' @ zs"]
    by (simp_all add: assms(3,6) ac_simps del: strn_eq.simps peek_in)
  have "(c = CHR ''='') = False" using assms(1) by (auto simp: isspace_def)
  moreover have "off + int (length p) + 3 < sz" "0 \<le> off" "off < sz" using assms(4,6) by simp_all
  ultimately show ?thesis
    using here seek assms(1) by (subst parse_file_step_int [OF _ _ assms(5)]) (simp_all del: strn_eq.simps)
qed

lemma scan_script:
  assumes "isspace c" "\<not> sublist ''?>'' p" "d = ps @ s @ ''<?'' @ c # p @ ''?>'' @ zs"
    "int (length (ps @ s @ ''<?'' @ c # p @ ''?>'')) \<le> sz"
    "sg = segs_of (int (length ps)) s p" "sz + 4 < 2 ^ 31"
  shows "parse_file_loop d sz (int (length (ps @ s))) (int (length ps)) (int (length es))
      (es @ replicate (k + length sg) zero_parsed)
    = parse_file_loop d sz (int (length (ps @ s @ ''<?'' @ c # p @ ''?>''))) 
        (int (length (ps @ s @ ''<?'' @ c # p @ ''?>''))) (int (length (es @ sg)))
        ((es @ sg) @ replicate k zero_parsed)"
    (is "parse_file_loop d sz ?o ?l _ _ = parse_file_loop d sz ?e ?e _ _")
proof -
  have "d = (ps @ s) @ ''<?'' @ c # p @ ''?>'' @ zs" by (simp add: assms(3))
  note step = step_script [OF assms(1,2) this _ assms(6) refl]
  have here: "peek d ?o = Some CHR ''<''"
    using peek_here [of "ps @ s" "CHR ''<''"] by (simp add: assms(3) del: peek_in)
  let ?i1 = "int (length (es @ butlast sg))" and ?t1 = "(es @ butlast sg) @ replicate (Suc k) zero_parsed"
  have marks: "(if ?l < ?o then mark_file (es @ replicate (k + length sg) zero_parsed) (int (length es)) TEXT ?l (?o - ?l)
      else Some (int (length es), es @ replicate (k + length sg) zero_parsed)) = Some (?i1, ?t1)"
    using mark_file_next [of es "Suc k" TEXT ?l "?o - ?l"] by (simp add: assms(5) segs_of_def)
  have sg: "(es @ butlast sg) @ [\<lparr>pkind = SCRIPT, poffset = ?o + 3, plength = int (length p)\<rparr>] = es @ sg"
    by (simp add: assms(5) segs_of_def)
  have "?i1 + 1 = int (length (es @ sg))" by (simp add: assms(5) segs_of_def)
  with mark_file_next [of "es @ butlast sg" k SCRIPT "?o + 3" "int (length p)"]
  have mark2: "mark_file ?t1 ?i1 SCRIPT (?o + 3) (int (length p))
      = Some (int (length (es @ sg)), (es @ sg) @ replicate k zero_parsed)"
    by (simp only: sg)
  have "int (length ((ps @ s) @ ''<?'' @ c # p @ ''?>'')) \<le> sz" using assms(4) by simp
  from step [OF this, of ?l "int (length es)" "es @ replicate (k + length sg) zero_parsed"]
  have "parse_file_step d sz ?o ?l (int (length es)) (es @ replicate (k + length sg) zero_parsed)
    = Some (?o + (int (length p) + 3), ?o + (int (length p) + 3) + 2, int (length (es @ sg)), (es @ sg) @ replicate k zero_parsed)"
    by (simp only: marks mark2 bind.bind_lunit prod.case)
  then have "parse_file_step d sz ?o ?l (int (length es)) (es @ replicate (k + length sg) zero_parsed)
    = Some (?e - 2, ?e, int (length (es @ sg)), (es @ sg) @ replicate k zero_parsed)"
    by (simp add: ac_simps)
  then have "parse_file_loop d sz ?o ?l (int (length es)) (es @ replicate (k + length sg) zero_parsed)
    = parse_file_loop d sz (?e - 1) ?e (int (length (es @ sg))) ((es @ sg) @ replicate k zero_parsed)"
    using here assms(4,6) by (subst parse_file_loop_int) (simp_all add: ac_simps)
  also have "\<dots> = parse_file_loop d sz ?e ?e (int (length (es @ sg))) ((es @ sg) @ replicate k zero_parsed)"
  proof -
    have e: "?e - 1 = int (length (ps @ s @ ''<?'' @ c # p @ ''?''))" "d = (ps @ s @ ''<?'' @ c # p @ ''?'') @ CHR ''>'' # zs"
      by (simp_all add: assms(3))
    have "strn_eq d (?e - 1) ''<?'' = Some False" "peek d (?e - 1) = Some CHR ''>''"
      unfolding e(1) unfolding e(2) by (rule strn_eq_first, simp) (rule peek_here)
    then show ?thesis
      using assms(4,6) by (subst parse_file_loop_int) (simp_all add: parse_file_step_def)
  qed
  finally show ?thesis .
qed

text \<open>A script for which the array has no room left.\<close>

lemma scan_script_full:
  assumes "isspace c" "\<not> sublist ''?>'' p" "d = ps @ s @ ''<?'' @ c # p @ ''?>'' @ zs"
    "int (length (ps @ s @ ''<?'' @ c # p @ ''?>'')) \<le> sz" "k < length (segs_of (int (length ps)) s p)" "sz + 4 < 2 ^ 31"
  shows "parse_file_loop d sz (int (length (ps @ s))) (int (length ps)) (int (length es)) (es @ replicate k zero_parsed) = None"
proof -
  have d: "d = (ps @ s) @ ''<?'' @ c # p @ ''?>'' @ zs" "int (length ((ps @ s) @ ''<?'' @ c # p @ ''?>'')) \<le> sz"
    using assms(3,4) by simp_all
  have here: "peek d (int (length (ps @ s))) = Some CHR ''<''"
    using peek_here [of "ps @ s" "CHR ''<''"] by (simp add: assms(3) del: peek_in)
  consider "s = []" "k = 0" | "s \<noteq> []" "k = 0" | "s \<noteq> []" "k = 1"
    using assms(5) by (auto simp: segs_of_def less_Suc_eq split: if_splits)
  then have "parse_file_step d sz (int (length (ps @ s))) (int (length ps)) (int (length es)) (es @ replicate k zero_parsed) = None"
    unfolding step_script [OF assms(1,2) d assms(6) refl] by cases (simp_all add: mark_file_def)
  then show ?thesis using here assms(4,6) by (subst parse_file_loop_int) simp_all
qed

text \<open>All segments of a template that starts at \<open>off\<close>.\<close>

fun tsegs :: "int \<Rightarrow> template \<Rightarrow> string \<Rightarrow> parsed list" where
  "tsegs off [] t = [\<lparr>pkind = TEXT, poffset = off, plength = int (length t)\<rparr>]"
| "tsegs off ((s, c, p) # parts) t =
     segs_of off s p @ tsegs (off + int (length (s @ ''<?'' @ c # p @ ''?>''))) parts t"

lemma scan_template:
  assumes "wf_template parts" "wf_text t" "d = ps @ render parts t @ NUL # zs"
    "sz = int (length (ps @ render parts t))" "sz + 4 < 2 ^ 31"
  shows "parse_file_loop d sz (int (length ps)) (int (length ps)) (int (length es))
      (es @ replicate (k + length (tsegs (int (length ps)) parts t)) zero_parsed)
    = Some ((es @ tsegs (int (length ps)) parts t) @ replicate k zero_parsed)"
  using assms
proof (induction parts arbitrary: ps es)
  case Nil
  have "parse_file_loop d sz (int (length ps)) (int (length ps)) (int (length es)) (es @ replicate (Suc k) zero_parsed)
    = parse_file_loop d sz (int (length (ps @ t))) (int (length ps)) (int (length es)) (es @ replicate (Suc k) zero_parsed)"
    using Nil by (intro scan_text [of t d ps "NUL # zs"]) auto
  also have "\<dots> = Some ((es @ tsegs (int (length ps)) [] t) @ replicate k zero_parsed)"
    using Nil peek_here [of "ps @ t" NUL zs] mark_file_next [of es k TEXT "int (length ps)" "int (length t)"]
    by (subst parse_file_loop_int) simp_all
  finally show ?case by simp
next
  case (Cons part parts)
  obtain s c p where part: "part = (s, c, p)" by (cases part) auto
  have wf: "wf_text s" "isspace c" "\<not> sublist ''?>'' p" "wf_template parts"
    using Cons.prems(1) by (auto simp: wf_template_def part)
  let ?ps = "ps @ s @ ''<?'' @ c # p @ ''?>''" and ?sg = "segs_of (int (length ps)) s p"
    and ?ts = "tsegs (int (length ps) + int (length (s @ ''<?'' @ c # p @ ''?>''))) parts t"
  let ?tb = "es @ replicate (k + length (?sg @ ?ts)) zero_parsed"
  have d: "d = ps @ s @ ''<?'' @ c # p @ ''?>'' @ render parts t @ NUL # zs"
    "d = ?ps @ render parts t @ NUL # zs" "sz = int (length (?ps @ render parts t))"
    using Cons.prems(3,4) by (simp_all add: part)
  have "parse_file_loop d sz (int (length ps)) (int (length ps)) (int (length es)) ?tb
    = parse_file_loop d sz (int (length (ps @ s))) (int (length ps)) (int (length es)) ?tb"
    using wf(1) d Cons.prems(5) by (intro scan_text [of s d ps "''<?'' @ c # p @ ''?>'' @ render parts t @ NUL # zs"]) auto
  also have "\<dots> = parse_file_loop d sz (int (length ?ps)) (int (length ?ps)) (int (length (es @ ?sg)))
      ((es @ ?sg) @ replicate (k + length ?ts) zero_parsed)"
    using scan_script [OF wf(2,3) d(1) _ refl Cons.prems(5), of es "k + length ?ts"] d(3) by (simp add: ac_simps)
  also have "\<dots> = Some (((es @ ?sg) @ ?ts) @ replicate k zero_parsed)"
    using Cons.IH [OF wf(4) Cons.prems(2) d(2,3) Cons.prems(5), of "es @ ?sg"] by (simp add: ac_simps)
  finally show ?case by (simp add: part)
qed

lemma tsegs_kinds: "\<forall>p \<in> set (tsegs off parts t). pkind p \<noteq> END"
  by (induction parts arbitrary: off) (auto simp: segs_of_def split: if_splits)

lemma tsegs_content:
  "d = ps @ render parts t @ zs \<Longrightarrow> off = int (length ps) \<Longrightarrow>
     map (\<lambda>p. (pkind p, take (nat (plength p)) (drop (nat (poffset p)) d))) (tsegs off parts t)
       = template_parts parts t"
proof (induction parts arbitrary: ps off)
  case (Cons part parts)
  obtain s c p where part: "part = (s, c, p)" by (cases part) auto
  let ?ps = "ps @ s @ ''<?'' @ c # p @ ''?>''"
  have "d = ?ps @ render parts t @ zs" using Cons.prems(1) by (simp add: part)
  from Cons.IH [OF this refl] Cons.prems(2)
  have tail: "map (\<lambda>p. (pkind p, take (nat (plength p)) (drop (nat (poffset p)) d)))
      (tsegs (off + int (length (s @ ''<?'' @ c # p @ ''?>''))) parts t) = template_parts parts t"
    by (simp add: ac_simps)
  have "drop (nat off) d = s @ ''<?'' @ c # p @ ''?>'' @ render parts t @ zs"
    "drop (nat (off + int (length s) + 3)) d = p @ ''?>'' @ render parts t @ zs"
    using Cons.prems by (simp_all add: part nat_add_distrib)
  then have "map (\<lambda>p. (pkind p, take (nat (plength p)) (drop (nat (poffset p)) d))) (segs_of off s p)
      = (if s = [] then [] else [(TEXT, s)]) @ [(SCRIPT, p)]"
    by (simp add: segs_of_def)
  with tail show ?case by (simp add: part)
qed simp

lemma length_tsegs: "length (tsegs off parts t) = length (template_parts parts t)"
  by (induction parts t arbitrary: off rule: template_parts.induct) (auto simp: segs_of_def)

lemma parse_template:
  assumes "wf_template parts" "wf_text t" "fdata fc = render parts t @ NUL # zs"
    "fsize fc = int (length (render parts t))" "fparsed fc = None" "fsize fc + 4 < 2 ^ 31"
    "length (template_parts parts t) + k = page_size div sizeof_parsed"
  shows "parse_file fc = Some (fc\<lparr>fparsed := Some (tsegs 0 parts t @ replicate k zero_parsed)\<rparr>)"
  using scan_template [OF assms(1,2), of "fdata fc" "[]" zs "fsize fc" "[]" k] assms(3-7)
  by (simp add: parse_file_def new_parsed_def length_tsegs add.commute)

text \<open>C19: The scanner cuts a template of at most 341 parts, in a file that ends below
  \<open>2 ^ 31 - 4\<close>, into exactly its texts and scripts, in order, and the cut segments read back the
  bytes of the file; empty texts between scripts are left out, the last text is always there.\<close>

theorem template_roundtrip:
  assumes "wf_template parts" "wf_text t" "fdata fc = render parts t @ NUL # zs"
    "fsize fc = int (length (render parts t))" "fparsed fc = None" "fsize fc + 4 < 2 ^ 31"
    "length (template_parts parts t) \<le> page_size div sizeof_parsed"
  shows "\<exists>fc'. parse_file fc = Some fc' \<and> segments fc' = template_parts parts t"
proof -
  obtain k where k: "length (template_parts parts t) + k = page_size div sizeof_parsed"
    using assms(7) by (metis le_Suc_ex)
  note parse_template [OF assms(1-6) k]
  moreover have "takeWhile (\<lambda>p. pkind p \<noteq> END) (tsegs 0 parts t @ replicate k zero_parsed) = tsegs 0 parts t"
    using tsegs_kinds [of 0 parts t] by (cases k) (simp_all add: takeWhile_append)
  ultimately show ?thesis
    using tsegs_content [of "fdata fc" "[]" parts t "NUL # zs" 0] assms(3,5)
    by (simp add: segments_def)
qed

theorem template_roundtrip_witness:
  "\<exists>fc'. parse_file \<lparr>ffd = 3, fname = ''/a.lws'' @ [NUL], fsize = 23,
      fdata = ''<h1><? print(1) ?></h1>'' @ NUL # [], fparsed = None, fmime = None\<rparr> = Some fc'
    \<and> segments fc' = [(TEXT, ''<h1>''), (SCRIPT, ''print(1) ''), (TEXT, ''</h1>'')]"
  using template_roundtrip [of "[(''<h1>'', CHR '' '', ''print(1) '')]" "''</h1>''" _ "[]"]
  by (simp add: wf_template_def wf_text_def isspace_def sublist_Cons_right page_size_def sizeof_parsed_def)

subsection \<open>The end of the array\<close>

lemma scan_overflow:
  assumes "wf_template parts" "wf_text t" "d = ps @ render parts t @ NUL # zs"
    "sz = int (length (ps @ render parts t))" "sz + 4 < 2 ^ 31" "k < length (tsegs (int (length ps)) parts t)"
  shows "parse_file_loop d sz (int (length ps)) (int (length ps)) (int (length es)) (es @ replicate k zero_parsed) = None"
  using assms
proof (induction parts arbitrary: ps es k)
  case Nil
  have "parse_file_loop d sz (int (length ps)) (int (length ps)) (int (length es)) (es @ replicate k zero_parsed)
    = parse_file_loop d sz (int (length (ps @ t))) (int (length ps)) (int (length es)) (es @ replicate k zero_parsed)"
    using Nil by (intro scan_text [of t d ps "NUL # zs"]) auto
  also have "\<dots> = None"
    using Nil peek_here [of "ps @ t" NUL zs] by (subst parse_file_loop_int) (simp_all add: mark_file_def)
  finally show ?case .
next
  case (Cons part parts)
  obtain s c p where part: "part = (s, c, p)" by (cases part) auto
  have wf: "wf_text s" "isspace c" "\<not> sublist ''?>'' p" "wf_template parts"
    using Cons.prems(1) by (auto simp: wf_template_def part)
  let ?ps = "ps @ s @ ''<?'' @ c # p @ ''?>''" and ?sg = "segs_of (int (length ps)) s p"
  let ?tb = "es @ replicate k zero_parsed"
  have d: "d = ps @ s @ ''<?'' @ c # p @ ''?>'' @ render parts t @ NUL # zs"
    "d = ?ps @ render parts t @ NUL # zs" "sz = int (length (?ps @ render parts t))" "int (length ?ps) \<le> sz"
    using Cons.prems(3,4) by (simp_all add: part)
  have "parse_file_loop d sz (int (length ps)) (int (length ps)) (int (length es)) ?tb
    = parse_file_loop d sz (int (length (ps @ s))) (int (length ps)) (int (length es)) ?tb"
    using wf(1) d Cons.prems(5) by (intro scan_text [of s d ps "''<?'' @ c # p @ ''?>'' @ render parts t @ NUL # zs"]) auto
  also have "\<dots> = None"
  proof (cases "k < length ?sg")
    case True
    then show ?thesis by (rule scan_script_full [OF wf(2,3) d(1,4) _ Cons.prems(5)])
  next
    case False
    then obtain j where j: "k = j + length ?sg" by (metis add.commute le_Suc_ex not_less)
    have "j < length (tsegs (int (length ?ps)) parts t)"
      using Cons.prems(6) by (simp add: j part ac_simps)
    from Cons.IH [OF wf(4) Cons.prems(2) d(2,3) Cons.prems(5) this, of "es @ ?sg"]
    show ?thesis unfolding j scan_script [OF wf(2,3) d(1,4) refl Cons.prems(5)] .
  qed
  finally show ?case .
qed

text \<open>The array of segments has one page: a template of more than 341 parts is written past its end,
  since \<open>mark_file\<close> does not look at the index.\<close>

theorem too_many_parts:
  assumes "wf_template parts" "wf_text t" "fdata fc = render parts t @ NUL # zs"
    "fsize fc = int (length (render parts t))" "fparsed fc = None" "fsize fc + 4 < 2 ^ 31"
    "page_size div sizeof_parsed < length (template_parts parts t)"
  shows "parse_file fc = None"
  using scan_overflow [OF assms(1,2), of "fdata fc" "[]" zs "fsize fc" "page_size div sizeof_parsed" "[]"] assms(3-7)
  by (simp add: parse_file_def new_parsed_def length_tsegs)

text \<open>341 scripts and the empty text behind them.\<close>

theorem too_many_parts_witness:
  "parse_file \<lparr>ffd = 3, fname = ''/a.lws'' @ [NUL],
      fsize = int (length (render (replicate 341 ([], CHR '' '', [])) [])),
      fdata = render (replicate 341 ([], CHR '' '', [])) [] @ NUL # [], fparsed = None, fmime = None\<rparr> = None"
proof -
  have l: "length (render (replicate n ([], CHR '' '', [])) []) = 5 * n"
    "length (template_parts (replicate n ([], CHR '' '', [])) []) = n + 1" for n
    by (induction n) simp_all
  show ?thesis
    by (rule too_many_parts [of "replicate 341 ([], CHR '' '', [])" "[]" _ "[]"])
      (simp_all only: l file_cache.simps, simp_all add: wf_template_def wf_text_def isspace_def page_size_def sizeof_parsed_def)
qed

subsection \<open>What the scanner does not do\<close>

lemma mark_file_kinds:
  "mark_file ps i t off l = Some (j, qs) \<Longrightarrow> EMIT \<notin> pkind ` set ps \<Longrightarrow> t \<noteq> EMIT \<Longrightarrow> EMIT \<notin> pkind ` set qs"
  by (auto simp: mark_file_def split: if_splits dest!: subsetD [OF set_update_subset_insert])

lemma parse_file_step_kinds:
  assumes "parse_file_step script sz off l i ps = Some (o2, l2, i2, qs)" "EMIT \<notin> pkind ` set ps"
  shows "EMIT \<notin> pkind ` set qs"
proof -
  obtain m sp where m: "strn_eq script off ''<?'' = Some m"
    "(if m then do { p2 \<leftarrow> ckint (off + 2); map_option isspace (peek script p2) } else Some False) = Some sp"
    using assms(1) unfolding parse_file_step_def by (auto simp only: bind_Some_iff)
  show ?thesis
  proof (cases sp)
    case False
    with assms m show ?thesis by (simp add: parse_file_step_def del: strn_eq.simps)
  next
    case True
    with m obtain c where c: "m" "ckint (off + 2) = Some (off + 2)" "peek script (off + 2) = Some c" "isspace c"
      by (cases m) (auto simp: bind_Some_iff dest!: ckint_SomeD)
    then have n: "c \<noteq> CHR ''=''" by (auto simp: isspace_def)
    have "do { (i1, ps1) \<leftarrow> (if l < off then mark_file ps i TEXT l (off - l) else Some (i, ps));
        l1 \<leftarrow> seek_end script sz off 0 0;
        (if off + l1 + 3 < sz then do { (i2, ps2) \<leftarrow> mark_file ps1 i1 SCRIPT (off + 3) l1;
           l2 \<leftarrow> ckint (off + (l1 + 3) + 2);
           Some (off + (l1 + 3), l2, i2, ps2) }
         else Some (off, l1, i1, ps1)) } = Some (o2, l2, i2, qs)"
      using assms(1) m c n by (simp add: parse_file_step_def del: strn_eq.simps ckint_id cong: if_cong)
    then obtain i1 ps1 l1 where s: "(if l < off then mark_file ps i TEXT l (off - l) else Some (i, ps)) = Some (i1, ps1)"
      "(if off + l1 + 3 < sz then do { (i2, ps2) \<leftarrow> mark_file ps1 i1 SCRIPT (off + 3) l1;
           l2 \<leftarrow> ckint (off + (l1 + 3) + 2);
           Some (off + (l1 + 3), l2, i2, ps2) }
        else Some (off, l1, i1, ps1)) = Some (o2, l2, i2, qs)"
      unfolding bind_Some_iff by (auto simp only: prod.case bind_Some_iff split_paired_Ex)
    from s(1) assms(2) have "EMIT \<notin> pkind ` set ps1" by (auto split: if_splits dest: mark_file_kinds)
    with s(2) show ?thesis by (auto simp: bind_Some_iff split: if_splits dest: mark_file_kinds)
  qed
qed

lemma parse_file_loop_kinds:
  "parse_file_loop script sz off l i ps = Some qs \<Longrightarrow> EMIT \<notin> pkind ` set ps \<Longrightarrow> EMIT \<notin> pkind ` set qs"
proof (induction script sz off l i ps rule: parse_file_loop.induct)
  case (1 script sz off l i ps)
  from "1.prems"(1) obtain c where c: "peek script off = Some c"
    by (subst (asm) parse_file_loop.simps) (auto simp: bind_Some_iff)
  show ?case
  proof (cases "c \<noteq> NUL \<and> off < sz")
    case True
    with "1.prems"(1) c obtain o2 l2 i2 ps2 o3 where s: "parse_file_step script sz off l i ps = Some (o2, l2, i2, ps2)"
      "ckint (o2 + 1) = Some o3" "parse_file_loop script sz o3 l2 i2 ps2 = Some qs"
      by (subst (asm) parse_file_loop.simps) (auto simp: bind_Some_iff)
    with "1.IH" [OF c True s(1) refl refl refl s(2,3)] parse_file_step_kinds [OF s(1) "1.prems"(2)]
    show ?thesis by simp
  next
    case False
    with "1.prems" c show ?thesis
      by (subst (asm) parse_file_loop.simps) (auto simp: bind_Some_iff dest!: mark_file_kinds)
  qed
qed

text \<open>No file has a segment of the kind \<open>EMIT\<close>: the opening of such a segment would need a
  byte that is a blank and an equals sign at once, so an author's \<open><?=\<close> stays text.\<close>

theorem no_emit_segment:
  assumes "parse_file fc = Some fc'" "fparsed fc = None"
  shows "EMIT \<notin> fst ` set (segments fc')"
proof -
  obtain ps where ps: "parse_file_loop (fdata fc) (fsize fc) 0 0 0 new_parsed = Some ps"
    "fc' = fc\<lparr>fparsed := Some ps\<rparr>"
    using assms by (auto simp: parse_file_def bind_Some_iff)
  have "EMIT \<notin> pkind ` set new_parsed" by (auto simp: new_parsed_def)
  from parse_file_loop_kinds [OF ps(1) this] show ?thesis
    by (auto simp: segments_def ps(2) dest: set_takeWhileD)
qed

theorem no_emit_segment_witness:
  "\<exists>fc'. parse_file \<lparr>ffd = 3, fname = ''/a.lws'' @ [NUL], fsize = 8,
      fdata = ''<?=n =?>'' @ NUL # [], fparsed = None, fmime = None\<rparr> = Some fc'
    \<and> EMIT \<notin> fst ` set (segments fc')"
proof -
  let ?fc = "\<lparr>ffd = 3, fname = ''/a.lws'' @ [NUL], fsize = 8,
      fdata = ''<?=n =?>'' @ NUL # [], fparsed = None, fmime = None\<rparr> :: file_cache"
  have "\<exists>ps. parse_file_loop (fdata ?fc) 8 0 0 0 new_parsed = Some ps"
    by (simp add: parse_file_loop.simps parse_file_step_def isspace_def mark_file_def peek_def
        new_parsed_def page_size_def sizeof_parsed_def)
  then obtain fc' where "parse_file ?fc = Some fc'" by (auto simp: parse_file_def)
  with no_emit_segment [OF this] show ?thesis by auto
qed

text \<open>The position never gets past the last byte without a read at the size of the file.\<close>

lemma parse_file_loop_full:
  assumes "sz = int (length script)" "off \<le> sz" "NUL \<notin> set script" "0 \<le> off"
  shows "parse_file_loop script sz off l i ps = None"
  using assms
proof (induction script sz off l i ps rule: parse_file_loop.induct)
  case (1 script sz off l i ps)
  show ?case
  proof (cases "off < sz")
    case False
    with "1.prems" show ?thesis by (subst parse_file_loop.simps) (simp add: peek_def)
  next
    case True
    then have n: "nat off < length script" using "1.prems" by auto
    have c: "peek script off = Some (script ! nat off)"
      using True "1.prems" by (simp add: peek_def)
    have nz: "script ! nat off \<noteq> NUL" using nth_mem [OF n] "1.prems"(3) by metis
    show ?thesis
    proof (cases "parse_file_step script sz off l i ps")
      case None
      with c nz True show ?thesis by (subst parse_file_loop.simps) simp
    next
      case (Some r)
      obtain o2 l2 i2 ps2 where r: "r = (o2, l2, i2, ps2)" by (cases r) auto
      have "off \<le> o2" "o2 < sz"
        using Some r True parse_file_step_ge parse_file_step_lt by blast+
      then have "parse_file_loop script sz o3 l2 i2 ps2 = None" if "ckint (o2 + 1) = Some o3" for o3
        using "1.IH" [OF c _ Some [unfolded r] refl refl refl that] nz True "1.prems" ckint_SomeD [OF that] by simp
      with Some r c nz True show ?thesis by (subst parse_file_loop.simps) (cases "ckint (o2 + 1)"; simp)
    qed
  qed
qed

text \<open>A file that fills its mapping to the last byte (its size is a multiple of the page size)
  cannot be scanned, whatever its contents: the loop reads the byte behind the file before it
  compares the position with the size, and that byte is not mapped.\<close>

theorem full_page_template_faults:
  assumes "fparsed fc = None" "NUL \<notin> set (fdata fc)" "fsize fc = int (length (fdata fc))"
  shows "parse_file fc = None"
  using assms parse_file_loop_full [of "fsize fc" "fdata fc" 0 0 0 new_parsed]
  by (simp add: parse_file_def)

theorem full_page_template_faults_witness:
  "parse_file \<lparr>ffd = 3, fname = ''/a.lws'' @ [NUL], fsize = 4096,
     fdata = replicate 4096 CHR ''x'', fparsed = None, fmime = None\<rparr> = None"
  by (rule full_page_template_faults) simp_all

subsection \<open>The cache\<close>

definition file_name :: "file_cache \<Rightarrow> string" where
  "file_name fc = butlast (fname fc)"

lemma file_test_eq: "file_test (view xs ys) (Some fc) = Some (file_name fc = xs)"
  by (auto simp: file_test_def cmp_eq file_name_def)

lemma query_cache_eq:
  "query_cache (map Some fcs) (view xs ys) = Some (List.find (\<lambda>fc. file_name fc = xs) fcs)
   \<and> query_cache (map Some fcs @ None # rest) (view xs ys) =
      (case List.find (\<lambda>fc. file_name fc = xs) fcs of None \<Rightarrow> None | Some fc \<Rightarrow> Some (Some fc))"
proof -
  have "List.find (\<lambda>f. case f of None \<Rightarrow> False | Some fc \<Rightarrow> file_name fc = xs) (map Some fcs)
    = map_option Some (List.find (\<lambda>fc. file_name fc = xs) fcs)"
    by (induction fcs) auto
  moreover have "find_file (view xs ys) (map Some fcs)
      = Some (List.find (\<lambda>f. case f of None \<Rightarrow> False | Some fc \<Rightarrow> file_name fc = xs) (map Some fcs))"
    by (rule file_search.look_find) (auto simp: file_test_eq)
  ultimately have "find_file (view xs ys) (map Some fcs)
      = Some (map_option Some (List.find (\<lambda>fc. file_name fc = xs) fcs))" by simp
  then show ?thesis
    by (auto simp: query_cache_def file_search.look_append file_test_def split: option.splits)
qed

text \<open>A lookup in the cache answers the first file of that exact name, and NULL when no file
  has it; but when a file could not be opened at start-up, its NULL entry is dereferenced by
  every lookup that does not stop before it.\<close>

theorem query_cache_first:
  "query_cache (map Some fcs) (view xs ys) = Some (List.find (\<lambda>fc. file_name fc = xs) fcs)
   \<and> query_cache (map Some fcs @ None # rest) (view xs ys) =
      (case List.find (\<lambda>fc. file_name fc = xs) fcs of None \<Rightarrow> None | Some fc \<Rightarrow> Some (Some fc))"
  by (rule query_cache_eq)

text \<open>When a watched file changes, the cache entry gets the new bytes and the new size, but
  keeps the segments of the old contents: a changed template is sent with the offsets of its
  former version.\<close>

theorem reload_keeps_segments:
  assumes "fd \<notin> ffd ` set gs" "ffd fc = fd" "0 \<le> ofd w" "\<not> ostat_failed w"
  shows "\<exists>fc'. reload fd w (map Some fs @ Some fc # map Some gs)
      = Some (Some fc', map Some fs @ Some fc' # map Some gs)
    \<and> fdata fc' = mapped w \<and> fsize fc' = osize w \<and> fparsed fc' = fparsed fc"
proof -
  have none: "last_fd fd (map Some hs) i r = Some r" if "fd \<notin> ffd ` set hs" for hs i r
    using that by (induction hs arbitrary: i) auto
  have some: "\<exists>r'. last_fd fd (map Some hs @ zs) i r = last_fd fd zs (i + int (length hs)) r'" for hs zs i r
  proof (induction hs arbitrary: i r)
    case (Cons h hs)
    from Cons.IH [of "i + 1"] show ?case by (simp add: add.assoc)
  qed auto
  obtain r' where "last_fd fd (map Some fs @ Some fc # map Some gs) 0 None
      = last_fd fd (Some fc # map Some gs) (int (length fs)) r'"
    using some [of fs "Some fc # map Some gs" 0 None] by auto
  then have "last_fd fd (map Some fs @ Some fc # map Some gs) 0 None = Some (Some (int (length fs)))"
    using assms none by simp
  then show ?thesis
    using assms(3,4) by (simp add: reload_def nth_append Let_def list_update_append)
qed

theorem reload_keeps_segments_witness:
  "\<exists>fc'. reload 3 \<lparr>ofd = 4, ostat_failed = False, osize = 1, omap = Some (''x'' @ [NUL])\<rparr>
      [Some \<lparr>ffd = 3, fname = ''a'' @ [NUL], fsize = 2, fdata = ''yz'' @ [NUL], fparsed = Some [], fmime = None\<rparr>]
      = Some (Some fc', [Some fc'])
    \<and> fdata fc' = ''x'' @ [NUL] \<and> fsize fc' = 1 \<and> fparsed fc' = Some []"
  using reload_keeps_segments [of 3 "[]" "\<lparr>ffd = 3, fname = ''a'' @ [NUL], fsize = 2, fdata = ''yz'' @ [NUL],
      fparsed = Some [], fmime = None\<rparr>" "\<lparr>ofd = 4, ostat_failed = False, osize = 1, omap = Some (''x'' @ [NUL])\<rparr>" "[]"]
  by (simp add: mapped_def)

end
