(* ===== verification/Tls.thy ===== *)
theory Tls
  imports Str_Format
begin

section \<open>TLS (tls.c, tls.h)\<close>

text \<open>
  The glue between the sockets and OpenSSL, which is a parameter: each call of the library is the
  answer it gives.  A handshake is a list of answers, each with the error that \<open>SSL_get_error\<close>
  makes of it.
\<close>

datatype ssl_error = SSL_ERROR_NONE | SSL_ERROR_WANT_READ | SSL_ERROR_WANT_WRITE | SSL_ERROR_ZERO_RETURN
  | SSL_ERROR_WANT_CONNECT | SSL_ERROR_WANT_X509_LOOKUP | SSL_ERROR_SYSCALL | SSL_ERROR_SSL

record tls =
  pass_len :: int
  password :: string

text \<open>\<open>password_callback\<close>: what it writes into the buffer of \<open>num\<close> bytes, and its result; \<open>num\<close> is
  compared as a \<open>size_t\<close>.\<close>

definition password_callback :: "int \<Rightarrow> tls \<Rightarrow> (string \<times> int) option" where
  "password_callback num t =
     (if uint (of_int num :: reg) < pass_len t then Some ([], 0)
      else do { p \<leftarrow> cstr (password t); Some (p @ [NUL], pass_len t - 1) })"

text \<open>\<open>init_tls\<close> and \<open>client_tls\<close>: whether the certificates, the key file and the key are accepted.\<close>

definition init_tls :: "string \<Rightarrow> string \<Rightarrow> bool \<Rightarrow> bool \<Rightarrow> bool \<Rightarrow> tls option option" where
  "init_tls keyfile pass verify cert key = do {
     p \<leftarrow> cstr pass;
     let t = \<lparr>pass_len = int (length p) + 1, password = p @ [NUL]\<rparr>;
     (if \<not> verify then do { _ \<leftarrow> error_log ''Failed to use certificate chain file certs.pem'' []; Some None }
      else if \<not> cert then do { _ \<leftarrow> error_log (''Failed to use certificate chain file %c'' @ [LF]) [AChars keyfile]; Some None }
      else if \<not> key then do { _ \<leftarrow> error_log (''Failed to use private key file %c'' @ [LF]) [AChars keyfile]; Some None }
      else Some (Some t)) }"

definition client_tls :: "bool \<Rightarrow> tls option option" where
  "client_tls verify =
     (if \<not> verify then do { _ \<leftarrow> error_log ''Failed to load certs directory'' []; Some None }
      else Some (Some \<lparr>pass_len = 0, password = []\<rparr>))"

definition log_ssl_error :: "ssl_error \<Rightarrow> unit option" where
  "log_ssl_error err = (case err of
     SSL_ERROR_ZERO_RETURN \<Rightarrow> error_log ''[SSL] connection closed'' []
   | SSL_ERROR_WANT_CONNECT \<Rightarrow> error_log ''[SSL] incomplete connection'' []
   | SSL_ERROR_WANT_X509_LOOKUP \<Rightarrow> error_log ''[SSL] no client cert callback'' []
   | SSL_ERROR_SYSCALL \<Rightarrow> error_log ''[SSL] system error'' []
   | SSL_ERROR_SSL \<Rightarrow> error_log ''[SSL] protocol error'' []
   | _ \<Rightarrow> Some ())"

text \<open>The result of \<open>connect_tls\<close> is true for a failure.\<close>

definition connect_tls :: "int \<Rightarrow> ssl_error \<Rightarrow> bool option" where
  "connect_tls retval err = do { _ \<leftarrow> log_ssl_error err; Some (retval < 0) }"

text \<open>\<open>check_tls\<close>: the name of the certificate is copied into a buffer of 256 bytes, at most 255 and
  a NUL, and only printed.\<close>

definition check_tls :: "bool \<Rightarrow> string \<Rightarrow> bool option" where
  "check_tls valid name =
     (if \<not> valid then do { _ \<leftarrow> error_log ''SSL certificate not valid'' []; Some True }
      else do {
        let n = take 255 name;
        _ \<leftarrow> debug_log ''Common Name: %s'' [AStr (view (n @ replicate (256 - length n) NUL) [])];
        Some False })"

definition accept_tls :: "int \<Rightarrow> ssl_error \<Rightarrow> int option" where
  "accept_tls retval err =
     (if retval \<noteq> 0
      then (if err = SSL_ERROR_WANT_READ \<or> err = SSL_ERROR_WANT_WRITE then Some 1
            else do { _ \<leftarrow> log_ssl_error err; Some (- 1) })
      else Some 0)"

text \<open>The loop of \<open>accept_socket\<close>: \<open>while (tls && 0 < accept_tls(retval->tls))\<close>.  Its result is
  how often the handshake was tried; answers that never end it have none.\<close>

fun accept_loop :: "(int \<times> ssl_error) list \<Rightarrow> nat option" where
  "accept_loop [] = None"
| "accept_loop (a # as) = do {
     r \<leftarrow> accept_tls (fst a) (snd a);
     (if 0 < r then map_option Suc (accept_loop as) else Some 1) }"

subsection \<open>What the glue makes of the answers\<close>

lemma log_ssl_error_fine [simp]: "log_ssl_error err = Some ()"
  by (cases err) (simp_all add: log_ssl_error_def error_log_def new_str_def)

lemma accept_tls_eq:
  "accept_tls retval err = Some (if retval = 0 then 0
     else if err = SSL_ERROR_WANT_READ \<or> err = SSL_ERROR_WANT_WRITE then 1 else - 1)"
  by (simp add: accept_tls_def)

text \<open>The password is written only when it fits with its NUL, for a structure that \<open>init_tls\<close> made.\<close>

lemma password_fits:
  assumes "init_tls keyfile (pass @ [NUL]) verify cert key = Some (Some t)" "NUL \<notin> set pass" "0 \<le> num" "num < 2 ^ 31"
  shows "password_callback num t = Some (if num \<le> int (length pass) then ([], 0) else (pass @ [NUL], int (length pass)))"
proof -
  have "uint (of_int num :: reg) = num" using assms(3,4) by (simp add: uint_word_of_int)
  then show ?thesis using assms(1,2) by (auto simp: init_tls_def password_callback_def bind_Some_iff split: if_splits)
qed

lemma accept_loop_eq:
  assumes "\<forall>a \<in> set as. fst a \<noteq> 0 \<and> (snd a = SSL_ERROR_WANT_READ \<or> snd a = SSL_ERROR_WANT_WRITE)"
    "r = 0 \<or> err \<noteq> SSL_ERROR_WANT_READ \<and> err \<noteq> SSL_ERROR_WANT_WRITE"
  shows "accept_loop (as @ (r, err) # bs) = Some (Suc (length as))"
  using assms by (induction as) (auto simp: accept_tls_eq)

text \<open>The handshake of a new connection is tried until it no longer waits, and how it ended makes
  no difference: a completed one, a refused one and a broken one all end the loop in the same way.\<close>

theorem handshake_outcome_ignored:
  assumes "\<forall>a \<in> set as. fst a \<noteq> 0 \<and> (snd a = SSL_ERROR_WANT_READ \<or> snd a = SSL_ERROR_WANT_WRITE)"
  shows "accept_loop (as @ (1, SSL_ERROR_NONE) # bs) = Some (Suc (length as))
    \<and> accept_loop (as @ (0, e) # bs) = Some (Suc (length as))
    \<and> accept_loop (as @ (- 1, SSL_ERROR_SSL) # bs) = Some (Suc (length as))
    \<and> accept_tls 1 SSL_ERROR_NONE = Some (- 1) \<and> accept_tls 0 e = Some 0 \<and> connect_tls 0 e = Some False"
  using assms by (simp add: accept_loop_eq accept_tls_eq connect_tls_def)

theorem handshake_outcome_ignored_witness:
  "accept_loop [(- 1, SSL_ERROR_WANT_READ), (0, SSL_ERROR_ZERO_RETURN)] = Some 2"
  using handshake_outcome_ignored [of "[(- 1, SSL_ERROR_WANT_READ)]" "[]" SSL_ERROR_ZERO_RETURN] by simp

end
