(* ===== verification/Sockets.thy ===== *)
theory Sockets
  imports Files Tls
begin

section \<open>Sockets: reading a request, writing a response in chunks (sockets.c, sockets.h)\<close>

text \<open>
  A connection is the socket structure and the wire, the bytes the peer's end was given so far.
  What the system call \<open>write\<close> (or \<open>SSL_write\<close>) answers is an argument: \<open>kw t n l\<close> is its
  answer to the \<open>n\<close>th call, asked to write \<open>l\<close> bytes, on a TLS connection when \<open>t\<close> holds.  An
  answer is negative for any failure (a full socket buffer included, since the descriptor does
  not block), and otherwise the number of bytes taken from the front.  The answers of \<open>read\<close> are
  a list.
\<close>

record socket =
  sfd :: reg
  stls :: bool
  sbuf :: str
  shost :: str
  speer :: "32 word"
  sport :: int
  sclosed :: bool

record wire =
  sent :: string
  writes :: nat

type_synonym conn = "socket \<times> wire"
type_synonym kernel = "bool \<Rightarrow> nat \<Rightarrow> int \<Rightarrow> int"

definition MAX_WRITE_SIZE :: int where
  "MAX_WRITE_SIZE = 1460"

definition Max_Buffer_Size :: int where
  "Max_Buffer_Size = 4000"

subsection \<open>Addresses (hostnames.c)\<close>

text \<open>The address a connection comes from: \<open>struct sockaddr_in\<close>, as far as it is used.\<close>

record sockaddr =
  sin_addr :: "32 word"
  sin_port :: int

definition attachTo :: "32 word \<Rightarrow> int \<Rightarrow> sockaddr" where
  "attachTo addr port = \<lparr>sin_addr = addr, sin_port = (port mod 256) * 256 + (port div 256) mod 256\<rparr>"

definition ipaddress :: "32 word \<Rightarrow> int \<Rightarrow> str option" where
  "ipaddress addr port = fmt ''%i.%i.%i.%i:%i''
     [AReg (ucast (and 0xff addr)), AReg (ucast (drop_bit 8 (and 0xff00 addr))),
      AReg (ucast (drop_bit 16 (and 0xff0000 addr))), AReg (ucast (drop_bit 24 (and 0xff000000 addr))),
      AReg (of_int port)]"

definition socket_peer :: "socket \<Rightarrow> str option" where
  "socket_peer sc = ipaddress (speer sc) (sport sc)"

subsection \<open>Making sockets\<close>

definition resume_socket :: "socket \<Rightarrow> socket" where
  "resume_socket sc = sc\<lparr>shost := None, sbuf := None, sclosed := False\<rparr>"

definition create_socket :: "reg \<Rightarrow> bool \<Rightarrow> sockaddr \<Rightarrow> socket" where
  "create_socket fd tls addr = resume_socket
     \<lparr>sfd = fd, stls = tls, sbuf = None, shost = None, speer = sin_addr addr, sport = sin_port addr, sclosed = False\<rparr>"

text \<open>\<open>accept_socket\<close>: the answer of \<open>accept\<close> is converted to an unsigned \<open>reg\<close> before it is
  compared with 1.  The options that it sets on the descriptor are in \<open>Descriptors\<close>.  On a TLS port the
  handshake is tried with the answers \<open>hs\<close>; how it ends is not looked at.\<close>

definition accept_socket :: "int \<Rightarrow> sockaddr \<Rightarrow> bool \<Rightarrow> (int \<times> ssl_error) list \<Rightarrow> socket option option" where
  "accept_socket answer addr tls hs = (let sock = (of_int answer :: reg) in
     if sock < 1 then do { _ \<leftarrow> error_log ''[JAWAS] failed to accept socket'' []; Some None }
     else do {
       let retval = create_socket sock tls addr;
       _ \<leftarrow> (if tls then accept_loop hs else Some 0);
       Some (Some retval) })"

definition socket_attach :: "socket \<Rightarrow> 32 word \<Rightarrow> int \<Rightarrow> socket" where
  "socket_attach sc peer port = sc\<lparr>speer := peer, sport := port\<rparr>"

subsection \<open>Reading\<close>

datatype answer = Data string | Zero | Again | Fail int

text \<open>The loop of \<open>read_socket\<close> on the buffer it makes.  An answer of 0 fails the loop condition, so
  the test for 0 inside the loop is never reached; a script of answers that ends while the loop
  still reads has no result.\<close>

fun read_loop :: "answer list \<Rightarrow> string \<Rightarrow> (str \<times> str) option" where
  "read_loop [] buf = None"
| "read_loop (Data xs # as) buf =
     (if int (length xs) \<le> Max_Buffer_Size then read_loop as (buf @ xs) else None)"
| "read_loop (Zero # as) buf = Some (view buf [], view buf [])"
| "read_loop (Again # as) buf = Some (view buf [], view buf [])"
| "read_loop (Fail errno # as) buf = do {
     _ \<leftarrow> error_log ''ERROR %i occured'' [AReg (of_int errno)];
     Some (None, view buf []) }"

definition read_socket :: "answer list \<Rightarrow> socket \<Rightarrow> (str \<times> socket) option" where
  "read_socket as sc = do {
     b \<leftarrow> (if sbuf sc \<noteq> None then clone (sbuf sc) else Some (blank 0));
     (r, b') \<leftarrow> read_loop as (chars_of b);
     Some (r, sc\<lparr>sbuf := b'\<rparr>) }"

subsection \<open>Writing\<close>

text \<open>A negative length reaches the system as it is; it is for the system to refuse it.\<close>

definition write_to_socket :: "kernel \<Rightarrow> string \<Rightarrow> int \<Rightarrow> conn \<Rightarrow> (int \<times> conn) option" where
  "write_to_socket kw data l c = (case c of (sc, w) \<Rightarrow>
     if sclosed sc then Some (0, c)
     else let r = kw (stls sc) (writes w) l in
       if r < 0 then Some (0, (sc\<lparr>sclosed := True\<rparr>, w\<lparr>writes := writes w + 1\<rparr>))
       else do {
         d \<leftarrow> fetch_bytes data l;
         Some (r, (sc, \<lparr>sent = sent w @ take (nat r) d, writes = writes w + 1\<rparr>)) })"

text \<open>A NULL socket is answered with 0 by the functions that test for it.\<close>

definition with_socket :: "(conn \<Rightarrow> (int \<times> conn) option) \<Rightarrow> conn option \<Rightarrow> (int \<times> conn option) option" where
  "with_socket f sc = (case sc of None \<Rightarrow> Some (0, None)
     | Some c \<Rightarrow> do { (r, c') \<leftarrow> f c; Some (r, Some c') })"

text \<open>\<open>write_socket\<close> behind its test of the socket, and the function itself.\<close>

definition write_str :: "kernel \<Rightarrow> str \<Rightarrow> conn \<Rightarrow> (int \<times> conn) option" where
  "write_str kw buf c = (case buf of None \<Rightarrow> Some (0, c)
     | Some b \<Rightarrow> write_to_socket kw (sdata b) (slen b) c)"

definition write_socket :: "kernel \<Rightarrow> str \<Rightarrow> conn option \<Rightarrow> (int \<times> conn option) option" where
  "write_socket kw buf = with_socket (write_str kw buf)"

definition write_chunk :: "kernel \<Rightarrow> string option \<Rightarrow> int \<Rightarrow> conn \<Rightarrow> (int \<times> conn) option" where
  "write_chunk kw data l c = do {
     header \<leftarrow> fmt (''%h'' @ CRLF) [AReg (of_int l)];
     (case header of None \<Rightarrow> None | Some h \<Rightarrow> do {
        (_, c) \<leftarrow> write_to_socket kw (sdata h) (slen h) c;
        (retval, c) \<leftarrow> (case data of None \<Rightarrow> Some (0, c) | Some d \<Rightarrow> write_to_socket kw d l c);
        (_, c) \<leftarrow> write_to_socket kw (CRLF @ [NUL]) 2 c;
        Some (retval, c) }) }"

function write_chunks_loop :: "kernel \<Rightarrow> str_struct \<Rightarrow> int \<Rightarrow> int \<Rightarrow> conn \<Rightarrow> (int \<times> conn) option" where
  "write_chunks_loop kw buf i retval c =
     (if i < slen buf
      then do {
        d \<leftarrow> ptr_add (sdata buf) i;
        (r, c) \<leftarrow> write_chunk kw (Some d) (min MAX_WRITE_SIZE (slen buf - i)) c;
        write_chunks_loop kw buf (i + MAX_WRITE_SIZE) (retval + r) c }
      else Some (retval, c))"
  by pat_completeness auto
termination
  by (relation "measure (\<lambda>(kw, buf, i, retval, c). nat (slen buf - i))") (auto simp: MAX_WRITE_SIZE_def)

declare write_chunks_loop.simps [simp del]

definition write_chunked_socket :: "kernel \<Rightarrow> str \<Rightarrow> conn option \<Rightarrow> (int \<times> conn option) option" where
  "write_chunked_socket kw buf = with_socket (\<lambda>c. case buf of None \<Rightarrow> None
     | Some b \<Rightarrow> write_chunks_loop kw b 0 0 c)"

definition send_contents :: "kernel \<Rightarrow> str \<Rightarrow> bool \<Rightarrow> conn option \<Rightarrow> (int \<times> conn option) option" where
  "send_contents kw buf chunked sc =
     (if sc = None \<or> buf = None then Some (0, sc)
      else if chunked then write_chunked_socket kw buf sc else write_socket kw buf sc)"

definition write_raw_socket :: "kernel \<Rightarrow> string \<Rightarrow> int \<Rightarrow> conn \<Rightarrow> (int \<times> conn) option" where
  "write_raw_socket kw data l c = do {
     (r, c) \<leftarrow> write_to_socket kw data l c;
     Some (if r < 0 then (0, (fst c)\<lparr>sclosed := True\<rparr>, snd c) else (r, c)) }"

definition write_raw_chunked_socket :: "kernel \<Rightarrow> string \<Rightarrow> int \<Rightarrow> conn \<Rightarrow> (int \<times> conn) option" where
  "write_raw_chunked_socket kw data l c = do {
     (r, c) \<leftarrow> write_chunk kw (Some data) l c;
     Some (if r < 0 then (0, (fst c)\<lparr>sclosed := True\<rparr>, snd c) else (r, c)) }"

text \<open>\<open>send_raw_contents\<close> behind its tests, and the function itself.  The number of bytes that are
  left is an \<open>off_t\<close>, and \<open>min\<close> of str.c takes \<open>int\<close>s.\<close>

definition send_raw :: "kernel \<Rightarrow> file_cache \<Rightarrow> int \<Rightarrow> bool \<Rightarrow> conn \<Rightarrow> (int \<times> conn) option" where
  "send_raw kw fc off chunked c = do {
     d \<leftarrow> ptr_add (fdata fc) off;
     let l = min (wrap32 (fsize fc - off)) MAX_WRITE_SIZE;
     (if chunked then write_raw_chunked_socket kw d l c else write_raw_socket kw d l c) }"

definition send_raw_contents :: "kernel \<Rightarrow> File \<Rightarrow> int \<Rightarrow> bool \<Rightarrow> conn option \<Rightarrow> (int \<times> conn option) option" where
  "send_raw_contents kw fc off chunked = with_socket (\<lambda>c. case fc of None \<Rightarrow> Some (0, c)
     | Some f \<Rightarrow> send_raw kw f off chunked c)"

text \<open>The message has two conversions and one argument; what the second one prints is left over in
  a register, \<open>junk\<close>.\<close>

definition closed_socket :: "reg \<Rightarrow> socket \<Rightarrow> string \<Rightarrow> bool option" where
  "closed_socket junk sc msg =
     (if sclosed sc
      then do { _ \<leftarrow> error_log ''%c : Socket<%p>'' [AChars msg, AReg junk]; Some True }
      else Some False)"

definition socket_notice :: "reg \<Rightarrow> socket \<Rightarrow> string \<Rightarrow> unit option" where
  "socket_notice addr sc msg = do {
     p \<leftarrow> socket_peer sc;
     notice_log (''Socket <%p> %s %c'' @ [LF]) [AReg addr, AStr p, AChars msg] }"

end
