(* ===== verification/Sockets_Props.thy ===== *)
theory Sockets_Props
  imports Sockets "HOL-Library.Sublist"
begin

section \<open>What a peer receives\<close>

text \<open>
  The chunked encoding that the socket layer writes, against a decoder written from its
  definition in the HTTP/1.1 specification; what a short write or a failed write does to it; and
  what a read that finds the end of the stream returns.
\<close>

subsection \<open>The chunked transfer encoding\<close>

text \<open>The decoder: hexadecimal length, line break, that many bytes, line break, until a chunk of
  length zero; the payload and what follows it.\<close>

function unchunk :: "string \<Rightarrow> (string \<times> string) option" where
  "unchunk xs =
     (let h = takeWhile is_hex xs; r = dropWhile is_hex xs; body = drop 2 r; n = nat (hex_val h) in
      if h = [] \<or> take 2 r \<noteq> CRLF then None
      else if n = 0 then (if take 2 body = CRLF then Some ([], drop 2 body) else None)
      else if take 2 (drop n body) \<noteq> CRLF then None
      else do { (p, rest) \<leftarrow> unchunk (drop (n + 2) body); Some (take n body @ p, rest) })"
  by pat_completeness auto
termination
proof (relation "measure length", goal_cases)
  case (2 xs h r body n)
  then have "length r < length xs"
    by (metis length_append length_greater_0_conv less_add_same_cancel2 takeWhile_dropWhile_id)
  with 2 show ?case by simp
qed simp

declare unchunk.simps [simp del]

definition chunk :: "string \<Rightarrow> string" where
  "chunk d = chars_of (hex_str (of_nat (length d))) @ CRLF @ d @ CRLF"

function chunks :: "string \<Rightarrow> string" where
  "chunks xs = (if xs = [] then [] else chunk (take 1460 xs) @ chunks (drop 1460 xs))"
  by pat_completeness auto
termination
  by (relation "measure length") auto

declare chunks.simps [simp del]

lemma is_hex_CR [simp]: "\<not> is_hex CR" "\<not> is_hex LF"
  by (simp_all add: is_hex_def is_digit_def byte_simps)

lemma hex_length:
  assumes "length d < 2 ^ 64"
  obtains h where "chars_of (hex_str (of_nat (length d))) = h" "h \<noteq> []" "\<forall>c \<in> set h. is_hex c"
    "nat (hex_val h) = length d"
proof -
  obtain h where h: "hex_str (of_nat (length d) :: reg) = view h []" "\<forall>c \<in> set h. is_hex c"
    "hex_val h = uint (of_nat (length d) :: reg)" "length h = printed_digits 16 (unat (of_nat (length d) :: reg))"
    using hex_str_view [of "of_nat (length d)"] .
  have u: "unat (of_nat (length d) :: reg) = length d"
    unfolding unat_of_nat using assms by simp
  have v: "nat (hex_val h) = length d" unfolding h(3) using u by (simp only: unat_eq_nat_uint)
  have "0 < length h" unfolding h(4) printed_digits_def by simp
  then have "h \<noteq> []" by simp
  moreover have "chars_of (hex_str (of_nat (length d) :: reg)) = h" unfolding h(1) by (rule chars_of_view)
  ultimately show ?thesis using h(2) v by (intro that)
qed

lemma unchunk_chunk:
  assumes "d \<noteq> []" "length d < 2 ^ 64"
  shows "unchunk (chunk d @ rest) = do { (p, r) \<leftarrow> unchunk rest; Some (d @ p, r) }"
proof -
  obtain h where h: "chars_of (hex_str (of_nat (length d))) = h" "h \<noteq> []" "\<forall>c \<in> set h. is_hex c"
    "nat (hex_val h) = length d" using hex_length [OF assms(2)] .
  have "takeWhile is_hex (chunk d @ rest) = h" "dropWhile is_hex (chunk d @ rest) = CRLF @ d @ CRLF @ rest"
    using h(3) by (simp_all add: chunk_def h(1))
  then show ?thesis using h(2,4) assms(1) by (subst unchunk.simps) (simp add: Let_def)
qed

lemma unchunk_last: "unchunk (chunk [] @ rest) = Some ([], rest)"
proof -
  obtain h where h: "chars_of (hex_str (of_nat (length ([] :: string)))) = h" "h \<noteq> []" "\<forall>c \<in> set h. is_hex c"
    "nat (hex_val h) = length ([] :: string)" using hex_length [of "[]"] by (metis list.size(3) zero_less_numeral zero_less_power)
  have "takeWhile is_hex (chunk [] @ rest) = h" "dropWhile is_hex (chunk [] @ rest) = CRLF @ CRLF @ rest"
    using h(3) by (simp_all add: chunk_def h(1) [simplified])
  then show ?thesis using h(2,4) by (subst unchunk.simps) (simp add: Let_def)
qed

lemma unchunk_chunks: "unchunk (chunks xs @ chunk [] @ rest) = Some (xs, rest)"
proof (induction xs rule: chunks.induct)
  case (1 xs)
  show ?case
  proof (cases "xs = []")
    case True
    then show ?thesis by (subst chunks.simps) (simp add: unchunk_last)
  next
    case False
    moreover have "length (take 1460 xs) < 2 ^ 64" by simp
    ultimately show ?thesis
      using "1.IH" [OF False] unchunk_chunk [of "take 1460 xs"] by (subst chunks.simps) simp
  qed
qed

subsection \<open>Writing a chunk\<close>

lemma write_to_open:
  assumes "\<not> sclosed sc" "0 \<le> kw (stls sc) (writes w) (int (length d))"
    "kw (stls sc) (writes w) (int (length d)) = k"
  shows "write_to_socket kw (d @ e) (int (length d)) (sc, w)
    = Some (k, (sc, \<lparr>sent = sent w @ take (nat k) d, writes = writes w + 1\<rparr>))"
  using assms by (simp add: write_to_socket_def)

lemma write_to_closed [simp]: "sclosed sc \<Longrightarrow> write_to_socket kw d l (sc, w) = Some (0, (sc, w))"
  by (simp add: write_to_socket_def)

lemma fmt_chunk_header:
  "fmt (''%h'' @ CRLF) [AReg x] = Some (lit (chars_of (hex_str x) @ CRLF))"
  by (simp add: fmt_def new_str_def)

lemma write_chunk_short:
  assumes "\<not> sclosed sc"
    "kw (stls sc) (writes w) (int (length (chars_of (hex_str (of_nat (length d)))) + 2))
       = int (length (chars_of (hex_str (of_nat (length d)))) + 2)"
    "kw (stls sc) (writes w + 1) (int (length d)) = k" "0 \<le> k"
    "kw (stls sc) (writes w + 2) 2 = 2"
  shows "\<exists>n. write_chunk kw (Some (d @ e)) (int (length d)) (sc, w) = Some (k, (sc,
      \<lparr>sent = sent w @ chars_of (hex_str (of_nat (length d))) @ CRLF @ take (nat k) d @ CRLF, writes = n\<rparr>))"
proof -
  let ?h = "chars_of (hex_str (of_nat (length d))) @ CRLF"
  have h: "write_to_socket kw (?h @ [NUL]) (int (length ?h)) (sc, w)
      = Some (int (length ?h), (sc, \<lparr>sent = sent w @ ?h, writes = writes w + 1\<rparr>))"
    using write_to_open [of sc kw w ?h "int (length ?h)" "[NUL]"] assms(1,2) by (simp add: ac_simps)
  have b: "write_to_socket kw (d @ e) (int (length d)) (sc, \<lparr>sent = x, writes = writes w + 1\<rparr>)
      = Some (k, (sc, \<lparr>sent = x @ take (nat k) d, writes = writes w + 2\<rparr>))" for x
    using write_to_open [of sc kw "\<lparr>sent = x, writes = writes w + 1\<rparr>" d k e] assms(1,3,4) by simp
  have c: "write_to_socket kw (CRLF @ [NUL]) 2 (sc, \<lparr>sent = x, writes = writes w + 2\<rparr>)
      = Some (2, (sc, \<lparr>sent = x @ CRLF, writes = writes w + 3\<rparr>))" for x
    using write_to_open [of sc kw "\<lparr>sent = x, writes = writes w + 2\<rparr>" CRLF 2 "[NUL]"] assms(1,5) by simp
  have "fmt (''%h'' @ CRLF) [AReg (of_int (int (length d)))] = Some (lit ?h)"
    using fmt_chunk_header [of "of_nat (length d)"] by simp
  then show ?thesis
    using h b c by (simp add: write_chunk_def view_def)
qed

text \<open>A chunk is framed by its announced length and two line breaks, whatever part of its data
  the system takes: after a short write the announced length is larger than the number of bytes
  that follow it, and the function returns that number.\<close>

theorem write_chunk_frame:
  assumes "\<not> sclosed sc"
    "kw (stls sc) (writes w) (int (length (chars_of (hex_str (of_nat (length d)))) + 2))
       = int (length (chars_of (hex_str (of_nat (length d)))) + 2)"
    "kw (stls sc) (writes w + 1) (int (length d)) = k" "0 \<le> k"
    "kw (stls sc) (writes w + 2) 2 = 2"
  shows "\<exists>n. write_chunk kw (Some (d @ e)) (int (length d)) (sc, w) = Some (k, (sc,
      \<lparr>sent = sent w @ chars_of (hex_str (of_nat (length d))) @ CRLF @ take (nat k) d @ CRLF, writes = n\<rparr>))"
  using assms by (rule write_chunk_short)

theorem write_chunk_frame_witness:
  "\<exists>n. write_chunk (\<lambda>t n l. if n = 1 then 2 else l) (Some (''abc'' @ [])) (int (length ''abc''))
      (create_socket 5 False \<lparr>sin_addr = 1, sin_port = 80\<rparr>, \<lparr>sent = [], writes = 0\<rparr>)
    = Some (2, (create_socket 5 False \<lparr>sin_addr = 1, sin_port = 80\<rparr>,
      \<lparr>sent = [] @ chars_of (hex_str (of_nat (length ''abc''))) @ CRLF @ take (nat 2) ''abc'' @ CRLF, writes = n\<rparr>))"
  using write_chunk_frame [of "create_socket 5 False \<lparr>sin_addr = 1, sin_port = 80\<rparr>" "\<lambda>t n l. if n = 1 then 2 else l"
      "\<lparr>sent = [], writes = 0\<rparr>" "''abc''" 2 "[]"]
  by (simp add: create_socket_def resume_socket_def)

subsection \<open>What a system that writes all or nothing delivers\<close>

text \<open>A system that takes everything it is given, and one that may also fail.\<close>

definition complete :: "kernel \<Rightarrow> bool" where
  "complete kw \<longleftrightarrow> (\<forall>t n l. 0 \<le> l \<longrightarrow> kw t n l = l)"

definition whole_writes :: "kernel \<Rightarrow> bool" where
  "whole_writes kw \<longleftrightarrow> (\<forall>t n l. 0 \<le> l \<longrightarrow> kw t n l = l \<or> kw t n l < 0)"

lemma complete_whole: "complete kw \<Longrightarrow> whole_writes kw"
  by (simp add: complete_def whole_writes_def)

text \<open>Of the bytes \<open>out\<close> that are written to the connection \<open>c\<close> the peer gets all, or those before the
  write that failed; a closed connection stays as it is.\<close>

definition delivers :: "kernel \<Rightarrow> conn \<Rightarrow> string \<Rightarrow> conn \<Rightarrow> bool" where
  "delivers kw c out c' \<longleftrightarrow> (if sclosed (fst c) then c' = c
     else fst c' = (fst c)\<lparr>sclosed := sclosed (fst c')\<rparr> \<and> (\<exists>p. sent (snd c') = sent (snd c) @ p \<and> prefix p out
       \<and> (if sclosed (fst c') then \<not> complete kw else p = out)))"

lemma delivers_Nil [simp]: "delivers kw c [] c"
  by (simp add: delivers_def)

lemma delivers_closed: "sclosed (fst c) \<Longrightarrow> delivers kw c out c"
  by (simp add: delivers_def)

lemma delivers_open: "delivers kw c out c' \<Longrightarrow> \<not> sclosed (fst c') \<Longrightarrow> \<not> sclosed (fst c)"
  by (auto simp: delivers_def split: if_splits)

lemma delivers_append:
  assumes "delivers kw c a c1" "delivers kw c1 b c2"
  shows "delivers kw c (a @ b) c2"
proof (cases "sclosed (fst c1)")
  case True
  with assms have "c2 = c1" by (simp add: delivers_def)
  with assms(1) True show ?thesis by (auto simp: delivers_def split: if_splits)
next
  case False
  with assms(1) have c1: "\<not> sclosed (fst c)" "fst c1 = (fst c)\<lparr>sclosed := False\<rparr>" "sent (snd c1) = sent (snd c) @ a"
    by (auto simp: delivers_def split: if_splits)
  obtain p where p: "fst c2 = (fst c1)\<lparr>sclosed := sclosed (fst c2)\<rparr>" "sent (snd c2) = sent (snd c1) @ p" "prefix p b"
    "if sclosed (fst c2) then \<not> complete kw else p = b"
    using assms(2) False by (auto simp: delivers_def)
  have "fst c2 = (fst c)\<lparr>sclosed := sclosed (fst c2)\<rparr>" using p(1) unfolding c1(2) by simp
  then show ?thesis
    using c1 p(2-4) unfolding delivers_def by (auto intro!: exI [of _ "a @ p"])
qed

lemma delivers_complete:
  assumes "complete kw" "\<not> sclosed sc" "delivers kw (sc, w) out c'"
  obtains n where "c' = (sc, \<lparr>sent = sent w @ out, writes = n\<rparr>)"
proof -
  obtain sc' w' where c': "c' = (sc', w')" by (cases c')
  with assms have "sc' = sc\<lparr>sclosed := False\<rparr>" "sent w' = sent w @ out" by (auto simp: delivers_def split: if_splits)
  moreover have "sc\<lparr>sclosed := False\<rparr> = sc" using assms(2) by (cases sc) simp
  moreover have "w' = \<lparr>sent = sent w', writes = writes w'\<rparr>" by simp
  ultimately show ?thesis using that [of "writes w'"] c' by metis
qed

lemma write_delivers:
  assumes "whole_writes kw"
  obtains r c' where "write_to_socket kw (xs @ ys) (int (length xs)) c = Some (r, c')" "delivers kw c xs c'"
    "sclosed (fst c') \<or> r = int (length xs)"
proof -
  obtain sc w where c: "c = (sc, w)" by (cases c)
  have k: "kw t n (int (length xs)) = int (length xs) \<or> kw t n (int (length xs)) < 0" for t n
    using assms by (simp add: whole_writes_def)
  have nc: "kw t n (int (length xs)) < 0 \<Longrightarrow> \<not> complete kw" for t n
    unfolding complete_def by (metis not_less of_nat_0_le_iff)
  show ?thesis
  proof (cases "sclosed sc")
    case True
    then show ?thesis using that [of 0 c] by (simp add: c delivers_def)
  next
    case False
    then show ?thesis using k [of "stls sc" "writes w"] nc [of "stls sc" "writes w"] that
      by (auto simp: c write_to_socket_def delivers_def Let_def)
  qed
qed

lemma write_chunk_delivers:
  assumes "whole_writes kw"
  obtains r c' where "write_chunk kw (Some (d @ e)) (int (length d)) c = Some (r, c')" "delivers kw c (chunk d) c'"
    "sclosed (fst c') \<or> r = int (length d)"
proof -
  let ?h = "chars_of (hex_str (of_nat (length d))) @ CRLF"
  obtain r1 c1 where 1: "write_to_socket kw (?h @ [NUL]) (int (length ?h)) c = Some (r1, c1)" "delivers kw c ?h c1"
    using write_delivers [OF assms] .
  obtain r2 c2 where 2: "write_to_socket kw (d @ e) (int (length d)) c1 = Some (r2, c2)" "delivers kw c1 d c2"
    "sclosed (fst c2) \<or> r2 = int (length d)" using write_delivers [OF assms] .
  obtain r3 c3 where 3: "write_to_socket kw (CRLF @ [NUL]) (int (length CRLF)) c2 = Some (r3, c3)" "delivers kw c2 CRLF c3"
    using write_delivers [OF assms] .
  have "fmt (''%h'' @ CRLF) [AReg (of_int (int (length d)))] = Some (lit ?h)"
    using fmt_chunk_header [of "of_nat (length d)"] by simp
  then have "write_chunk kw (Some (d @ e)) (int (length d)) c = Some (r2, c3)"
    using 1(1) 2(1) 3(1) by (simp add: write_chunk_def view_def)
  moreover have "delivers kw c (chunk d) c3"
    using delivers_append [OF delivers_append [OF 1(2) 2(2)] 3(2)] by (simp add: chunk_def)
  moreover have "sclosed (fst c3) \<or> r2 = int (length d)" using 2(3) delivers_open [OF 3(2)] by blast
  ultimately show ?thesis by (rule that)
qed

text \<open>The number of bytes that is returned is never more than was asked for.\<close>

lemma write_to_range:
  assumes "write_to_socket kw d l c = Some (r, c')" "whole_writes kw" "0 \<le> l"
  shows "0 \<le> r \<and> r \<le> l"
proof -
  have "kw t n l = l \<or> kw t n l < 0" for t n using assms(2,3) by (simp add: whole_writes_def)
  with assms(1,3) show ?thesis
    by (cases c) (auto simp: write_to_socket_def Let_def bind_Some_iff order_le_less split: if_splits)
qed

lemma write_chunk_range:
  assumes "write_chunk kw (Some d) l c = Some (r, c')" "whole_writes kw" "0 \<le> l"
  shows "0 \<le> r \<and> r \<le> l"
  using assms(1) write_to_range [OF _ assms(2,3)] unfolding write_chunk_def
  by (auto simp: bind_Some_iff split: option.splits)

lemma write_last_chunk:
  assumes "whole_writes kw"
  obtains c' where "write_chunk kw None 0 c = Some (0, c')" "delivers kw c (chunk []) c'"
proof -
  let ?h = "chars_of (hex_str 0) @ CRLF"
  obtain r1 c1 where 1: "write_to_socket kw (?h @ [NUL]) (int (length ?h)) c = Some (r1, c1)" "delivers kw c ?h c1"
    using write_delivers [OF assms] .
  obtain r3 c3 where 3: "write_to_socket kw (CRLF @ [NUL]) (int (length CRLF)) c1 = Some (r3, c3)" "delivers kw c1 CRLF c3"
    using write_delivers [OF assms] .
  have "write_chunk kw None 0 c = Some (0, c3)"
    using 1(1) 3(1) fmt_chunk_header [of 0] by (simp add: write_chunk_def view_def)
  moreover have "delivers kw c (chunk []) c3"
    using delivers_append [OF 1(2) 3(2)] by (simp add: chunk_def)
  ultimately show ?thesis by (rule that)
qed

lemma write_chunks_delivers:
  assumes "whole_writes kw"
  shows "\<exists>r' c'. write_chunks_loop kw \<lparr>slen = int (length (ps @ xs)), sdata = (ps @ xs) @ ys\<rparr> (int (length ps)) r c
      = Some (r', c') \<and> delivers kw c (chunks xs) c' \<and> (sclosed (fst c') \<or> r' = r + int (length xs))"
proof (induction xs arbitrary: ps r c rule: chunks.induct)
  case (1 xs)
  let ?b = "\<lparr>slen = int (length (ps @ xs)), sdata = (ps @ xs) @ ys\<rparr>"
  show ?case
  proof (cases "xs = []")
    case True
    then show ?thesis by (subst write_chunks_loop.simps, subst chunks.simps) auto
  next
    case False
    let ?d = "take 1460 xs" and ?e = "drop 1460 xs"
    have m: "min MAX_WRITE_SIZE (int (length (ps @ xs)) - int (length ps)) = int (length ?d)"
      by (simp add: MAX_WRITE_SIZE_def)
    have p: "ptr_add ((ps @ xs) @ ys) (int (length ps)) = Some (xs @ ys)" by simp
    obtain r1 c1 where c: "write_chunk kw (Some (?d @ ?e @ ys)) (int (length ?d)) c = Some (r1, c1)" "delivers kw c (chunk ?d) c1"
      "sclosed (fst c1) \<or> r1 = int (length ?d)" using write_chunk_delivers [OF assms] .
    have "?d @ ?e @ ys = xs @ ys" by simp
    with c(1) have step: "write_chunks_loop kw ?b (int (length ps)) r c
      = write_chunks_loop kw ?b (int (length ps) + MAX_WRITE_SIZE) (r + r1) c1"
      using False m p by (subst write_chunks_loop.simps) simp
    have split: "chunks xs = chunk ?d @ chunks ?e" using False by (subst chunks.simps) simp
    have "\<exists>r' c'. write_chunks_loop kw ?b (int (length ps) + MAX_WRITE_SIZE) (r + r1) c1 = Some (r', c')
      \<and> delivers kw c1 (chunks ?e) c' \<and> (sclosed (fst c') \<or> r' = r + r1 + int (length ?e))"
    proof (cases "length xs \<le> 1460")
      case True
      then show ?thesis by (subst write_chunks_loop.simps) (simp add: MAX_WRITE_SIZE_def chunks.simps [of "[]"])
    next
      case 2: False
      have b: "?b = \<lparr>slen = int (length ((ps @ ?d) @ ?e)), sdata = ((ps @ ?d) @ ?e) @ ys\<rparr>"
        "int (length ps) + MAX_WRITE_SIZE = int (length (ps @ ?d))"
        using 2 by (simp_all add: MAX_WRITE_SIZE_def)
      show ?thesis using "1.IH" [OF False, of "ps @ ?d" "r + r1" c1] unfolding b .
    qed
    then obtain r' c' where r': "write_chunks_loop kw ?b (int (length ps)) r c = Some (r', c')" "delivers kw c1 (chunks ?e) c'"
      "sclosed (fst c') \<or> r' = r + r1 + int (length ?e)" unfolding step by blast
    have "delivers kw c (chunks xs) c'" unfolding split using c(2) r'(2) by (rule delivers_append)
    moreover have "sclosed (fst c') \<or> r' = r + int (length xs)" using r'(3) c(3) delivers_open [OF r'(2)] by auto
    ultimately show ?thesis using r'(1) by blast
  qed
qed

lemma write_chunked_delivers:
  assumes "whole_writes kw"
  obtains r c' where "write_chunked_socket kw (view xs ys) (Some c) = Some (r, Some c')" "delivers kw c (chunks xs) c'"
    "sclosed (fst c') \<or> r = int (length xs)"
  using write_chunks_delivers [OF assms, of "[]" xs ys 0 c] by (auto simp: write_chunked_socket_def with_socket_def)

text \<open>C17: On an open connection whose system takes whole writes, a string sent in chunks and closed
  by the empty chunk is decoded by the peer to exactly that string, and the number of bytes
  returned is its length.\<close>

theorem chunked_roundtrip:
  assumes "complete kw" "\<not> sclosed sc"
  shows "\<exists>w1 w2 s. write_chunked_socket kw (view xs ys) (Some (sc, w)) = Some (int (length xs), Some (sc, w1))
    \<and> write_chunk kw None 0 (sc, w1) = Some (0, (sc, w2))
    \<and> sent w2 = sent w @ s \<and> unchunk (s @ rest) = Some (xs, rest)"
proof -
  note whole = complete_whole [OF assms(1)]
  obtain r c1 where a: "write_chunked_socket kw (view xs ys) (Some (sc, w)) = Some (r, Some c1)" "delivers kw (sc, w) (chunks xs) c1"
    "sclosed (fst c1) \<or> r = int (length xs)" using write_chunked_delivers [OF whole] .
  obtain n where c1: "c1 = (sc, \<lparr>sent = sent w @ chunks xs, writes = n\<rparr>)" using delivers_complete [OF assms a(2)] .
  obtain c2 where b: "write_chunk kw None 0 c1 = Some (0, c2)" "delivers kw c1 (chunk []) c2" using write_last_chunk [OF whole] .
  obtain m where "c2 = (sc, \<lparr>sent = (sent w @ chunks xs) @ chunk [], writes = m\<rparr>)"
    using delivers_complete [OF assms b(2) [unfolded c1]] by auto
  with a b(1) c1 assms(2) unchunk_chunks [of xs rest] show ?thesis
    by (intro exI [of _ "snd c1"] exI [of _ "snd c2"] exI [of _ "chunks xs @ chunk []"]) simp
qed

theorem chunked_roundtrip_witness:
  "\<exists>w1 w2 s. write_chunked_socket (\<lambda>t n l. l) (lit ''hello'')
        (Some (create_socket 5 False \<lparr>sin_addr = 1, sin_port = 80\<rparr>, \<lparr>sent = [], writes = 0\<rparr>))
      = Some (int (length ''hello''), Some (create_socket 5 False \<lparr>sin_addr = 1, sin_port = 80\<rparr>, w1))
    \<and> write_chunk (\<lambda>t n l. l) None 0 (create_socket 5 False \<lparr>sin_addr = 1, sin_port = 80\<rparr>, w1)
      = Some (0, (create_socket 5 False \<lparr>sin_addr = 1, sin_port = 80\<rparr>, w2))
    \<and> sent w2 = sent \<lparr>sent = [], writes = 0\<rparr> @ s \<and> unchunk (s @ []) = Some (''hello'', [])"
  by (rule chunked_roundtrip) (simp_all add: complete_def create_socket_def resume_socket_def)

subsection \<open>Closed connections\<close>

lemma write_chunk_closed [simp]:
  "sclosed sc \<Longrightarrow> write_chunk kw d l (sc, w) = Some (0, (sc, w))"
  using fmt_chunk_header [of "of_int l"] by (simp add: write_chunk_def view_def split: option.splits)

lemma write_chunks_closed:
  assumes "sclosed sc" "0 \<le> i"
  shows "write_chunks_loop kw b i r (sc, w) = Some (r, (sc, w))"
  using assms
proof (induction "nat (slen b - i)" arbitrary: i rule: less_induct)
  case less
  show ?case
  proof (cases "i < slen b")
    case True
    then have "write_chunks_loop kw b (i + MAX_WRITE_SIZE) r (sc, w) = Some (r, (sc, w))"
      using less by (simp add: MAX_WRITE_SIZE_def)
    with True less.prems show ?thesis by (subst write_chunks_loop.simps) simp
  next
    case False
    then show ?thesis by (subst write_chunks_loop.simps) simp
  qed
qed

text \<open>The first write that fails closes the connection and takes no byte, and nothing that is
  written to a closed connection reaches the peer any more: every write answers 0.  A descriptor
  that does not block fails in this way when its buffer is full, so that a response larger than
  the buffer is cut off.\<close>

theorem failed_write_closes:
  assumes "\<not> sclosed sc" "kw (stls sc) (writes w) (int (length d)) < 0"
  shows "\<exists>sc' w'. write_to_socket kw (d @ e) (int (length d)) (sc, w) = Some (0, (sc', w'))
    \<and> sclosed sc' \<and> sent w' = sent w
    \<and> (\<forall>x l. write_to_socket kw x l (sc', w') = Some (0, (sc', w')))
    \<and> (\<forall>x l. write_chunk kw x l (sc', w') = Some (0, (sc', w')))
    \<and> (\<forall>xs ys. write_chunked_socket kw (view xs ys) (Some (sc', w')) = Some (0, Some (sc', w')))"
  using assms
  by (simp add: write_to_socket_def write_chunked_socket_def with_socket_def write_chunks_closed)

theorem failed_write_closes_witness:
  "\<exists>sc' w'. write_to_socket (\<lambda>t n l. - 1) ''abc'' 3
      (create_socket 5 False \<lparr>sin_addr = 1, sin_port = 80\<rparr>, \<lparr>sent = [], writes = 0\<rparr>) = Some (0, (sc', w'))
    \<and> sclosed sc' \<and> sent w' = []"
  using failed_write_closes [of "create_socket 5 False \<lparr>sin_addr = 1, sin_port = 80\<rparr>" "\<lambda>t n l. - 1"
      "\<lparr>sent = [], writes = 0\<rparr>" "''abc''" "[]"]
  by (auto simp: create_socket_def resume_socket_def)

text \<open>Whatever the system answers, a connection only ever gets more bytes.\<close>

lemma write_to_socket_grows:
  assumes "write_to_socket kw d l (sc, w) = Some (r, (sc', w'))"
  shows "\<exists>s. sent w' = sent w @ s" "sclosed sc \<Longrightarrow> sclosed sc'"
  using assms by (auto simp: write_to_socket_def bind_Some_iff Let_def split: if_splits)

subsection \<open>Reading\<close>

lemma read_loop_data:
  "\<forall>xs \<in> set xss. length xs \<le> 4000 \<Longrightarrow> read_loop (map Data xss @ as) buf = read_loop as (buf @ concat xss)"
  by (induction xss arbitrary: buf) (auto simp: Max_Buffer_Size_def)

text \<open>A read gathers everything that has arrived behind what was read before; it answers the end
  of the stream in the same way as a pause, and leaves the socket open: the code that would
  close it on a read of 0 bytes cannot be reached.\<close>

theorem read_to_end_of_stream:
  assumes "wf_str (sbuf sc)" "\<forall>xs \<in> set xss. length xs \<le> 4000"
  shows "read_socket (map Data xss @ Again # as) sc =
      Some (view (chars_of (sbuf sc) @ concat xss) [], sc\<lparr>sbuf := view (chars_of (sbuf sc) @ concat xss) []\<rparr>)
    \<and> read_socket (map Data xss @ Zero # bs) sc = read_socket (map Data xss @ Again # as) sc"
proof -
  have "\<exists>b. (if sbuf sc \<noteq> None then clone (sbuf sc) else Some (blank 0)) = Some b \<and> chars_of b = chars_of (sbuf sc)"
    using assms(1)
  proof (cases rule: wf_strE)
    case 1
    then show ?thesis by (simp add: blank_def chars_of_def)
  next
    case (2 xs ys)
    then show ?thesis by (simp add: clone_view)
  qed
  then show ?thesis
    using read_loop_data [OF assms(2)] by (auto simp: read_socket_def)
qed

theorem read_to_end_of_stream_witness:
  "read_socket [Data ''GET '', Data ''/'', Zero] (create_socket 5 False \<lparr>sin_addr = 1, sin_port = 80\<rparr>)
    = read_socket [Data ''GET '', Data ''/'', Again] (create_socket 5 False \<lparr>sin_addr = 1, sin_port = 80\<rparr>)"
  using read_to_end_of_stream [of "create_socket 5 False \<lparr>sin_addr = 1, sin_port = 80\<rparr>" "[''GET '', ''/'']" "[]" "[]"]
  by (simp add: create_socket_def resume_socket_def)

text \<open>The answers of a read that finds the bytes \<open>x\<close>: some data, and a pause or the end of the stream.\<close>

definition arrives :: "answer list \<Rightarrow> string \<Rightarrow> bool" where
  "arrives as x \<longleftrightarrow> (\<exists>xss. (\<forall>xs \<in> set xss. length xs \<le> 4000) \<and> concat xss = x
     \<and> (as = map Data xss @ [Again] \<or> as = map Data xss @ [Zero]))"

lemma arrives_Data: "length x \<le> 4000 \<Longrightarrow> arrives [Data x, Again] x"
  unfolding arrives_def by (intro exI [of _ "[x]"]) simp

lemma read_arrives:
  assumes "arrives as x" "wf_str (sbuf sc)"
  shows "read_socket as sc = Some (view (chars_of (sbuf sc) @ x) [], sc\<lparr>sbuf := view (chars_of (sbuf sc) @ x) []\<rparr>)"
proof -
  obtain xss where x: "\<forall>xs \<in> set xss. length xs \<le> 4000" "concat xss = x"
    "as = map Data xss @ [Again] \<or> as = map Data xss @ [Zero]" using assms(1) by (auto simp: arrives_def)
  show ?thesis
    using read_to_end_of_stream [OF assms(2) x(1), of "[]" "[]"] x(2,3) by auto
qed

text \<open>A failed \<open>accept\<close> is taken for a connection: its answer \<open>-1\<close> is compared with 1 as an
  unsigned number, so the caller gets an open socket on the descriptor \<open>2 ^ 64 - 1\<close>.\<close>

theorem accept_failure_unseen:
  "\<exists>sc. accept_socket (- 1) addr False hs = Some (Some sc) \<and> sfd sc = - 1 \<and> \<not> sclosed sc"
  by (simp add: accept_socket_def create_socket_def resume_socket_def Let_def)

end
