(* ===== verification/Requests.thy ===== *)
theory Requests
  imports Sockets Content Uri
begin

section \<open>Requests (requests.c, requests.h)\<close>

text \<open>
  A worker process reads one request from its connection: the bytes that have arrived, the
  header table once the head is complete, the position of the body and whether the body is
  complete.  The same structure describes a request that a page sends to another server.  Of the
  socket of a request or a response, which a worker has as the connection of its own, the structure
  keeps the descriptor, or \<open>None\<close> for NULL.  The
  address of the request structure, which some messages print, is the argument \<open>self\<close>.
\<close>

text \<open>A response (responses.h): the one a worker is sending, or the one that a page waits for.\<close>

record response =
  pheaders :: headers
  pcontents :: str
  praw :: File
  pstatus :: int
  prlength :: int
  pwritten :: int
  pbody :: int
  pdone :: bool
  pfd :: "reg option"

record request =
  qmethod :: str
  qhost :: str
  qpath :: str
  qport :: int
  qheaders :: headers
  qvars :: headers
  qcontents :: str
  qraw :: File
  qcb :: str
  qresponse :: "response option"
  qbody :: int
  qdone :: bool
  qwritten :: int
  qlength :: int
  qretries :: int
  qssl :: bool
  qfd :: "reg option"

subsection \<open>Making a request\<close>

definition request_port :: "request \<Rightarrow> int \<Rightarrow> request" where
  "request_port req port = req\<lparr>qport := port\<rparr>"

definition parse_host :: "request \<Rightarrow> str \<Rightarrow> (str \<times> request) option" where
  "parse_host req host =
     (if host = None then Some (None, req\<lparr>qport := 0, qhost := None\<rparr>)
      else do {
        h \<leftarrow> name_field host;
        let req = req\<lparr>qhost := h\<rparr>;
        p \<leftarrow> skip_fields host 0;
        port \<leftarrow> str_int p;
        let req = request_port req (if port \<noteq> 0 then port else 80);
        Some (qhost req, req) })"

definition new_request :: "str \<Rightarrow> str \<Rightarrow> str \<Rightarrow> request option" where
  "new_request meth host path = do {
     (_, req) \<leftarrow> parse_host \<lparr>qmethod = meth, qhost = None, qpath = None, qport = 0,
       qheaders = None, qvars = None, qcontents = None, qraw = None, qcb = None, qresponse = None, qbody = 0,
       qdone = False, qwritten = 0, qlength = 0, qretries = 0, qssl = False, qfd = None\<rparr> host;
     Some (req\<lparr>qpath := path, qheaders := new_headers, qvars := new_headers, qcontents := None,
       qraw := None, qcb := None, qresponse := None, qbody := 0, qdone := False, qwritten := 0, qlength := - 1,
       qretries := 0, qssl := False, qfd := None\<rparr>) }"

definition open_request :: "socket \<Rightarrow> request option" where
  "open_request sc = do { retval \<leftarrow> new_request None None None; Some (retval\<lparr>qfd := Some (sfd sc)\<rparr>) }"

definition request_headers :: "request \<Rightarrow> str \<Rightarrow> str \<Rightarrow> request option" where
  "request_headers req key val = do {
     t \<leftarrow> append_header (qheaders req) key val;
     Some (if qheaders req = None then req else req\<lparr>qheaders := t\<rparr>) }"

definition request_data :: "request \<Rightarrow> str \<Rightarrow> request option" where
  "request_data req chars =
     (if len chars > 0 then do { c \<leftarrow> append_str (qcontents req) chars; Some (req\<lparr>qcontents := c\<rparr>) }
      else Some req)"

definition request_file :: "request \<Rightarrow> File \<Rightarrow> request" where
  "request_file req fc = req\<lparr>qraw := fc\<rparr>"

definition request_ssl :: "request \<Rightarrow> request" where
  "request_ssl req = req\<lparr>qssl := True\<rparr>"

definition request_callback :: "request \<Rightarrow> response option \<Rightarrow> str \<Rightarrow> request" where
  "request_callback req resp cb = req\<lparr>qresponse := resp, qcb := cb\<rparr>"

subsection \<open>Reading a request\<close>

definition request_retry :: "reg \<Rightarrow> request \<Rightarrow> (int \<times> request) option" where
  "request_retry self req = do {
     _ \<leftarrow> error_log (''No request contents on request %i'' @ [LF]) [AReg self];
     let req = req\<lparr>qretries := qretries req + 1\<rparr>;
     _ \<leftarrow> debug_log ''retries %i'' [AReg (of_int (qretries req))];
     Some (- 1, req) }"

definition process_request_contents :: "reg \<Rightarrow> request \<Rightarrow> socket \<Rightarrow> (int \<times> request) option" where
  "process_request_contents self req sc = do {
     (h, b) \<leftarrow> parse_headers (qcontents req) (qbody req);
     let req = req\<lparr>qheaders := h, qbody := b\<rparr>;
     printed \<leftarrow> print_headers None (qheaders req);
     _ \<leftarrow> debug_log (''Headers:'' @ [LF] @ ''%s'') [AStr printed];
     (if qheaders req = None then do {
        _ \<leftarrow> error_log (''No request headers on request %i'' @ [LF]) [AReg self];
        Some (- 1, req) }
      else do {
        k \<leftarrow> fmt ''peer'' [];
        p \<leftarrow> socket_peer sc;
        req \<leftarrow> request_headers req k p;
        Some (0, req) }) }"

definition request_done :: "request \<Rightarrow> (bool \<times> request) option" where
  "request_done req = do {
     req \<leftarrow> (if qbody req \<noteq> 0 then do {
              n \<leftarrow> inbound_content_length (qcontents req) (qheaders req);
              Some (req\<lparr>qdone := len (qcontents req) - qbody req \<ge> n\<rparr>) }
            else Some req);
     Some (qdone req, req) }"

definition dechunk_request :: "request \<Rightarrow> request option" where
  "dechunk_request req = do {
     b \<leftarrow> is_chunked (qheaders req);
     (if \<not> b then Some req
      else do {
        hed \<leftarrow> from_str (qcontents req) 0 (qbody req);
        con \<leftarrow> dechunk (qcontents req);
        c \<leftarrow> append_str hed con;
        Some (req\<lparr>qcontents := c\<rparr>) }) }"

definition process_request :: "reg \<Rightarrow> answer list \<Rightarrow> request \<Rightarrow> socket \<Rightarrow> (int \<times> request \<times> socket) option" where
  "process_request self as req sc = do {
     (c, sc) \<leftarrow> read_socket as sc;
     let req = req\<lparr>qcontents := c\<rparr>;
     (if c = None then do { (r, req) \<leftarrow> request_retry self req; Some (r, req, sc) }
      else do {
        (r, req) \<leftarrow> (if qbody req = 0 then process_request_contents self req sc else Some (0, req));
        (if r \<noteq> 0 then Some (- 1, req, sc)
         else do {
           (d, req) \<leftarrow> request_done req;
           req \<leftarrow> (if d then dechunk_request req else Some req);
           Some (0, req, sc) }) }) }"

subsection \<open>The request line\<close>

text \<open>The second loop of \<open>parse_method\<close> has no bound: a request line without a blank is read for
  ever.\<close>

definition parse_method :: "request \<Rightarrow> (str \<times> request) option" where
  "parse_method req = (let tmp = qcontents req in
     if tmp = None then Some (None, req)
     else do {
       i \<leftarrow> scan_while isspace (at tmp) 0;
       e \<leftarrow> scan_while (\<lambda>c. \<not> isspace c) (at tmp) (i + 1);
       m \<leftarrow> from_str tmp i (e - i);
       Some (m, req\<lparr>qmethod := m\<rparr>) })"

text \<open>\<open>parse_path\<close> computes the end of the leading blanks and starts at 0 again.\<close>

definition parse_path :: "request \<Rightarrow> (str \<times> request) option" where
  "parse_path req = (let tmp = qcontents req in
     if tmp = None then Some (None, req)
     else do {
       _ \<leftarrow> scan_while isspace (at tmp) 0;
       i \<leftarrow> scan_while (\<lambda>c. c \<noteq> NUL \<and> \<not> isspace c) (at tmp) 0;
       i \<leftarrow> scan_while isspace (at tmp) i;
       e \<leftarrow> scan_while (\<lambda>c. c \<noteq> NUL \<and> \<not> isspace c \<and> c \<noteq> CHR ''?'') (at tmp) i;
       let req = req\<lparr>qvars := None\<rparr>;
       c \<leftarrow> at tmp e;
       req \<leftarrow> (if c = CHR ''?'' then do {
                q \<leftarrow> scan_while (\<lambda>c. \<not> isspace c) (at tmp) (e + 1);
                qs \<leftarrow> from_str tmp e (q - e);
                v \<leftarrow> parse_uri_encoded None qs 1;
                Some (req\<lparr>qvars := v\<rparr>) }
              else Some req);
       p \<leftarrow> from_str tmp i (e - i);
       Some (p, req\<lparr>qpath := p\<rparr>) })"

end
