(* ===== verification/Requests_Props.thy ===== *)
theory Requests_Props
  imports Requests Uri_Form Sockets_Props
begin

section \<open>What a worker makes of the bytes of a request\<close>

text \<open>
  The request line and the host field are split correctly, a request with a well-formed head is
  complete exactly when its body is; a request whose first bytes hold no line break, or whose
  head has no field, makes the worker dereference NULL.
\<close>

text \<open>The request of a worker that has just been forked.\<close>

definition fresh_request :: request where
  "fresh_request = the (open_request (create_socket 5 False \<lparr>sin_addr = 1, sin_port = 80\<rparr>))"

lemma fresh_request_simps [simp]: "qbody fresh_request = 0" "qfd fresh_request = Some 5"
  by (simp_all add: fresh_request_def open_request_def new_request_def parse_host_def create_socket_def resume_socket_def)

subsection \<open>The request line\<close>

definition word_bytes :: "string \<Rightarrow> bool" where
  "word_bytes s \<longleftrightarrow> (\<forall>c \<in> set s. c \<noteq> NUL \<and> \<not> isspace c)"

text \<open>The scanning loops between two blanks.\<close>

lemma scan_word:
  assumes "\<forall>c \<in> set as. P c" "\<not> P (hd bs)" "bs \<noteq> []"
  shows "scan_while P (at (view (ps @ as @ bs) ys)) (int (length ps)) = Some (int (length (ps @ as)))"
proof -
  have "takeWhile P (as @ bs) = as" using assms by (cases bs) (auto simp: takeWhile_append)
  moreover have "\<exists>c \<in> set (drop (nat (int (length ps))) (ps @ as @ bs)). \<not> P c"
    using assms(2,3) by (cases bs) auto
  ultimately show ?thesis
    using str_at.scan_while_eq [of "view (ps @ as @ bs) ys" "int (length ps)" P] by simp
qed

lemma parse_method_eq:
  assumes "word_bytes m" "m \<noteq> []" "qcontents req = view (m @ CHR '' '' # rest) ys"
  shows "parse_method req = Some (view m (CHR '' '' # rest @ ys), req\<lparr>qmethod := view m (CHR '' '' # rest @ ys)\<rparr>)"
proof -
  obtain c cs where m: "m = c # cs" using assms(2) by (cases m) auto
  have c: "\<not> isspace c" "\<forall>b \<in> set cs. \<not> isspace b" using assms(1) by (auto simp: word_bytes_def m)
  have "scan_while isspace (at (qcontents req)) 0 = Some 0"
    using scan_word [of "[]" isspace "m @ CHR '' '' # rest" "[]" ys] c by (simp add: assms(3) m)
  moreover have "scan_while (\<lambda>c. \<not> isspace c) (at (qcontents req)) (0 + 1) = Some (int (length m))"
    using scan_word [of cs "\<lambda>c. \<not> isspace c" "CHR '' '' # rest" "[c]" ys] c by (simp add: assms(3) m)
  moreover have "from_str (qcontents req) 0 (int (length m) - 0) = Some (view m (CHR '' '' # rest @ ys))"
    using from_str_pieces [of "[]" m "CHR '' '' # rest" ys] by (simp add: assms(3))
  ultimately show ?thesis using assms(3) by (simp add: parse_method_def)
qed

text \<open>The positions that \<open>parse_path\<close> computes, for a first word \<open>m\<close> and a second one that ends at a
  blank or a question mark.\<close>

lemma path_positions:
  assumes "word_bytes m" "m \<noteq> []" "word_bytes p" "CHR ''?'' \<notin> set p" "p \<noteq> []" "isspace d \<or> d = CHR ''?''"
    "tmp = view (m @ CHR '' '' # p @ d # rest) ys"
  shows "scan_while (\<lambda>c. c \<noteq> NUL \<and> \<not> isspace c) (at tmp) 0 = Some (int (length m))"
    "scan_while isspace (at tmp) (int (length m)) = Some (int (length m) + 1)"
    "scan_while (\<lambda>c. c \<noteq> NUL \<and> \<not> isspace c \<and> c \<noteq> CHR ''?'') (at tmp) (int (length m) + 1)
      = Some (int (length m) + 1 + int (length p))"
    "scan_while isspace (at tmp) 0 = Some 0"
    "from_str tmp (int (length m) + 1) (int (length p)) = Some (view p (d # rest @ ys))"
    "at tmp (int (length m) + 1 + int (length p)) = Some d"
proof -
  obtain c cs b bs where m: "m = c # cs" and p: "p = b # bs"
    using assms(2,5) by (metis neq_Nil_conv)
  have w: "\<not> isspace c" "\<not> isspace b" using assms(1,3) by (auto simp: word_bytes_def m p)
  show "scan_while (\<lambda>c. c \<noteq> NUL \<and> \<not> isspace c) (at tmp) 0 = Some (int (length m))"
    using scan_word [of m "\<lambda>c. c \<noteq> NUL \<and> \<not> isspace c" "CHR '' '' # p @ d # rest" "[]" ys] assms(1)
    by (simp add: assms(7) word_bytes_def)
  show "scan_while isspace (at tmp) (int (length m)) = Some (int (length m) + 1)"
    using scan_word [of "'' ''" isspace "p @ d # rest" m ys] w by (simp add: assms(7) p ac_simps)
  show "scan_while (\<lambda>c. c \<noteq> NUL \<and> \<not> isspace c \<and> c \<noteq> CHR ''?'') (at tmp) (int (length m) + 1)
      = Some (int (length m) + 1 + int (length p))"
    using scan_word [of p "\<lambda>c. c \<noteq> NUL \<and> \<not> isspace c \<and> c \<noteq> CHR ''?''" "d # rest" "m @ '' ''" ys] assms(3,4,6)
    by (auto simp: assms(7) word_bytes_def ac_simps)
  show "scan_while isspace (at tmp) 0 = Some 0"
    using scan_word [of "[]" isspace "m @ CHR '' '' # p @ d # rest" "[]" ys] w by (simp add: assms(7) m)
  show "from_str tmp (int (length m) + 1) (int (length p)) = Some (view p (d # rest @ ys))"
    using from_str_pieces [of "m @ '' ''" p "d # rest" ys] by (simp add: assms(7) ac_simps)
  show "at tmp (int (length m) + 1 + int (length p)) = Some d"
    using at_pieces [of "m @ CHR '' '' # p" d rest ys] by (simp add: assms(7) ac_simps)
qed

lemma parse_path_plain:
  assumes "word_bytes m" "m \<noteq> []" "word_bytes p" "CHR ''?'' \<notin> set p" "p \<noteq> []"
    "qcontents req = view (m @ CHR '' '' # p @ CHR '' '' # rest) ys"
  shows "parse_path req = Some (view p (CHR '' '' # rest @ ys),
    req\<lparr>qvars := None, qpath := view p (CHR '' '' # rest @ ys)\<rparr>)"
  using path_positions [OF assms(1-5) _ assms(6)] assms(6) by (simp add: parse_path_def Let_def)

text \<open>The first two words of the request line become the method and the path, and a path without
  a question mark leaves the form variables unset.\<close>

theorem request_line_words:
  assumes "word_bytes m" "m \<noteq> []" "word_bytes p" "CHR ''?'' \<notin> set p" "p \<noteq> []"
    "qcontents req = view (m @ CHR '' '' # p @ CHR '' '' # rest) ys"
  shows "\<exists>q1 q2. map_option (chars_of \<circ> fst) (parse_method req) = Some m
    \<and> parse_path req = Some (q1, q2) \<and> chars_of q1 = p \<and> qpath q2 = q1 \<and> qvars q2 = None"
  using parse_method_eq [OF assms(1,2,6)] parse_path_plain [OF assms] by simp

theorem request_line_words_witness:
  "\<exists>q1 q2. map_option (chars_of \<circ> fst) (parse_method (fresh_request\<lparr>qcontents := view ''GET /a HTTP/1.1'' []\<rparr>)) = Some ''GET''
    \<and> parse_path (fresh_request\<lparr>qcontents := view ''GET /a HTTP/1.1'' []\<rparr>) = Some (q1, q2)
    \<and> chars_of q1 = ''/a'' \<and> qpath q2 = q1 \<and> qvars q2 = None"
  by (rule request_line_words [of _ _ _ "''HTTP/1.1''" "[]"]) (simp_all add: word_bytes_def isspace_def)

text \<open>A path with or without a query string behind it, as it stands in a request line.\<close>

definition target :: "string \<Rightarrow> (string \<times> string) list \<Rightarrow> string" where
  "target p kvs = p @ (if kvs = [] then [] else CHR ''?'' # form_bytes kvs)"

lemma parse_path_target:
  assumes "word_bytes m" "m \<noteq> []" "word_bytes p" "CHR ''?'' \<notin> set p" "p \<noteq> []"
    "wf_form kvs" "length kvs \<le> 250" "word_bytes (form_bytes kvs)"
    "qcontents req = view (m @ CHR '' '' # target p kvs @ CHR '' '' # rest) ys"
  shows "\<exists>pt t. parse_path req = Some (view p pt, req\<lparr>qvars := t, qpath := view p pt\<rparr>) \<and> holds_vars t kvs"
proof (cases "kvs = []")
  case True
  then show ?thesis
    using parse_path_plain [OF assms(1-5)] assms(9) by (auto simp: target_def holds_vars_def)
next
  case False
  let ?f = "form_bytes kvs" and ?tmp = "qcontents req"
  have c: "?tmp = view (m @ CHR '' '' # p @ CHR ''?'' # ?f @ CHR '' '' # rest) ys"
    using assms(9) False by (simp add: target_def)
  note pos = path_positions [OF assms(1-5) _ c]
  have q: "scan_while (\<lambda>c. \<not> isspace c) (at ?tmp) (int (length m) + 1 + int (length p) + 1)
      = Some (int (length m) + 1 + int (length p) + 1 + int (length ?f))"
    using scan_word [of ?f "\<lambda>c. \<not> isspace c" "CHR '' '' # rest" "m @ CHR '' '' # p @ ''?''" ys] assms(8)
    by (simp add: c word_bytes_def ac_simps)
  have qs: "from_str ?tmp (int (length m) + 1 + int (length p)) (1 + int (length ?f))
      = Some (view (CHR ''?'' # ?f) (CHR '' '' # rest @ ys))"
    using from_str_pieces [of "m @ CHR '' '' # p" "CHR ''?'' # ?f" "CHR '' '' # rest" ys]
    by (simp add: c ac_simps)
  have "?f \<noteq> []" using False by simp
  then have "\<not> isspace (hd ?f)" using assms(8) by (cases ?f) (auto simp: word_bytes_def)
  then obtain h where
    h: "parse_uri_encoded None (view (CHR ''?'' # ?f) (CHR '' '' # rest @ ys)) 1 = Some (Some h)" "holds_vars (Some h) kvs"
    using parse_form_onto [of None "[]" kvs "[]" "''?''" "CHR '' '' # rest @ ys"] assms(6,7) by (auto simp: holds_vars_def)
  show ?thesis using pos q qs h c
    by (intro exI [of _ "CHR ''?'' # form_bytes kvs @ CHR '' '' # rest @ ys"] exI [of _ "Some h"])
      (simp add: parse_path_def Let_def add.commute)
qed

text \<open>A query string behind the path is split into the form variables of the request.\<close>

theorem request_line_query:
  assumes "word_bytes m" "m \<noteq> []" "word_bytes p" "CHR ''?'' \<notin> set p" "p \<noteq> []"
    "wf_form kvs" "kvs \<noteq> []" "length kvs \<le> 250" "word_bytes (form_bytes kvs)"
    "qcontents req = view (m @ CHR '' '' # p @ CHR ''?'' # form_bytes kvs @ CHR '' '' # rest) ys"
  shows "\<exists>q1 q2 h. parse_path req = Some (q1, q2) \<and> chars_of q1 = p \<and> qpath q2 = q1
    \<and> qvars q2 = Some h \<and> entries h = kvs"
proof -
  have "qcontents req = view (m @ CHR '' '' # target p kvs @ CHR '' '' # rest) ys"
    using assms(7,10) by (simp add: target_def)
  from parse_path_target [OF assms(1-6,8,9) this] assms(7) show ?thesis
    by (auto simp: holds_vars_def split: option.splits)
qed

theorem request_line_query_witness:
  "\<exists>q1 q2 h. parse_path (fresh_request\<lparr>qcontents := view ''GET /a?x=1&y=2 HTTP/1.1'' []\<rparr>) = Some (q1, q2)
    \<and> chars_of q1 = ''/a'' \<and> qpath q2 = q1 \<and> qvars q2 = Some h \<and> entries h = [(''x'', ''1''), (''y'', ''2'')]"
  by (rule request_line_query [of "''GET''" _ _ _ "''HTTP/1.1''" "[]"])
    (simp_all add: word_bytes_def wf_form_def isspace_def)

text \<open>With a blank before the request line, the method is still the first word, but the path is
  that same word: \<open>parse_path\<close> skips the leading blanks and then starts over at position 0.\<close>

theorem leading_blank_path:
  assumes "word_bytes m" "m \<noteq> []" "CHR ''?'' \<notin> set m" "qcontents req = view (CHR '' '' # m @ CHR '' '' # rest) ys"
  shows "map_option (chars_of \<circ> fst) (parse_method req) = Some m
    \<and> map_option (chars_of \<circ> fst) (parse_path req) = Some m"
proof -
  let ?tmp = "qcontents req"
  obtain c cs where m: "m = c # cs" using assms(2) by (cases m) auto
  have c: "\<not> isspace c" "\<forall>b \<in> set cs. \<not> isspace b" using assms(1) by (auto simp: word_bytes_def m)
  have sp: "scan_while isspace (at ?tmp) 0 = Some 1"
    using scan_word [of "'' ''" isspace "m @ CHR '' '' # rest" "[]" ys] c by (simp add: assms(4) m)
  have me: "scan_while (\<lambda>c. \<not> isspace c) (at ?tmp) 2 = Some (int (length m) + 1)"
    using scan_word [of cs "\<lambda>c. \<not> isspace c" "CHR '' '' # rest" "CHR '' '' # [c]" ys] c by (simp add: assms(4) m ac_simps)
  have z: "scan_while (\<lambda>c. c \<noteq> NUL \<and> \<not> isspace c) (at ?tmp) 0 = Some 0"
    using scan_word [of "[]" "\<lambda>c. c \<noteq> NUL \<and> \<not> isspace c" "CHR '' '' # m @ CHR '' '' # rest" "[]" ys] by (simp add: assms(4))
  have pe: "scan_while (\<lambda>c. c \<noteq> NUL \<and> \<not> isspace c \<and> c \<noteq> CHR ''?'') (at ?tmp) 1 = Some (int (length m) + 1)"
    using scan_word [of m "\<lambda>c. c \<noteq> NUL \<and> \<not> isspace c \<and> c \<noteq> CHR ''?''" "CHR '' '' # rest" "'' ''" ys] assms(1,3)
    by (auto simp: assms(4) word_bytes_def ac_simps)
  have d: "at ?tmp (int (length m) + 1) = Some CHR '' ''"
    using at_pieces [of "CHR '' '' # m" "CHR '' ''" rest ys] by (simp add: assms(4) ac_simps)
  have f: "from_str ?tmp 1 (int (length m)) = Some (view m (CHR '' '' # rest @ ys))"
    using from_str_pieces [of "'' ''" m "CHR '' '' # rest" ys] by (simp add: assms(4))
  show ?thesis
    using sp me z pe d f assms(4) by (simp add: parse_method_def parse_path_def Let_def)
qed

theorem leading_blank_path_witness:
  "map_option (chars_of \<circ> fst) (parse_path (fresh_request\<lparr>qcontents := view '' GET /a HTTP/1.1'' []\<rparr>)) = Some ''GET''"
  using leading_blank_path [of "''GET''" "fresh_request\<lparr>qcontents := view '' GET /a HTTP/1.1'' []\<rparr>" "''/a HTTP/1.1''" "[]"]
  by (simp add: word_bytes_def isspace_def)

subsection \<open>The host field\<close>

text \<open>A host field \<open>name:port\<close> gives the name and the port, and one without a colon the whole
  field and, when it starts with no digit, port 80; but the port of a numeric address without a
  colon is the number the address starts with.\<close>

theorem host_and_port:
  assumes "CHR '':'' \<notin> set host" "\<forall>c \<in> set ds. is_digit c" "ds \<noteq> []" "0 < dec_val ds" "dec_val ds < 2 ^ 31"
    "host \<noteq> []" "\<not> is_digit (hd host)" "hd host \<noteq> CHR ''-''" "CHR '':'' \<notin> set rest"
  shows "map_option (\<lambda>(h, r). (chars_of h, qport r)) (parse_host req (view (host @ CHR '':'' # ds) ys)) = Some (host, dec_val ds)
    \<and> map_option (\<lambda>(h, r). (chars_of h, qport r)) (parse_host req (view host ys)) = Some (host, 80)
    \<and> map_option (\<lambda>(h, r). (chars_of h, qport r)) (parse_host req (view (ds @ CHR ''.'' # rest) ys))
        = Some (ds @ CHR ''.'' # rest, dec_val ds)"
proof -
  obtain c cs where host: "host = c # cs" using assms(6) by (cases host) auto
  have tw: "takeWhile (\<lambda>c. c \<noteq> CHR '':'') xs = xs" if "CHR '':'' \<notin> set xs" for xs using that by auto
  have digit: "b \<noteq> CHR '':'' \<and> \<not> isspace b" if "is_digit b" for b
    using that by (auto simp: is_digit_def isspace_def byte_simps)
  have w: "wrap32 (dec_val ds) = dec_val ds" using assms(4,5) by simp
  have "CHR '':'' \<notin> set ds" using assms(2) digit by blast
  then have dot: "CHR '':'' \<notin> set (ds @ CHR ''.'' # rest)" using assms(9) by simp
  have "\<not> isspace (hd ds)" using assms(2,3) digit by (cases ds) auto
  then have p1: "skip_fields (view (host @ CHR '':'' # ds) ys) 0 = Some (view ds ys)"
    using skip_fields_value [OF assms(1), of "[]" ds ys] assms(3) by simp
  have i1: "str_int (view ds ys) = Some (dec_val ds)"
    using str_int_prefix [of "view ds ys" ds "[]"] assms(2,3) w by simp
  have i2: "str_int (view host ys) = Some 0"
    using assms(7,8) by (simp add: host str_int_eq)
  have i3: "str_int (view (ds @ CHR ''.'' # rest) ys) = Some (dec_val ds)"
    using str_int_prefix [of "view (ds @ CHR ''.'' # rest) ys" ds "CHR ''.'' # rest"] assms(2,3) w
    by (simp add: is_digit_def byte_simps)
  have n: "map_option chars_of (name_field (view (host @ CHR '':'' # ds) ys)) = Some host"
    "map_option chars_of (name_field (view host ys)) = Some host"
    "map_option chars_of (name_field (view (ds @ CHR ''.'' # rest) ys)) = Some (ds @ CHR ''.'' # rest)"
    using assms(1) dot by (simp_all add: name_field_eq takeWhile_append tw del: takeWhile_eq_all_conv)
  show ?thesis
    using n assms(4) p1 i1 i2 i3 skip_fields_whole [OF assms(1), of ys] skip_fields_whole [OF dot, of ys]
    by (auto simp: parse_host_def request_port_def)
qed

theorem host_and_port_witness:
  "map_option (\<lambda>(h, r). (chars_of h, qport r)) (parse_host fresh_request (view ''a.org:8080'' [])) = Some (''a.org'', 8080)
    \<and> map_option (\<lambda>(h, r). (chars_of h, qport r)) (parse_host fresh_request (view ''10.0.0.1'' [])) = Some (''10.0.0.1'', 10)"
  using host_and_port [of "''a.org''" "''8080''" "[]" fresh_request "[]"]
    host_and_port [of "''a.org''" "''10''" "''0.0.1''" fresh_request "[]"]
  by (simp add: is_digit_def byte_simps numeral_value_def)

subsection \<open>Complete requests\<close>

lemma socket_peer_lit: "\<exists>p. socket_peer sc = Some (lit p)"
  by (simp add: socket_peer_def ipaddress_def fmt_def new_str_def)

text \<open>What has arrived when the socket has nothing more to read.\<close>

lemma read_first: "arrives as x \<Longrightarrow> sbuf sc = None \<Longrightarrow> read_socket as sc = Some (view x [], sc\<lparr>sbuf := view x []\<rparr>)"
  using read_arrives [of as x sc] by (simp add: chars_of_def)

lemma read_arrived:
  assumes "sbuf sc = None"
  shows "read_socket [Data xs, Again] sc = (if length xs \<le> 4000 then Some (view xs [], sc\<lparr>sbuf := view xs []\<rparr>) else None)"
  using assms by (simp add: read_socket_def blank_def chars_of_def Max_Buffer_Size_def)

text \<open>The message that prints the header table is formatted before the table is tested: without a table,
  or with nothing to print, the worker dereferences NULL.\<close>

lemma unprinted_faults:
  assumes "read_socket as sc = Some (view c [], sc')" "qbody req = 0" "parse_headers (view c []) 0 = Some (t, b)"
    "print_headers None t = None \<or> print_headers None t = Some None"
  shows "process_request self as req sc = None"
proof -
  have "debug_log (''Headers:'' @ [LF] @ ''%s'') [AStr None] = None" by (simp add: debug_log_def new_str_def)
  then have "process_request_contents self (req\<lparr>qcontents := view c []\<rparr>) s = None" for s
    using assms(2-4) by (auto simp: process_request_contents_def)
  then show ?thesis using assms(1,2) by (simp add: process_request_def)
qed

text \<open>The first bytes of a request make the worker dereference NULL when they hold no line break,
  or when the head they hold has no field: the message that prints the header table is formatted
  before the table is tested.\<close>

theorem short_request_faults:
  assumes "sbuf sc = None" "qbody req = 0" "\<forall>c \<in> set line. no_eol c" "length (line @ CRLF @ CRLF) \<le> 4000"
  shows "process_request self [Data line, Again] req sc = None
    \<and> process_request self [Data (line @ CRLF @ CRLF), Again] req sc = None"
proof -
  have u: "parse_headers (view line []) 0 = Some (None, 0)" using assms(3) by (rule parse_headers_unbroken)
  obtain h where h: "parse_headers (view (line @ CRLF @ CRLF @ []) []) 0 =
      Some (Some h, int (length (line @ CRLF @ CRLF)) - 1)" "wf_headers h" "entries h = []"
    using parse_headers_none [OF assms(3), of "[]" "[]" 0] by blast
  have p: "print_headers None (Some h) = Some None" using print_headers_eq [OF h(2)] h(3) by simp
  have r: "read_socket [Data line, Again] sc = Some (view line [], sc\<lparr>sbuf := view line []\<rparr>)"
    "read_socket [Data (line @ CRLF @ CRLF), Again] sc
      = Some (view (line @ CRLF @ CRLF @ []) [], sc\<lparr>sbuf := view (line @ CRLF @ CRLF) []\<rparr>)"
    using assms(1,4) by (simp_all add: read_arrived)
  show ?thesis
    using unprinted_faults [OF r(1) assms(2) u] unprinted_faults [OF r(2) assms(2) h(1)] p by simp
qed

theorem short_request_faults_witness:
  "process_request 0 [Data ''GET / HTTP/1.0'', Again] fresh_request
      (create_socket 5 False \<lparr>sin_addr = 1, sin_port = 80\<rparr>) = None"
  using short_request_faults [of "create_socket 5 False \<lparr>sin_addr = 1, sin_port = 80\<rparr>" fresh_request "''GET / HTTP/1.0''" 0]
  by (simp add: create_socket_def resume_socket_def open_request_def new_request_def parse_host_def)

text \<open>The number of body bytes that the fields announce.\<close>

definition announced :: "(string \<times> string) list \<Rightarrow> int" where
  "announced kvs = (case map_of kvs ''Content-Length'' of None \<Rightarrow> 0 | Some ds \<Rightarrow> dec_val ds)"

definition plain_length :: "(string \<times> string) list \<Rightarrow> bool" where
  "plain_length kvs \<longleftrightarrow> map_of kvs ''Transfer-Encoding'' = None
     \<and> (case map_of kvs ''Content-Length'' of None \<Rightarrow> True
        | Some ds \<Rightarrow> (\<forall>c \<in> set ds. is_digit c) \<and> dec_val ds < 2 ^ 31)"

lemma announced_length:
  assumes "wf_headers h" "entries h = kvs @ [(''peer'', p)]" "wf_fields kvs" "plain_length kvs"
  shows "inbound_content_length (view xs ys) (Some h) = Some (announced kvs)"
    "is_chunked (Some h) = Some False"
proof -
  have te: "map_of (entries h) ''Transfer-Encoding'' = None"
    "map_of (entries h) ''Content-Length'' = map_of kvs ''Content-Length''"
    using assms(4) by (auto simp: assms(2) plain_length_def map_add_def split: option.splits)
  then show "is_chunked (Some h) = Some False" using is_chunked_eq [OF assms(1)] by simp
  show "inbound_content_length (view xs ys) (Some h) = Some (announced kvs)"
  proof (cases "map_of kvs ''Content-Length''")
    case None
    then show ?thesis
      using inbound_length_eq [OF assms(1) te(1), of "''0''" "[]"] te(2)
      by (simp add: announced_def is_digit_def byte_simps numeral_value_def)
  next
    case (Some ds)
    then have "ds \<noteq> []" using assms(3) by (force dest: map_of_SomeD simp: wf_fields_def wf_value_def)
    with Some show ?thesis
      using inbound_length_eq [OF assms(1) te(1), of ds "[]"] te(2) assms(4)
      by (simp add: announced_def plain_length_def)
  qed
qed

lemma process_request_head:
  assumes "read_socket as sc = Some (view (line @ CRLF @ header_lines kvs @ CRLF @ zs) [], sc')" "qbody req = 0" "wf_fields kvs" "kvs \<noteq> []" "length kvs < 250"
    "\<forall>c \<in> set line. no_eol c" "plain_length kvs"
  shows "\<exists>h p. process_request self as req sc
      = Some (0, req\<lparr>qcontents := view (line @ CRLF @ header_lines kvs @ CRLF @ zs) [], qheaders := Some h,
          qbody := int (length (line @ CRLF @ header_lines kvs @ CRLF)), qdone := announced kvs \<le> int (length zs)\<rparr>,
        sc')
    \<and> wf_headers h \<and> entries h = kvs @ [(''peer'', p)]"
proof -
  let ?c = "line @ CRLF @ header_lines kvs @ CRLF @ zs"
  let ?b = "int (length (line @ CRLF @ header_lines kvs @ CRLF))"
  let ?req = "req\<lparr>qcontents := view ?c []\<rparr>"
  have "int (length kvs) < MAX_HEADERS" using assms(5) by (simp add: MAX_HEADERS_def)
  from parse_headers_fields [OF assms(3,4) this assms(6) refl, of zs "[]" 0] obtain h0 where
    h0: "parse_headers (view ?c []) 0 = Some (Some h0, ?b)" "wf_headers h0" "entries h0 = kvs"
    by (auto simp only: append_assoc)
  obtain p where p: "socket_peer sc' = Some (lit p)" using socket_peer_lit by blast
  have room: "nslots h0 < MAX_HEADERS"
    using length_entries [OF h0(2)] h0(2,3) assms(5) by (simp add: MAX_HEADERS_def wf_headers_def)
  define h where "h = put_slot (h0\<lparr>nslots := nslots h0 + 1\<rparr>) (nslots h0) (lit ''peer'') (lit p)"
  have h: "append_header (Some h0) (lit ''peer'') (lit p) = Some (Some h)" "wf_headers h"
    "entries h = kvs @ [(''peer'', p)]"
    using append_header_room [OF h0(2) room] add_slot_wf [OF h0(2) room, of "lit ''peer''" "lit p"] h0(3)
    by (simp_all add: h_def wf_slot_def)
  have "debug_log (''Headers:'' @ [LF] @ ''%s'') [AStr (lit xs)] = Some ()" for xs
    by (simp add: debug_log_def new_str_def)
  then have c: "process_request_contents self ?req sc'
      = Some (0, ?req\<lparr>qheaders := Some h, qbody := ?b\<rparr>)"
    using h0 h(1) p assms(2,4) print_headers_eq [OF h0(2)]
    by (simp add: process_request_contents_def fmt_literal request_headers_def)
  have b: "?b \<noteq> 0" by simp
  let ?done = "announced kvs \<le> len (view ?c []) - ?b"
  have d: "request_done (?req\<lparr>qheaders := Some h, qbody := ?b\<rparr>)
      = Some (?done, ?req\<lparr>qheaders := Some h, qbody := ?b, qdone := ?done\<rparr>)"
    using announced_length(1) [OF h(2,3) assms(3,7)] by (simp add: request_done_def del: length_append)
  have z: "?done \<longleftrightarrow> announced kvs \<le> int (length zs)" by simp
  have "process_request self as req sc
      = Some (0, ?req\<lparr>qheaders := Some h, qbody := ?b, qdone := ?done\<rparr>, sc')"
    using c d announced_length(2) [OF h(2,3) assms(3,7)] assms(2)
    by (simp add: process_request_def assms(1) dechunk_request_def del: length_append)
  with h(2,3) show ?thesis unfolding z by (intro exI [of _ h] exI [of _ p]) (simp del: length_append)
qed

text \<open>A part of the head that leaves a table with a field: the worker reads on.\<close>

lemma process_request_part:
  assumes "read_socket as sc = Some (view c [], sc')" "qbody req = 0" "\<not> qdone req"
    "parse_headers (view c []) 0 = Some (Some h0, 0)" "wf_headers h0" "entries h0 \<noteq> []" "nslots h0 < MAX_HEADERS"
  shows "\<exists>h. process_request self as req sc
      = Some (0, req\<lparr>qcontents := view c [], qheaders := Some h\<rparr>, sc')"
proof -
  let ?req = "req\<lparr>qcontents := view c []\<rparr>"
  obtain p where p: "socket_peer sc' = Some (lit p)" using socket_peer_lit by blast
  obtain h where h: "append_header (Some h0) (lit ''peer'') (lit p) = Some (Some h)"
    using append_header_room [OF assms(5,7)] by blast
  have "debug_log (''Headers:'' @ [LF] @ ''%s'') [AStr (lit xs)] = Some ()" for xs
    by (simp add: debug_log_def new_str_def)
  then have c: "process_request_contents self ?req sc' = Some (0, ?req\<lparr>qheaders := Some h, qbody := 0\<rparr>)"
    using assms(2,4,6) h p print_headers_eq [OF assms(5)]
    by (simp add: process_request_contents_def fmt_literal request_headers_def)
  have u: "?req\<lparr>qheaders := Some h, qbody := 0\<rparr> = ?req\<lparr>qheaders := Some h\<rparr>" using assms(2) by simp
  show ?thesis
    using c assms(1-3) unfolding u by (intro exI [of _ h]) (simp add: process_request_def request_done_def)
qed

text \<open>A head that is cut in a key, or behind the request line, makes the worker dereference NULL: the
  message that prints the header table comes first.\<close>

theorem cut_head_faults:
  assumes "read_socket as sc = Some (view (line @ CRLF @ header_lines kvs @ k) [], sc')" "qbody req = 0"
    "wf_fields kvs" "length kvs < 250" "\<forall>c \<in> set line. no_eol c"
    "k = [] \<and> kvs = [] \<or> k \<noteq> [] \<and> no_eol (hd k) \<and> CHR '':'' \<notin> set k"
  shows "process_request self as req sc = None"
proof -
  let ?c = "line @ CRLF @ header_lines kvs @ k"
  have n: "int (length kvs) < MAX_HEADERS" using assms(4) by (simp add: MAX_HEADERS_def)
  have "\<exists>h. parse_headers (view ?c []) 0 = Some (Some h, 0) \<and> (print_headers None (Some h) = None
    \<or> print_headers None (Some h) = Some None)"
  proof (cases "k = []")
    case True
    then have "kvs = []" using assms(6) by blast
    then show ?thesis using parse_headers_part [OF assms(3) n assms(5), of "[]" 0] True print_headers_eq by auto
  next
    case False
    then show ?thesis using parse_headers_cut [OF assms(3) n assms(5), of k "[]" 0] assms(6) by auto
  qed
  then show ?thesis using unprinted_faults [OF assms(1,2)] by blast
qed

theorem cut_head_faults_witness:
  "process_request 0 [Data (''GET / HTTP/1.1'' @ CRLF @ header_lines [(''Host'', ''a'')] @ ''User-Ag''), Again] fresh_request
      (create_socket 5 False \<lparr>sin_addr = 1, sin_port = 80\<rparr>) = None"
  by (rule cut_head_faults [OF read_first [OF arrives_Data]])
    (simp_all add: create_socket_def resume_socket_def wf_str_def chars_of_def wf_fields_def wf_key_def wf_value_def
      isspace_def header_lines_def header_line_def)

text \<open>More of the body.\<close>

lemma process_request_more:
  assumes "read_socket as sc = Some (view c [], sc')" "qheaders req = Some h" "wf_headers h" "entries h = kvs @ [(''peer'', p)]"
    "wf_fields kvs" "plain_length kvs" "qbody req \<noteq> 0"
  shows "process_request self as req sc = Some (0, req\<lparr>qcontents := view c [],
      qdone := announced kvs \<le> int (length c) - qbody req\<rparr>, sc')"
  using announced_length [OF assms(3,4,5,6)] assms(2,7)
  by (simp add: process_request_def assms(1) request_done_def dechunk_request_def Let_def)

text \<open>A request whose head is well formed and not chunked is read with its fields, the peer's
  address behind them, and is done exactly when as many body bytes have arrived as its content
  length says, or at once without a content length; the bytes of a later read are added to its body.\<close>

theorem request_read:
  assumes "sbuf sc = None" "qbody req = 0" "wf_fields kvs" "kvs \<noteq> []" "length kvs < 250"
    "\<forall>c \<in> set line. no_eol c" "arrives as (line @ CRLF @ header_lines kvs @ CRLF @ zs)" "plain_length kvs"
    "arrives bs ys"
  shows "\<exists>req1 sc1 req2 sc2 h p. process_request self as req sc = Some (0, req1, sc1)
    \<and> qheaders req1 = Some h \<and> entries h = kvs @ [(''peer'', p)]
    \<and> qbody req1 = int (length (line @ CRLF @ header_lines kvs @ CRLF))
    \<and> (qdone req1 \<longleftrightarrow> announced kvs \<le> int (length zs))
    \<and> process_request self bs req1 sc1 = Some (0, req2, sc2)
    \<and> qcontents req2 = view (line @ CRLF @ header_lines kvs @ CRLF @ zs @ ys) []
    \<and> (qdone req2 \<longleftrightarrow> announced kvs \<le> int (length (zs @ ys)))"
proof -
  let ?c = "line @ CRLF @ header_lines kvs @ CRLF" and ?c1 = "line @ CRLF @ header_lines kvs @ CRLF @ zs"
  let ?r = "\<lambda>h. req\<lparr>qcontents := view ?c1 [], qheaders := Some h, qbody := int (length ?c),
    qdone := announced kvs \<le> int (length zs)\<rparr>"
  obtain h p where 1: "process_request self as req sc = Some (0, ?r h, sc\<lparr>sbuf := view ?c1 []\<rparr>)"
    "wf_headers h" "entries h = kvs @ [(''peer'', p)]"
    using process_request_head [OF read_first [OF assms(7,1)] assms(2-6,8)] by blast
  have read_more: "read_socket bs (sc\<lparr>sbuf := view ?c1 []\<rparr>)
    = Some (view (?c1 @ ys) [], (sc\<lparr>sbuf := view ?c1 []\<rparr>)\<lparr>sbuf := view (?c1 @ ys) []\<rparr>)"
    using read_arrives [OF assms(9), of "sc\<lparr>sbuf := view ?c1 []\<rparr>"] by simp
  have "process_request self bs (?r h) (sc\<lparr>sbuf := view ?c1 []\<rparr>) = Some (0, (?r h)\<lparr>qcontents := view (?c1 @ ys) [],
      qdone := announced kvs \<le> int (length (?c1 @ ys)) - qbody (?r h)\<rparr>, (sc\<lparr>sbuf := view ?c1 []\<rparr>)\<lparr>sbuf := view (?c1 @ ys) []\<rparr>)"
    by (rule process_request_more [OF read_more _ 1(2,3) assms(3,8)]) simp_all
  with 1 show ?thesis by (intro exI conjI) (assumption | simp)+
qed

theorem request_read_witness:
  "\<exists>req1 sc1 req2 sc2 h p. process_request 0 [Data (''POST / HTTP/1.1'' @ CRLF @ header_lines [(''Content-Length'', ''3'')] @ CRLF @ ''x=''), Again]
      fresh_request (create_socket 5 False \<lparr>sin_addr = 1, sin_port = 80\<rparr>) = Some (0, req1, sc1)
    \<and> qheaders req1 = Some h \<and> entries h = [(''Content-Length'', ''3'')] @ [(''peer'', p)]
    \<and> qbody req1 = int (length (''POST / HTTP/1.1'' @ CRLF @ header_lines [(''Content-Length'', ''3'')] @ CRLF))
    \<and> (qdone req1 \<longleftrightarrow> announced [(''Content-Length'', ''3'')] \<le> int (length ''x=''))
    \<and> process_request 0 [Data ''1'', Again] req1 sc1 = Some (0, req2, sc2)
    \<and> qcontents req2 = view (''POST / HTTP/1.1'' @ CRLF @ header_lines [(''Content-Length'', ''3'')] @ CRLF @ ''x='' @ ''1'') []
    \<and> (qdone req2 \<longleftrightarrow> announced [(''Content-Length'', ''3'')] \<le> int (length (''x='' @ ''1'')))"
  by (rule request_read [OF _ _ _ _ _ _ arrives_Data _ arrives_Data])
    (simp_all add: create_socket_def resume_socket_def open_request_def new_request_def parse_host_def
      wf_fields_def wf_key_def wf_value_def isspace_def header_lines_def header_line_def is_digit_def
      byte_simps numeral_value_def plain_length_def)

end
