(* ===== verification/Responses.thy ===== *)
theory Responses
  imports Requests
begin

section \<open>Responses: status lines, headers and cached files (responses.c, status.c, headers.c, script.c, image.c)\<close>

text \<open>
  The state of a worker process is the record \<open>client\<close>: its connection, the request being
  answered, the response, the event it waits for, and whether it has exited.  What it takes from
  the server process at the moment of the fork, and what the system and the Lua interpreter
  answer, is the record \<open>env\<close>.
\<close>

text \<open>The two enumerations of events.h.\<close>

datatype event_types = READ | WRITE | RESP | REQ | NODE | PROC
datatype event_flags = NONE | ONESHOT | SEOF | EXIT

record client =
  cevent :: event_types
  calarm :: bool
  csocket :: conn
  crequest :: request
  cresponse :: "response option"
  cqueue :: "(reg \<times> event_types) list"
  cexit :: bool

text \<open>How a script ends: normally, with an error, or by jumping out of the page.\<close>

datatype outcome = Done | Failed | Jumped

record env =
  ekw :: kernel
  ecwd :: str
  efiles :: cache
  estat :: "string \<Rightarrow> int option"
  edate :: string
  eexpires :: string
  etemp :: str
  etemp_opens :: bool
  estart :: "(str \<times> str) list \<Rightarrow> client \<Rightarrow> client option"
  escript :: "string \<Rightarrow> client \<Rightarrow> (outcome \<times> client) option"

subsection \<open>Status lines (status.c)\<close>

record status =
  scode :: int
  reason :: string
  sfilename :: "string option"

definition stati :: "status list" where
  "stati = map (\<lambda>(c, r, f). \<lparr>scode = c, reason = r @ CRLF, sfilename = f\<rparr>)
    [(100, ''100 Continue'', None), (101, ''101 Switching Protocols'', None),
     (200, ''200 OK'', None), (201, ''201 Created'', None), (202, ''202 Accepted'', None),
     (203, ''203 Non-Authoritative Information'', None), (204, ''204 No Content'', None),
     (205, ''205 Reset Content'', None), (206, ''206 Partial Content'', None),
     (300, ''300 Multiple Choices'', None), (301, ''301 Moved Permanently'', None),
     (302, ''302 Found'', None), (303, ''303 See Other'', None), (304, ''304 Not Modified'', None),
     (305, ''305 Use Proxy'', None), (307, ''307 Temporary Redirect'', None),
     (400, ''400 Bad Request'', Some ''/400.html''), (401, ''401 Unauthroized'', None),
     (402, ''402 Payment Required'', None), (403, ''403 Forbidden'', None),
     (404, ''404 Not Found'', Some ''/404.html''), (405, ''405 Method Not Allowed'', None),
     (406, ''406 Not Acceptable'', None), (407, ''407 Proxy Authentication Required'', None),
     (408, ''408 Request Time-out'', None), (409, ''409 Conflict'', None), (410, ''410 Gone'', None),
     (411, ''411 Length Required'', None), (412, ''412 Precondition Failed'', None),
     (413, ''413 Request Entity Too Large'', None), (414, ''414 Request-URI Too Large'', None),
     (415, ''415 Unsupported Media Type'', None), (416, ''416 Requested range not satisfiable'', None),
     (417, ''417 Expectation Failed'', None), (500, ''500 Internal Server Error'', Some ''/500.html''),
     (501, ''501 Not Implemented'', None), (502, ''502 Bad Gateway'', None),
     (503, ''503 Service Unavailable'', None), (504, ''504 Gateway Time-out'', None),
     (505, ''505 HTTP Version not supported'', None)]"

definition http_version :: string where
  "http_version = ''HTTP/1.1'' @ [NUL]"

fun find_status :: "int \<Rightarrow> status list \<Rightarrow> status option option" where
  "find_status code [] = Some None"
| "find_status code (s # ss) = (if scode s = code then Some (Some s) else find_status code ss)"

text \<open>The entry whose index \<open>find_status_code\<close> answers; an unknown code is answered as 500.\<close>

definition find_status_code :: "int \<Rightarrow> status option" where
  "find_status_code code = do {
     r \<leftarrow> find_status code stati;
     (case r of Some s \<Rightarrow> Some s
      | None \<Rightarrow> do { r \<leftarrow> find_status 500 stati; r }) }"

definition status_line :: "int \<Rightarrow> str option" where
  "status_line code = do {
     s \<leftarrow> find_status_code code;
     fmt ''%c %c'' [AChars http_version, AChars (reason s @ [NUL])] }"

definition send_status :: "kernel \<Rightarrow> int \<Rightarrow> conn \<Rightarrow> (int \<times> conn) option" where
  "send_status kw code c = do { l \<leftarrow> status_line code; write_str kw l c }"

subsection \<open>Sending headers (headers.c)\<close>

fun send_slots :: "kernel \<Rightarrow> hslot list \<Rightarrow> int \<Rightarrow> conn \<Rightarrow> (int \<times> conn) option" where
  "send_slots kw [] acc c = Some (acc, c)"
| "send_slots kw (s # ss) acc c =
     (if hkey s = None then send_slots kw ss acc c
      else do {
        _ \<leftarrow> debug_log ''[SEND HEADERS] [%s] [%s]'' [AStr (hkey s), AStr (hvalue s)];
        (r1, c) \<leftarrow> write_str kw (hkey s) c;
        (r2, c) \<leftarrow> write_to_socket kw ('': '' @ [NUL]) 2 c;
        (r3, c) \<leftarrow> write_str kw (hvalue s) c;
        (r4, c) \<leftarrow> write_to_socket kw (CRLF @ [NUL]) 2 c;
        send_slots kw ss (acc + r1 + r2 + r3 + r4) c })"

definition send_headers :: "kernel \<Rightarrow> headers \<Rightarrow> conn \<Rightarrow> (int \<times> conn) option" where
  "send_headers kw hs c = (case hs of None \<Rightarrow> Some (0, c)
     | Some h \<Rightarrow> do {
         (t, c) \<leftarrow> send_slots kw (live_slots h) 0 c;
         (r, c) \<leftarrow> write_to_socket kw (CRLF @ [NUL]) 2 c;
         Some (t + r, c) })"

subsection \<open>The life of a response (responses.c)\<close>

definition new_response :: "request \<Rightarrow> response" where
  "new_response req = \<lparr>pheaders = new_headers, pcontents = None, praw = None, pstatus = 200,
     prlength = - 1, pwritten = 0, pbody = 0, pdone = False, pfd = qfd req\<rparr>"

definition SERVER_VERSION :: string where
  "SERVER_VERSION = ''Jawas/1.0'' @ [NUL]"

definition begin_response :: "client \<Rightarrow> (bool \<times> client) option" where
  "begin_response cl = (case cresponse cl of None \<Rightarrow> None
     | Some resp \<Rightarrow> do {
         resp \<leftarrow> (if pheaders resp = None then do {
                   _ \<leftarrow> error_log ''Missing headers, adding new ones'' [];
                   Some (resp\<lparr>pheaders := new_headers\<rparr>) }
                 else Some resp);
         h \<leftarrow> connection (pheaders resp) (''close'' @ [NUL]);
         h \<leftarrow> transfer_encoding h (''chunked'' @ [NUL]);
         h \<leftarrow> server_name h SERVER_VERSION;
         Some (pcontents resp \<noteq> None \<or> praw resp \<noteq> None, cl\<lparr>cresponse := Some (resp\<lparr>pheaders := h\<rparr>)\<rparr>) })"

definition end_response :: "env \<Rightarrow> client \<Rightarrow> client option" where
  "end_response e cl = (case cresponse cl of None \<Rightarrow> None
     | Some resp \<Rightarrow> do { (_, c) \<leftarrow> write_chunk (ekw e) None 0 (csocket cl); Some (cl\<lparr>csocket := c\<rparr>) })"

definition dechunk_response :: "response \<Rightarrow> response option" where
  "dechunk_response resp = do {
     b \<leftarrow> is_chunked (pheaders resp);
     (if b then (case pcontents resp of None \<Rightarrow> None
        | Some v \<Rightarrow> do {
            con \<leftarrow> dechunk (pcontents resp);
            c \<leftarrow> append_str (ref (sdata v) (pbody resp)) con;
            Some (resp\<lparr>pcontents := c\<rparr>) })
      else Some resp) }"

definition process_response :: "reg \<Rightarrow> answer list \<Rightarrow> response \<Rightarrow> socket \<Rightarrow> (int \<times> response \<times> socket) option" where
  "process_response self as resp sc = do {
     (c, sc) \<leftarrow> read_socket as sc;
     let resp = resp\<lparr>pcontents := c\<rparr>;
     (if c = None then do {
        _ \<leftarrow> error_log (''No response contents on Response <%p>'' @ [LF]) [AReg self];
        Some (- 1, resp, sc) }
      else do {
        (r, resp) \<leftarrow> (if pbody resp = 0 then do {
                   (h, b) \<leftarrow> parse_headers (pcontents resp) (pbody resp);
                   let resp = resp\<lparr>pheaders := h, pbody := b\<rparr>;
                   (if pheaders resp = None then do {
                      _ \<leftarrow> error_log (''No response headers on Response <%p>'' @ [LF]) [AReg self];
                      Some (- 1, resp) }
                    else Some (0, resp)) }
                 else Some (0, resp));
        (if r \<noteq> (0 :: int) then Some (r, resp, sc)
         else do {
           resp \<leftarrow> (if pbody resp \<noteq> 0 then do {
                      n \<leftarrow> inbound_content_length (pcontents resp) (pheaders resp);
                      Some (resp\<lparr>pdone := len (pcontents resp) - pbody resp \<ge> n\<rparr>) }
                    else Some (resp\<lparr>pdone := False\<rparr>));
           resp \<leftarrow> (if pdone resp then dechunk_response resp else Some resp);
           Some (0, resp, sc) }) }) }"

subsection \<open>Sending a cached file (script.c, image.c, status.c)\<close>

text \<open>The loop \<^verbatim>\<open>while (!closed && total < size) total += send_raw_contents(socket,fc,total,1);\<close>  The
  \<open>total\<close> is an \<open>int\<close> and the size an \<open>off_t\<close>.\<close>

partial_function (option) send_file_loop :: "kernel \<Rightarrow> file_cache \<Rightarrow> int \<Rightarrow> conn \<Rightarrow> conn option" where
  "send_file_loop kw fc acc c =
     (if \<not> sclosed (fst c) \<and> acc < fsize fc
      then do { (r, c) \<leftarrow> send_raw kw fc acc True c; total \<leftarrow> ckint (acc + r); send_file_loop kw fc total c }
      else Some c)"

text \<open>A status line and the headers of the response.\<close>

definition send_head :: "env \<Rightarrow> int \<Rightarrow> client \<Rightarrow> client option" where
  "send_head e code cl = (case cresponse cl of None \<Rightarrow> None
     | Some resp \<Rightarrow> do {
         (_, c) \<leftarrow> send_status (ekw e) code (csocket cl);
         (_, c) \<leftarrow> send_headers (ekw e) (pheaders resp) c;
         Some (cl\<lparr>csocket := c\<rparr>) })"

definition error_handler :: "env \<Rightarrow> int \<Rightarrow> client \<Rightarrow> (int \<times> client) option" where
  "error_handler e code cl = do {
     s \<leftarrow> find_status_code code;
     (case sfilename s of None \<Rightarrow> Some (code, cl)
      | Some name \<Rightarrow> do {
          f \<leftarrow> copy (Some (name @ [NUL])) 0;
          p \<leftarrow> file_path (ecwd e) (ref (''errors'' @ [NUL]) 6) f;
          fc \<leftarrow> load (efiles e) p;
          cl \<leftarrow> send_head e code cl;
          (case fc of None \<Rightarrow> Some (code, cl)
           | Some file \<Rightarrow> do {
               c \<leftarrow> send_file_loop (ekw e) file 0 (csocket cl);
               Some (code, cl\<lparr>csocket := c, cresponse := map_option (praw_update (\<lambda>_. fc)) (cresponse cl)\<rparr>) }) }) }"

definition script_handler :: "env \<Rightarrow> file_cache \<Rightarrow> client \<Rightarrow> (int \<times> client) option" where
  "script_handler e fc cl = do {
     cl \<leftarrow> send_head e 200 cl;
     c \<leftarrow> send_file_loop (ekw e) fc 0 (csocket cl);
     Some (200, cl\<lparr>csocket := c\<rparr>) }"

text \<open>The messages about a range, which is not acted upon; the second one prints one byte more than
  the field has.\<close>

definition log_range :: "str \<Rightarrow> unit option" where
  "log_range rng = (if rng = None then Some ()
     else do {
       _ \<leftarrow> debug_log ''Ranges: %s'' [AStr rng];
       start \<leftarrow> find_str rng 0 (''0123456789'' @ [NUL]) 10;
       dash \<leftarrow> find_str rng start (''-'' @ [NUL]) 1;
       a \<leftarrow> from_str rng start (dash - start);
       _ \<leftarrow> debug_log ''Start range: %s'' [AStr a];
       b \<leftarrow> from_str rng (dash + 1) (len rng - dash);
       debug_log ''End range: %s'' [AStr b] })"

definition img_handler :: "env \<Rightarrow> file_cache \<Rightarrow> client \<Rightarrow> (int \<times> client) option" where
  "img_handler e fc cl = (case cresponse cl of None \<Rightarrow> None
     | Some resp \<Rightarrow> do {
         h \<leftarrow> cache_control (pheaders resp) (''max-age=86400, public'' @ [NUL]);
         h \<leftarrow> date_field h (edate e @ [NUL]);
         h \<leftarrow> expires h (eexpires e @ [NUL]);
         cl \<leftarrow> send_head e 200 (cl\<lparr>cresponse := Some (resp\<lparr>pheaders := h\<rparr>)\<rparr>);
         k \<leftarrow> fmt ''Range'' [];
         rng \<leftarrow> find_header (qheaders (crequest cl)) k;
         _ \<leftarrow> log_range rng;
         c \<leftarrow> send_file_loop (ekw e) fc 0 (csocket cl);
         Some (200, cl\<lparr>csocket := c\<rparr>) })"

end
