(* ===== verification/Responses_Props.thy ===== *)
theory Responses_Props
  imports Responses Sockets_Props Requests_Props Files_Props
begin

section \<open>What a response looks like to the peer\<close>

text \<open>
  Status lines, the head of a response read back with the program's own parser, the body of a
  cached file, the end of the sending loop, and the errors that send nothing.
\<close>

subsection \<open>Status lines\<close>

lemma find_status_eq: "find_status code ss = Some (List.find (\<lambda>s. scode s = code) ss)"
  by (induction ss) auto

definition status_of :: "int \<Rightarrow> status" where
  "status_of code = (case List.find (\<lambda>s. scode s = code) stati of
     Some s \<Rightarrow> s | None \<Rightarrow> \<lparr>scode = 500, reason = ''500 Internal Server Error'' @ CRLF, sfilename = Some ''/500.html''\<rparr>)"

lemma find_500: "List.find (\<lambda>s. scode s = 500) stati
    = Some \<lparr>scode = 500, reason = ''500 Internal Server Error'' @ CRLF, sfilename = Some ''/500.html''\<rparr>"
  by (simp add: stati_def)

lemma find_status_code_eq [run_simps]: "find_status_code code = Some (status_of code)"
  by (cases "List.find (\<lambda>s. scode s = code) stati")
    (simp_all add: find_status_code_def find_status_eq status_of_def find_500)

definition wf_reason :: "string \<Rightarrow> bool" where
  "wf_reason r \<longleftrightarrow> NUL \<notin> set r \<and> (\<exists>b. r = b @ CRLF \<and> (\<forall>c \<in> set b. no_eol c))"

lemma stati_reasons: "\<forall>s \<in> set stati. wf_reason (reason s)"
  by (simp add: stati_def wf_reason_def)

lemma status_of_in: "status_of code \<in> set stati"
proof (cases "List.find (\<lambda>s. scode s = code) stati")
  case None
  obtain i where i: "i < length stati"
    "\<lparr>scode = 500, reason = ''500 Internal Server Error'' @ CRLF, sfilename = Some ''/500.html''\<rparr> = stati ! i"
    using find_500 unfolding find_Some_iff by metis
  from i(1) have "stati ! i \<in> set stati" by (rule nth_mem)
  moreover have "status_of code = stati ! i" unfolding i(2) [symmetric] using None by (simp add: status_of_def)
  ultimately show ?thesis by simp
next
  case (Some s)
  then obtain i where i: "i < length stati" "s = stati ! i" unfolding find_Some_iff by metis
  from i(1) have "stati ! i \<in> set stati" by (rule nth_mem)
  moreover have "status_of code = stati ! i" using Some i(2) by (simp add: status_of_def)
  ultimately show ?thesis by simp
qed

lemma status_of_scode: "scode (status_of code) = (if code \<in> scode ` set stati then code else 500)"
proof (cases "List.find (\<lambda>s. scode s = code) stati")
  case None
  then have "code \<notin> scode ` set stati" unfolding find_None_iff by blast
  with None show ?thesis by (simp add: status_of_def)
next
  case (Some s)
  then have "scode s = code" "status_of code = s" unfolding find_Some_iff by (auto simp: status_of_def Some)
  with status_of_in [of code] show ?thesis by auto
qed

lemma status_of_reason: "wf_reason (reason (status_of code))"
  using stati_reasons status_of_in by blast

lemma status_line_eq [run_simps]:
  "status_line code = Some (lit (''HTTP/1.1 '' @ reason (status_of code)))"
proof -
  have "NUL \<notin> set (reason (status_of code))" using status_of_reason [of code] by (simp add: wf_reason_def)
  then show ?thesis
    using convert_c [of "''HTTP/1.1''" "[]"]
    by (simp add: status_line_def find_status_code_eq http_version_def fmt_def new_str_def)
qed

text \<open>Every status line is \<open>HTTP/1.1\<close>, the code and its reason on one line, with the code that
  was asked for when the table has it and 500 otherwise.\<close>

theorem status_line_code:
  "\<exists>s. status_line code = Some (lit (''HTTP/1.1 '' @ reason s)) \<and> s \<in> set stati
    \<and> scode s = (if code \<in> scode ` set stati then code else 500)
    \<and> (\<exists>b. reason s = b @ CRLF \<and> list_all no_eol b)"
  using status_line_eq [of code] status_of_reason [of code] status_of_in [of code] status_of_scode [of code]
  unfolding wf_reason_def list_all_iff by blast

subsection \<open>Sending the head\<close>

lemma write_str_delivers:
  assumes "whole_writes kw"
  obtains r c' where "write_str kw (view xs ys) c = Some (r, c')" "delivers kw c xs c'"
proof -
  obtain r c' where "write_to_socket kw (xs @ ys) (int (length xs)) c = Some (r, c')" "delivers kw c xs c'"
    using write_delivers [OF assms] .
  then show ?thesis using that by (simp add: write_str_def)
qed

lemma send_slots_delivers:
  assumes "whole_writes kw" "\<forall>s \<in> set ss. wf_slot s"
  shows "\<exists>t c'. send_slots kw ss acc c = Some (t, c') \<and> delivers kw c (header_lines (map entry ss)) c'"
  using assms(2)
proof (induction ss arbitrary: acc c)
  case Nil
  then show ?case by (simp add: header_lines_def)
next
  case (Cons s ss)
  then obtain ks kt vs vt where s: "s = \<lparr>hkey = view ks kt, hvalue = view vs vt\<rparr>" "entry s = (ks, vs)"
    by (auto elim: wf_slotE)
  obtain r1 c1 where 1: "write_str kw (view ks kt) c = Some (r1, c1)" "delivers kw c ks c1"
    using write_str_delivers [OF assms(1)] .
  obtain r2 c2 where 2: "write_to_socket kw ('': '' @ [NUL]) (int (length '': '')) c1 = Some (r2, c2)" "delivers kw c1 '': '' c2"
    using write_delivers [OF assms(1)] .
  obtain r3 c3 where 3: "write_str kw (view vs vt) c2 = Some (r3, c3)" "delivers kw c2 vs c3"
    using write_str_delivers [OF assms(1)] .
  obtain r4 c4 where 4: "write_to_socket kw (CRLF @ [NUL]) (int (length CRLF)) c3 = Some (r4, c4)" "delivers kw c3 CRLF c4"
    using write_delivers [OF assms(1)] .
  obtain u c' where 5: "send_slots kw ss (acc + r1 + r2 + r3 + r4) c4 = Some (u, c')" "delivers kw c4 (header_lines (map entry ss)) c'"
    using Cons.IH [of "acc + r1 + r2 + r3 + r4" c4] Cons.prems by auto
  have "debug_log ''[SEND HEADERS] [%s] [%s]'' [AStr (view ks kt), AStr (view vs vt)] = Some ()"
    by (simp add: debug_log_def new_str_def)
  then have "send_slots kw (s # ss) acc c = Some (u, c')" using 1(1) 2(1) 3(1) 4(1) 5(1) s(1) by simp
  moreover have "delivers kw c (header_lines (map entry (s # ss))) c'"
    using delivers_append [OF delivers_append [OF delivers_append [OF delivers_append [OF 1(2) 2(2)] 3(2)] 4(2)] 5(2)]
    by (simp add: s(2) header_lines_def header_line_def)
  ultimately show ?case by blast
qed

lemma send_head_delivers:
  assumes "whole_writes (ekw e)" "cresponse cl = Some resp" "pheaders resp = Some h" "wf_headers h"
  obtains c' where "send_head e code cl = Some (cl\<lparr>csocket := c'\<rparr>)"
    "delivers (ekw e) (csocket cl) ((''HTTP/1.1 '' @ reason (status_of code)) @ header_lines (entries h) @ CRLF) c'"
proof -
  define st where "st = ''HTTP/1.1 '' @ reason (status_of code)"
  have sl: "status_line code = Some (lit st)" unfolding st_def by (rule status_line_eq)
  obtain r1 c1 where 1: "write_str (ekw e) (lit st) (csocket cl) = Some (r1, c1)" "delivers (ekw e) (csocket cl) st c1"
    using write_str_delivers [OF assms(1)] .
  obtain r2 c2 where 2: "send_slots (ekw e) (live_slots h) 0 c1 = Some (r2, c2)" "delivers (ekw e) c1 (header_lines (entries h)) c2"
    using send_slots_delivers [OF assms(1), of "live_slots h" 0 c1] assms(4) by (auto simp: wf_headers_def entries_def)
  obtain r3 c3 where 3: "write_to_socket (ekw e) (CRLF @ [NUL]) (int (length CRLF)) c2 = Some (r3, c3)" "delivers (ekw e) c2 CRLF c3"
    using write_delivers [OF assms(1)] .
  have "send_head e code cl = Some (cl\<lparr>csocket := c3\<rparr>)"
    using 1(1) 2(1) 3(1) sl assms(2,3) by (simp add: send_head_def send_status_def send_headers_def)
  moreover have "delivers (ekw e) (csocket cl) (st @ header_lines (entries h) @ CRLF) c3"
    using delivers_append [OF delivers_append [OF 1(2) 2(2)] 3(2)] by simp
  ultimately show ?thesis using that unfolding st_def by blast
qed

text \<open>C16: The head of a response, read with the program's own parser, gives the header table of the
  response back.\<close>

theorem response_head_roundtrip:
  assumes "complete (ekw e)" "csocket cl = (sc, w)" "\<not> sclosed sc" "cresponse cl = Some resp"
    "pheaders resp = Some h" "wf_headers h" "wf_fields (entries h)" "entries h \<noteq> []" "nslots h < 250"
  shows "\<exists>cl' s h'. send_head e code cl = Some cl' \<and> sent (snd (csocket cl')) = sent w @ s
    \<and> parse_headers (view (s @ zs) ys) 0 = Some (Some h', int (length s)) \<and> entries h' = entries h"
proof -
  obtain c' where c': "send_head e code cl = Some (cl\<lparr>csocket := c'\<rparr>)" "delivers (ekw e) (sc, w)
      ((''HTTP/1.1 '' @ reason (status_of code)) @ header_lines (entries h) @ CRLF) c'"
    using send_head_delivers [OF complete_whole [OF assms(1)] assms(4-6)] assms(2) by metis
  from delivers_complete [OF assms(1,3) this(2)] obtain n where "c' = (sc, \<lparr>sent = sent w
      @ (''HTTP/1.1 '' @ reason (status_of code)) @ header_lines (entries h) @ CRLF, writes = n\<rparr>)" .
  with c'(1) have send: "send_head e code cl = Some (cl\<lparr>csocket := (sc, \<lparr>sent = sent w
      @ (''HTTP/1.1 '' @ reason (status_of code)) @ header_lines (entries h) @ CRLF, writes = n\<rparr>)\<rparr>)" by simp
  obtain b where b: "reason (status_of code) = b @ CRLF" "\<forall>c \<in> set b. no_eol c"
    using status_of_reason [of code] by (auto simp: wf_reason_def)
  let ?s = "(''HTTP/1.1 '' @ b) @ CRLF @ header_lines (entries h) @ CRLF"
  have "\<forall>c \<in> set (''HTTP/1.1 '' @ b). no_eol c" using b(2) by auto
  moreover have "int (length (entries h)) < MAX_HEADERS"
    using assms(6,9) length_entries [OF assms(6)] by (simp add: MAX_HEADERS_def wf_headers_def)
  ultimately obtain h' where "parse_headers (view (?s @ zs) ys) 0 = Some (Some h', int (length ?s))" "entries h' = entries h"
    using parse_headers_fields [OF assms(7,8), of "''HTTP/1.1 '' @ b" ?s zs ys 0] by blast
  with send b(1) show ?thesis by (intro exI [of _ "_ :: client"] exI [of _ ?s] exI [of _ h']) (auto simp del: append_assoc simp: append_assoc [symmetric])
qed

text \<open>A worker in the middle of answering, with a system that takes whole writes.\<close>

definition sample_env :: env where
  "sample_env = \<lparr>ekw = (\<lambda>t n l. l), ecwd = lit ''/srv'', efiles = [], estat = (\<lambda>n. None), edate = ''now'',
     eexpires = ''then'', etemp = None, etemp_opens = False, estart = (\<lambda>g cl. Some cl), escript = (\<lambda>c cl. Some (Done, cl))\<rparr>"

definition sample_client :: "headers \<Rightarrow> client" where
  "sample_client hs = \<lparr>cevent = WRITE, calarm = False,
     csocket = (create_socket 5 False \<lparr>sin_addr = 1, sin_port = 80\<rparr>, \<lparr>sent = [], writes = 0\<rparr>),
     crequest = fresh_request, cresponse = Some ((new_response fresh_request)\<lparr>pheaders := hs\<rparr>),
     cqueue = [], cexit = False\<rparr>"

lemma sample_env_simps [simp]: "complete (ekw sample_env)" "whole_writes (ekw sample_env)" "efiles sample_env = []" "ecwd sample_env = lit ''/srv''"
  by (simp_all add: complete_def whole_writes_def sample_env_def)

theorem response_head_roundtrip_witness:
  "\<exists>h cl' s h'. entries h = [(''Connection'', ''close'')] \<and> send_head sample_env 200 (sample_client (Some h)) = Some cl'
    \<and> sent (snd (csocket cl')) = s \<and> parse_headers (view s []) 0 = Some (Some h', int (length s))
    \<and> entries h' = [(''Connection'', ''close'')]"
proof -
  obtain h where h: "wf_headers h" "entries h = [(''Connection'', ''close'')]" "nslots h = 1" using one_field .
  have "wf_fields (entries h)" by (simp add: h(2) wf_fields_def wf_key_def wf_value_def isspace_def)
  from response_head_roundtrip [of sample_env "sample_client (Some h)" "create_socket 5 False \<lparr>sin_addr = 1, sin_port = 80\<rparr>"
      "\<lparr>sent = [], writes = 0\<rparr>" "(new_response fresh_request)\<lparr>pheaders := Some h\<rparr>" h 200 "[]" "[]"] this h
  obtain cl' s h' where "send_head sample_env 200 (sample_client (Some h)) = Some cl'" "sent (snd (csocket cl')) = s"
    "parse_headers (view s []) 0 = Some (Some h', int (length s))" "entries h' = [(''Connection'', ''close'')]"
    by (auto simp: sample_client_def create_socket_def resume_socket_def)
  with h(2) show ?thesis by blast
qed

subsection \<open>The body of a cached file\<close>

lemma send_raw_delivers:
  assumes "whole_writes kw" "0 \<le> acc" "acc < fsize fc" "fsize fc \<le> int (length (fdata fc))" "fsize fc < 2 ^ 31"
    "d = take 1460 (drop (nat acc) (take (nat (fsize fc)) (fdata fc)))"
  obtains r c' where "send_raw kw fc acc True c = Some (r, c')" "delivers kw c (chunk d) c'"
    "sclosed (fst c') \<or> r = int (length d)" "ckint (acc + r) = Some (acc + r)"
proof -
  have l: "min (wrap32 (fsize fc - acc)) MAX_WRITE_SIZE = int (length d)"
    using assms(2-5) by (auto simp: assms(6) MAX_WRITE_SIZE_def min_def)
  have "take (length d) (drop (nat acc) (fdata fc)) = d"
    using assms(2-4) by (simp add: assms(6) drop_take min_def)
  then have dd: "drop (nat acc) (fdata fc) = d @ drop (length d) (drop (nat acc) (fdata fc))"
    by (metis append_take_drop_id)
  obtain r c' where c': "write_chunk kw (Some (d @ drop (length d) (drop (nat acc) (fdata fc)))) (int (length d)) c = Some (r, c')"
    "delivers kw c (chunk d) c'" "sclosed (fst c') \<or> r = int (length d)" using write_chunk_delivers [OF assms(1)] .
  then have "write_raw_chunked_socket kw (drop (nat acc) (fdata fc)) (int (length d)) c
      = Some (if r < 0 then (0, (fst c')\<lparr>sclosed := True\<rparr>, snd c') else (r, c'))"
    using dd by (simp add: write_raw_chunked_socket_def)
  moreover have "r < 0 \<Longrightarrow> (fst c')\<lparr>sclosed := True\<rparr> = fst c'" using c'(3) by (cases "fst c'") auto
  ultimately have "send_raw kw fc acc True c = Some (if r < 0 then (0, c') else (r, c'))"
    using assms(2) l by (auto simp: send_raw_def)
  moreover have r: "0 \<le> r" "r \<le> int (length d)" using write_chunk_range [OF c'(1) assms(1)] by auto
  moreover have "ckint (acc + r) = Some (acc + r)"
  proof (rule ckint_id)
    have "int (length d) \<le> fsize fc - acc" using assms(2-4) by (simp add: assms(6))
    with r assms(2,5) show "- (2 ^ 31) \<le> acc + r" "acc + r < 2 ^ 31" by auto
  qed
  ultimately show ?thesis using that [of r c'] c'(2,3) by simp
qed

lemma next_piece:
  assumes "xs \<noteq> []" "int (length xs) = fsize fc - acc" "xs = drop (nat acc) (take (nat (fsize fc)) (fdata fc))" "0 \<le> acc"
    "r = int (length (take 1460 xs))"
  shows "0 < r" "r \<le> fsize fc - acc" "drop (nat (acc + r)) (take (nat (fsize fc)) (fdata fc)) = drop 1460 xs"
proof -
  have r: "r = int (min 1460 (length xs))" by (simp add: assms(5) min.commute)
  show "0 < r" using assms(1) by (simp add: r)
  show "r \<le> fsize fc - acc" unfolding r assms(2) [symmetric] by simp
  show "drop (nat (acc + r)) (take (nat (fsize fc)) (fdata fc)) = drop 1460 xs"
  proof (cases "1460 \<le> length xs")
    case True
    then have "r = 1460" by (simp add: r)
    then show ?thesis using assms(4) unfolding assms(3) by (simp add: nat_add_distrib add.commute)
  next
    case False
    then have e: "acc + r = fsize fc" using assms(2) by (simp add: r)
    show ?thesis unfolding e using False by simp
  qed
qed

lemma send_file_delivers:
  assumes "whole_writes kw" "0 \<le> acc" "acc \<le> fsize fc" "fsize fc \<le> int (length (fdata fc))" "fsize fc < 2 ^ 31"
  shows "\<exists>c'. send_file_loop kw fc acc c = Some c'
    \<and> delivers kw c (chunks (drop (nat acc) (take (nat (fsize fc)) (fdata fc)))) c'"
  using assms(2,3)
proof (induction "nat (fsize fc - acc)" arbitrary: acc c rule: less_induct)
  case less
  let ?xs = "drop (nat acc) (take (nat (fsize fc)) (fdata fc))"
  have len: "int (length ?xs) = fsize fc - acc" using less.prems assms(4) by simp
  consider "sclosed (fst c)" | "fsize fc \<le> acc" | "\<not> sclosed (fst c)" "acc < fsize fc" by linarith
  then show ?case
  proof cases
    case 1
    then show ?thesis by (subst send_file_loop.simps) (simp add: delivers_closed)
  next
    case 2
    then have "?xs = []" using len by simp
    then show ?thesis using 2 by (subst send_file_loop.simps, subst chunks.simps) simp
  next
    case 3
    then have ne: "?xs \<noteq> []" using len by auto
    let ?d = "take 1460 ?xs"
    obtain r c1 where c1: "send_raw kw fc acc True c = Some (r, c1)" "delivers kw c (chunk ?d) c1"
      "sclosed (fst c1) \<or> r = int (length ?d)" "ckint (acc + r) = Some (acc + r)"
      using send_raw_delivers [OF assms(1) less.prems(1) 3(2) assms(4,5) refl] .
    have step: "send_file_loop kw fc acc c = send_file_loop kw fc (acc + r) c1"
      by (subst send_file_loop.simps) (use 3 c1(1,4) in simp)
    have split: "chunks ?xs = chunk ?d @ chunks (drop 1460 ?xs)"
      by (subst chunks.simps) (use ne in \<open>simp only: if_False\<close>)
    have "\<exists>c'. send_file_loop kw fc (acc + r) c1 = Some c' \<and> delivers kw c1 (chunks (drop 1460 ?xs)) c'"
    proof (cases "sclosed (fst c1)")
      case True
      then show ?thesis by (subst send_file_loop.simps) (simp add: delivers_closed)
    next
      case False
      then have r: "r = int (length ?d)" using c1(3) by blast
      note p = next_piece [OF ne len refl less.prems(1) r]
      show ?thesis using less.hyps [of "acc + r" c1] p(1,2) less.prems unfolding p(3) by simp
    qed
    with c1(2) show ?thesis unfolding step split by (blast intro: delivers_append)
  qed
qed

lemma send_whole_file:
  assumes "whole_writes kw" "0 \<le> fsize fc" "fsize fc \<le> int (length (fdata fc))" "fsize fc < 2 ^ 31"
  obtains c' where "send_file_loop kw fc 0 c = Some c'" "delivers kw c (chunks (take (nat (fsize fc)) (fdata fc))) c'"
  using send_file_delivers [OF assms(1) order.refl assms(2-4), of c] that by auto

text \<open>C18: A cached file of less than \<open>2 ^ 31\<close> bytes, sent by the loop of the handlers with the
  empty chunk behind it, is decoded by the peer to exactly the bytes of the file.\<close>

theorem file_body_roundtrip:
  assumes "complete kw" "\<not> sclosed sc" "0 \<le> fsize fc" "fsize fc \<le> int (length (fdata fc))" "fsize fc < 2 ^ 31"
  shows "\<exists>w1 w2 s. send_file_loop kw fc 0 (sc, w) = Some (sc, w1) \<and> write_chunk kw None 0 (sc, w1) = Some (0, (sc, w2))
    \<and> sent w2 = sent w @ s \<and> unchunk (s @ rest) = Some (take (nat (fsize fc)) (fdata fc), rest)"
proof -
  let ?xs = "take (nat (fsize fc)) (fdata fc)"
  note whole = complete_whole [OF assms(1)]
  obtain c1 where c1: "send_file_loop kw fc 0 (sc, w) = Some c1" "delivers kw (sc, w) (chunks ?xs) c1"
    using send_whole_file [OF whole assms(3-5)] .
  obtain n where n: "c1 = (sc, \<lparr>sent = sent w @ chunks ?xs, writes = n\<rparr>)" using delivers_complete [OF assms(1,2) c1(2)] .
  obtain c2 where c2: "write_chunk kw None 0 c1 = Some (0, c2)" "delivers kw c1 (chunk []) c2" using write_last_chunk [OF whole] .
  obtain m where "c2 = (sc, \<lparr>sent = (sent w @ chunks ?xs) @ chunk [], writes = m\<rparr>)"
    using delivers_complete [OF assms(1,2) c2(2) [unfolded n]] by auto
  with c1(1) c2(1) n unchunk_chunks [of ?xs rest] show ?thesis
    by (intro exI [of _ "snd c1"] exI [of _ "snd c2"] exI [of _ "chunks ?xs @ chunk []"]) simp
qed

definition sample_file :: file_cache where
  "sample_file = \<lparr>ffd = 3, fname = ''/srv/a.txt'' @ [NUL], fsize = 5, fdata = ''hello'' @ replicate 4091 NUL,
     fparsed = None, fmime = None\<rparr>"

theorem file_body_roundtrip_witness:
  "\<exists>w1 w2 s. send_file_loop (\<lambda>t n l. l) sample_file 0 (create_socket 5 False \<lparr>sin_addr = 1, sin_port = 80\<rparr>, \<lparr>sent = [], writes = 0\<rparr>)
      = Some (create_socket 5 False \<lparr>sin_addr = 1, sin_port = 80\<rparr>, w1)
    \<and> write_chunk (\<lambda>t n l. l) None 0 (create_socket 5 False \<lparr>sin_addr = 1, sin_port = 80\<rparr>, w1)
      = Some (0, (create_socket 5 False \<lparr>sin_addr = 1, sin_port = 80\<rparr>, w2))
    \<and> sent w2 = s \<and> unchunk (s @ []) = Some (''hello'', [])"
  using file_body_roundtrip [of "\<lambda>t n l. l" "create_socket 5 False \<lparr>sin_addr = 1, sin_port = 80\<rparr>" sample_file
      "\<lparr>sent = [], writes = 0\<rparr>" "[]"]
  by (simp add: complete_def create_socket_def resume_socket_def sample_file_def)

text \<open>One call of the loop body either closes the connection or makes progress.\<close>

definition progressing :: "kernel \<Rightarrow> bool" where
  "progressing kw \<longleftrightarrow> (\<forall>t n l. 0 < l \<longrightarrow> kw t n l \<noteq> 0 \<and> kw t n l \<le> l)"

lemma write_to_progress:
  assumes "progressing kw" "0 < l" "l \<le> int (length d)"
  shows "\<exists>r c'. write_to_socket kw d l c = Some (r, c') \<and> 0 \<le> r \<and> r \<le> l \<and> (r = 0 \<longrightarrow> sclosed (fst c'))
    \<and> (sclosed (fst c) \<longrightarrow> sclosed (fst c'))"
proof -
  have "kw t n l \<noteq> 0 \<and> kw t n l \<le> l" for t n using assms(1,2) by (simp add: progressing_def)
  then show ?thesis
    using assms(2,3) by (cases c) (auto simp: write_to_socket_def Let_def not_less order_less_le)
qed

lemma write_chunk_progress:
  assumes "progressing kw" "0 < l" "l \<le> int (length d)"
  shows "\<exists>r c'. write_chunk kw (Some d) l c = Some (r, c') \<and> 0 \<le> r \<and> r \<le> l \<and> (r = 0 \<longrightarrow> sclosed (fst c'))"
proof -
  let ?h = "chars_of (hex_str (of_int l)) @ CRLF"
  obtain r1 c1 where 1: "write_to_socket kw (?h @ [NUL]) (int (length ?h)) c = Some (r1, c1)"
    using write_to_progress [OF assms(1), of "int (length ?h)" "?h @ [NUL]" c] by auto
  obtain r2 c2 where 2: "write_to_socket kw d l c1 = Some (r2, c2)" "0 \<le> r2" "r2 \<le> l" "r2 = 0 \<longrightarrow> sclosed (fst c2)"
    using write_to_progress [OF assms, of c1] by blast
  obtain r3 c3 where 3: "write_to_socket kw (CRLF @ [NUL]) 2 c2 = Some (r3, c3)" "sclosed (fst c2) \<longrightarrow> sclosed (fst c3)"
    using write_to_progress [OF assms(1), of 2 "CRLF @ [NUL]" c2] by auto
  show ?thesis
    using 1 2 3 fmt_chunk_header [of "of_int l"] by (simp add: write_chunk_def view_def)
qed

text \<open>C30: The loop that sends a file of less than \<open>2 ^ 31\<close> bytes ends for every answer of the
  system that is a failure or at least one byte and not more than was asked for: each turn closes
  the connection or advances in the file.\<close>

theorem send_file_ends:
  assumes "progressing kw" "0 \<le> acc" "fsize fc \<le> int (length (fdata fc))" "fsize fc < 2 ^ 31"
  shows "\<exists>c'. send_file_loop kw fc acc c = Some c'"
  using assms(2)
proof (induction "nat (fsize fc - acc)" arbitrary: acc c rule: less_induct)
  case less
  show ?case
  proof (cases "\<not> sclosed (fst c) \<and> acc < fsize fc")
    case False
    then show ?thesis by (subst send_file_loop.simps) auto
  next
    case True
    let ?l = "min (wrap32 (fsize fc - acc)) MAX_WRITE_SIZE"
    have w: "wrap32 (fsize fc - acc) = fsize fc - acc" using True less.prems assms(4) by (intro wrap32_id) auto
    have l: "0 < ?l" "?l \<le> int (length (drop (nat acc) (fdata fc)))" "?l \<le> fsize fc - acc"
      using True less.prems assms(3) unfolding w by (auto simp: MAX_WRITE_SIZE_def)
    obtain r c1 where r: "write_chunk kw (Some (drop (nat acc) (fdata fc))) ?l c = Some (r, c1)" "0 \<le> r"
      "r \<le> ?l" "r = 0 \<longrightarrow> sclosed (fst c1)" using write_chunk_progress [OF assms(1) l(1,2)] by blast
    then have ck: "ckint (acc + r) = Some (acc + r)" using less.prems l(3) assms(4) by (intro ckint_id) auto
    from r have s: "send_raw kw fc acc True c = Some (r, c1)"
      using less.prems by (simp add: send_raw_def write_raw_chunked_socket_def)
    have "\<exists>c'. send_file_loop kw fc (acc + r) c1 = Some c'"
    proof (cases "r = 0")
      case True
      with r show ?thesis by (subst send_file_loop.simps) auto
    next
      case False
      with r True less.prems show ?thesis by (intro less.hyps) auto
    qed
    with True s ck show ?thesis by (subst send_file_loop.simps) simp
  qed
qed

theorem send_file_ends_witness:
  "\<exists>c'. send_file_loop (\<lambda>t n l. if n = 4 then - 1 else min l 3) sample_file 0
    (create_socket 5 False \<lparr>sin_addr = 1, sin_port = 80\<rparr>, \<lparr>sent = [], writes = 0\<rparr>) = Some c'"
  by (rule send_file_ends) (auto simp: progressing_def sample_file_def min_def)

subsection \<open>Large files\<close>

text \<open>
  The number of bytes that are left is cut to 32 bits: a file of 2 GiB or more is not sent, and at a
  distance of 4 GiB from its end the loop asks for 0 bytes for ever.
\<close>

lemma send_raw_left:
  assumes "0 \<le> acc" "acc \<le> int (length (fdata fc))" "2 ^ 31 \<le> fsize fc - acc" "fsize fc - acc < 2 ^ 32"
  shows "send_raw kw fc acc True c
    = write_raw_chunked_socket kw (drop (nat acc) (fdata fc)) (fsize fc - acc - 2 ^ 32) c" "fsize fc - acc - 2 ^ 32 < 0"
proof -
  have "wrap32 (fsize fc - acc) = wrap32 (fsize fc - acc - 2 ^ 32)" by (rule wrap32_cong) simp
  also have "\<dots> = fsize fc - acc - 2 ^ 32" using assms(3,4) by (intro wrap32_id) auto
  finally have "min (wrap32 (fsize fc - acc)) MAX_WRITE_SIZE = fsize fc - acc - 2 ^ 32"
    using assms(4) by (simp add: MAX_WRITE_SIZE_def)
  then show "send_raw kw fc acc True c
    = write_raw_chunked_socket kw (drop (nat acc) (fdata fc)) (fsize fc - acc - 2 ^ 32) c"
    using assms(1,2) by (simp add: send_raw_def)
  show "fsize fc - acc - 2 ^ 32 < 0" using assms(4) by simp
qed

text \<open>Of a file of 2 GiB or more, and less than 4 GiB, the peer gets the length of a chunk and nothing
  else: the length is negative, the system refuses to write so many bytes, and the connection is
  closed.\<close>

theorem large_file_refused:
  assumes "complete kw" "\<And>t n l. l < 0 \<Longrightarrow> kw t n l < 0" "\<not> sclosed sc"
    "2 ^ 31 \<le> fsize fc" "fsize fc < 2 ^ 32"
  shows "\<exists>n. send_file_loop kw fc 0 (sc, w) = Some (sc\<lparr>sclosed := True\<rparr>,
      \<lparr>sent = sent w @ chars_of (hex_str (of_int (fsize fc - 2 ^ 32))) @ CRLF, writes = n\<rparr>)"
proof -
  let ?l = "fsize fc - 2 ^ 32" and ?sc = "sc\<lparr>sclosed := True\<rparr>"
  let ?h = "chars_of (hex_str (of_int ?l)) @ CRLF"
  obtain r1 c1 where 1: "write_to_socket kw (?h @ [NUL]) (int (length ?h)) (sc, w) = Some (r1, c1)" "delivers kw (sc, w) ?h c1"
    using write_delivers [OF complete_whole [OF assms(1)]] .
  obtain n where n: "c1 = (sc, \<lparr>sent = sent w @ ?h, writes = n\<rparr>)" using delivers_complete [OF assms(1,3) 1(2)] .
  have "?l < 0" using assms(5) by simp
  from assms(2) [OF this] have "write_to_socket kw d ?l c1 = Some (0, (?sc, \<lparr>sent = sent w @ ?h, writes = n + 1\<rparr>))" for d
    using assms(3) by (simp add: n write_to_socket_def)
  then have "write_chunk kw (Some d) ?l (sc, w) = Some (0, (?sc, \<lparr>sent = sent w @ ?h, writes = n + 1\<rparr>))" for d
    using 1(1) fmt_chunk_header [of "of_int ?l"] by (simp add: write_chunk_def view_def)
  then have "send_raw kw fc 0 True (sc, w) = Some (0, (?sc, \<lparr>sent = sent w @ ?h, writes = n + 1\<rparr>))"
    using send_raw_left(1) [of 0 fc kw "(sc, w)"] assms(4,5) by (simp add: write_raw_chunked_socket_def)
  moreover have "send_file_loop kw fc 0 (?sc, w') = Some (?sc, w')" for w' by (subst send_file_loop.simps) simp
  ultimately show ?thesis using assms(3,4) by (subst send_file_loop.simps) auto
qed

theorem large_file_refused_witness:
  "\<exists>n. send_file_loop (\<lambda>t n l. l) (sample_file\<lparr>fsize := 3 * 2 ^ 30\<rparr>) 0
      (create_socket 5 False \<lparr>sin_addr = 1, sin_port = 80\<rparr>, \<lparr>sent = [], writes = 0\<rparr>)
    = Some ((create_socket 5 False \<lparr>sin_addr = 1, sin_port = 80\<rparr>)\<lparr>sclosed := True\<rparr>,
        \<lparr>sent = [] @ chars_of (hex_str (of_int (3 * 2 ^ 30 - 2 ^ 32))) @ CRLF, writes = n\<rparr>)"
  using large_file_refused [of "\<lambda>t n l. l" "create_socket 5 False \<lparr>sin_addr = 1, sin_port = 80\<rparr>"
      "sample_file\<lparr>fsize := 3 * 2 ^ 30\<rparr>" "\<lparr>sent = [], writes = 0\<rparr>"]
  by (simp add: complete_def create_socket_def resume_socket_def)

text \<open>A turn of the loop at a distance of 4 GiB writes an empty chunk, and starts the next one in the
  same place.\<close>

lemma send_file_stuck:
  assumes "send_file_loop kw fc acc c = Some c'"
  shows "\<not> (complete kw \<and> \<not> sclosed (fst c) \<and> 0 \<le> acc \<and> acc \<le> int (length (fdata fc)) \<and> acc < 2 ^ 31 \<and> fsize fc = acc + 2 ^ 32)"
proof (rule send_file_loop.raw_induct [OF _ assms])
  fix loop kw fc acc c c'
  assume IH: "\<And>kw fc acc c c'. loop kw fc acc c = Some c' \<Longrightarrow> \<not> (complete kw \<and> \<not> sclosed (fst c) \<and> 0 \<le> acc
      \<and> acc \<le> int (length (fdata fc)) \<and> acc < 2 ^ 31 \<and> fsize fc = acc + 2 ^ 32)"
    and turn: "(if \<not> sclosed (fst c) \<and> acc < fsize fc
      then do { (r, c) \<leftarrow> send_raw kw fc acc True c; total \<leftarrow> ckint (acc + r); loop kw fc total c }
      else Some c) = Some c'"
  show "\<not> (complete kw \<and> \<not> sclosed (fst c) \<and> 0 \<le> acc \<and> acc \<le> int (length (fdata fc)) \<and> acc < 2 ^ 31
      \<and> fsize fc = acc + 2 ^ 32)"
  proof
    assume a: "complete kw \<and> \<not> sclosed (fst c) \<and> 0 \<le> acc \<and> acc \<le> int (length (fdata fc)) \<and> acc < 2 ^ 31 \<and> fsize fc = acc + 2 ^ 32"
    then have f: "complete kw" "\<not> sclosed (fst c)" "0 \<le> acc" "acc \<le> int (length (fdata fc))" "acc < 2 ^ 31" "fsize fc = acc + 2 ^ 32"
      by blast+
    obtain r c1 where r: "write_chunk kw (Some ([] @ drop (nat acc) (fdata fc))) (int (length ([] :: string))) c = Some (r, c1)"
      "delivers kw c (chunk []) c1" "sclosed (fst c1) \<or> r = int (length ([] :: string))"
      using write_chunk_delivers [OF complete_whole [OF f(1)]] .
    obtain n where "c1 = (fst c, \<lparr>sent = sent (snd c) @ chunk [], writes = n\<rparr>)"
      using delivers_complete [OF f(1,2), of "snd c" "chunk []" c1] r(2) by auto
    then have open1: "\<not> sclosed (fst c1)" "r = 0" using f(2) r(3) by auto
    have "wrap32 (fsize fc - acc) = 0" by (simp add: f(6) wrap32_def)
    then have "send_raw kw fc acc True c = Some (0, c1)"
      using f(3,4) r(1) open1(2) by (simp add: send_raw_def write_raw_chunked_socket_def MAX_WRITE_SIZE_def)
    then have "loop kw fc acc c1 = Some c'" using turn f by simp
    from IH [OF this] a open1(1) show False by blast
  qed
qed

text \<open>A file of 4 GiB that is sent over a connection on which every write succeeds: the loop never
  ends, and the worker with it.\<close>

theorem large_file_never_ends:
  assumes "complete kw" "\<not> sclosed (fst c)" "fsize fc = 2 ^ 32"
  shows "send_file_loop kw fc 0 c = None"
  using send_file_stuck [of kw fc 0 c] assms by (cases "send_file_loop kw fc 0 c") auto

theorem large_file_never_ends_witness:
  "send_file_loop (\<lambda>t n l. l) (sample_file\<lparr>fsize := 2 ^ 32\<rparr>) 0
      (create_socket 5 False \<lparr>sin_addr = 1, sin_port = 80\<rparr>, \<lparr>sent = [], writes = 0\<rparr>) = None"
  by (rule large_file_never_ends) (simp_all add: complete_def create_socket_def resume_socket_def)

subsection \<open>Errors\<close>

text \<open>An error whose status has no page is answered with nothing at all, not even a status line,
  405 for the methods that are not implemented among them; an error that has one sends the head
  of the response, but looks for its page under the name of the directory of the pages, so that
  no page is sent unless a file has that name.\<close>

theorem error_pages:
  assumes "ecwd e = view wd wt" "efiles e = map Some fcs"
    "List.find (\<lambda>fc. file_name fc = wd @ ''/errors'') fcs = None"
  shows "error_handler e code cl =
      (if sfilename (status_of code) = None then Some (code, cl)
       else map_option (\<lambda>cl'. (code, cl')) (send_head e code cl))
    \<and> error_handler e 405 cl = Some (405, cl)"
proof -
  have main: "error_handler e code cl =
      (if sfilename (status_of code) = None then Some (code, cl)
       else map_option (\<lambda>cl'. (code, cl')) (send_head e code cl))" for code
  proof (cases "sfilename (status_of code)")
    case None
    then show ?thesis by (simp add: error_handler_def find_status_code_eq)
  next
    case (Some n)
    have c: "copy (Some (n @ [NUL])) 0 = Some (view [] [])" by (simp add: copy_def view_def)
    have "file_path (ecwd e) (ref (''errors'' @ [NUL]) 6) (view [] []) = Some (lit (wd @ ''/errors''))"
      using ref_append [of "''errors''" "[NUL]"] by (simp add: assms(1) file_path_def fmt_def new_str_def)
    moreover have "load (efiles e) (lit (wd @ ''/errors'')) = Some None"
      using query_cache_eq [of fcs "wd @ ''/errors''" "[NUL]"] assms(2,3) by (simp add: load_def)
    ultimately show ?thesis
      using Some c by (cases "send_head e code cl") (simp_all add: error_handler_def find_status_code_eq)
  qed
  have "sfilename (status_of 405) = None" by (simp add: status_of_def stati_def)
  with main [of code] main [of 405] show ?thesis by simp
qed

theorem error_pages_witness:
  "error_handler sample_env 405 (sample_client new_headers) = Some (405, sample_client new_headers)
    \<and> error_handler sample_env 404 (sample_client new_headers)
      = map_option (\<lambda>cl'. (404, cl')) (send_head sample_env 404 (sample_client new_headers))"
proof -
  have "sfilename (status_of 404) = Some ''/404.html''" by (simp add: status_of_def stati_def)
  then show ?thesis
    using error_pages [of sample_env "''/srv''" "[NUL]" "[]" 404 "sample_client new_headers"] by simp
qed

end
