(* ===== verification/Methods.thy ===== *)
theory Methods
  imports Responses
begin

section \<open>Dispatch: methods, paths and pages (methods.c, index.c, mime.c, lws.c)\<close>

text \<open>
  From the method of a request to the handler of a file: \<open>dispatch_method\<close> picks the method,
  \<open>post_method\<close> parses the body, \<open>get_method\<close> finds the file and \<open>mimetype_handler\<close> calls its
  handler.  A page is sent by \<open>lws_handler\<close>, which writes its texts and runs its scripts.  The
  answers of \<open>stat\<close> and of the Lua interpreter are part of the environment.
\<close>

definition S_IFDIR :: int where "S_IFDIR = 16384"
definition S_IFREG :: int where "S_IFREG = 32768"
definition S_IFLNK :: int where "S_IFLNK = 40960"

subsection \<open>Paths (index.c)\<close>

definition indexes :: "string list" where
  "indexes = [''index.html'', ''index.shtml'', ''index.lws'', ''index.svg'', ''index.jws'', ''index.xml'']"

text \<open>\<open>stat\<close> takes the C string at the data of \<open>filename\<close>.\<close>

definition stat_mode :: "env \<Rightarrow> str \<Rightarrow> int option option" where
  "stat_mode e filename = (case filename of None \<Rightarrow> None
     | Some v \<Rightarrow> do { n \<leftarrow> cstr (sdata v); Some (estat e n) })"

definition is_directory :: "env \<Rightarrow> str \<Rightarrow> bool option" where
  "is_directory e filename = do {
     m \<leftarrow> stat_mode e filename;
     (case m of None \<Rightarrow> do { _ \<leftarrow> error_log ''Failed to stat file %s'' [AStr filename]; Some False }
      | Some st \<Rightarrow> do {
          _ \<leftarrow> debug_log ''Is %s a Directory? %c'' [AStr filename,
            AChars ((if and st S_IFDIR \<noteq> 0 then ''yes'' else ''no'') @ [NUL])];
          Some (and st S_IFDIR \<noteq> 0) }) }"

definition is_file :: "env \<Rightarrow> str \<Rightarrow> bool option" where
  "is_file e filename = do {
     m \<leftarrow> stat_mode e filename;
     (case m of None \<Rightarrow> do { _ \<leftarrow> error_log ''Failed to stat file %s'' [AStr filename]; Some False }
      | Some st \<Rightarrow> Some (and st (or S_IFREG S_IFLNK) \<noteq> 0)) }"

function deauth_loop :: "env \<Rightarrow> str \<Rightarrow> str \<Rightarrow> int \<Rightarrow> int \<Rightarrow> request \<Rightarrow> (str \<times> request) option" where
  "deauth_loop e host filename l i req =
     (if i < l
      then do {
        c \<leftarrow> at filename i;
        d \<leftarrow> (if c = CHR ''/'' then do {
               t \<leftarrow> ref_at filename i (l - i); p \<leftarrow> file_path (ecwd e) host t; is_directory e p }
             else Some False);
        (if d then do {
           tok \<leftarrow> ref_at filename 1 (i - 1);
           _ \<leftarrow> debug_log ''Found auth token [%s]'' [AStr tok];
           k \<leftarrow> fmt ''Token'' [];
           req \<leftarrow> request_headers req k tok;
           t \<leftarrow> ref_at filename i (l - i);
           p \<leftarrow> file_path (ecwd e) host t;
           Some (p, req) }
         else deauth_loop e host filename l (i + 1) req) }
      else do { p \<leftarrow> file_path (ecwd e) host filename; Some (p, req) })"
  by pat_completeness auto
termination
  by (relation "measure (\<lambda>(e, host, filename, l, i, req). nat (l - i))") auto

declare deauth_loop.simps [simp del]

definition deauth_path :: "env \<Rightarrow> str \<Rightarrow> str \<Rightarrow> request \<Rightarrow> (str \<times> request) option" where
  "deauth_path e host filename req = do {
     p \<leftarrow> file_path (ecwd e) host filename;
     d \<leftarrow> is_directory e p;
     f \<leftarrow> (if d then Some True else is_file e p);
     (if f then do { p \<leftarrow> file_path (ecwd e) host filename; Some (p, req) }
      else deauth_loop e host filename (len filename) 1 req) }"

fun index_loop :: "env \<Rightarrow> str \<Rightarrow> string list \<Rightarrow> File option" where
  "index_loop e filename [] = Some None"
| "index_loop e filename (x # xs) = do {
     p \<leftarrow> fmt ''%s%c'' [AStr filename, AChars (x @ [NUL])];
     r \<leftarrow> load (efiles e) p;
     (if r \<noteq> None then Some r
      else do {
        p \<leftarrow> fmt ''%s/%c'' [AStr filename, AChars (x @ [NUL])];
        r \<leftarrow> load (efiles e) p;
        (if r \<noteq> None then Some r else index_loop e filename xs) }) }"

definition get_index :: "env \<Rightarrow> str \<Rightarrow> File option" where
  "get_index e filename = index_loop e filename indexes"

subsection \<open>Pages (lws.c)\<close>

text \<open>The segments are evaluated up to the entry of kind 0; a page whose array has none reads
  behind it.  A script that jumps out of the page ends it.\<close>

fun eval_segments :: "env \<Rightarrow> file_cache \<Rightarrow> parsed list \<Rightarrow> client \<Rightarrow> client option" where
  "eval_segments e fc [] cl = None"
| "eval_segments e fc (p # ps) cl =
     (case pkind p of
        END \<Rightarrow> Some cl
      | TEXT \<Rightarrow> do {
          d \<leftarrow> ptr_add (fdata fc) (poffset p);
          (_, c) \<leftarrow> write_chunk (ekw e) (Some d) (plength p) (csocket cl);
          eval_segments e fc ps (cl\<lparr>csocket := c\<rparr>) }
      | _ \<Rightarrow> do {
          d \<leftarrow> ptr_add (fdata fc) (poffset p);
          code \<leftarrow> fetch_bytes d (plength p);
          (r, cl) \<leftarrow> escript e code cl;
          (case r of
             Done \<Rightarrow> eval_segments e fc ps cl
           | Failed \<Rightarrow> do {
               _ \<leftarrow> error_log ''Failed to evaluate [%s]'' [AStr (lit code)];
               eval_segments e fc ps cl }
           | Jumped \<Rightarrow> Some cl) })"

definition EvalLuaFile :: "env \<Rightarrow> file_cache \<Rightarrow> client \<Rightarrow> client option" where
  "EvalLuaFile e fc cl = (case fparsed fc of None \<Rightarrow> Some cl | Some ps \<Rightarrow> eval_segments e fc ps cl)"

text \<open>\<open>run_lua_script\<close>: the interpreter is started with the form variables as its globals; its start,
  \<open>common.lua\<close> included, is \<open>estart\<close>.\<close>

definition run_lua_script :: "env \<Rightarrow> file_cache \<Rightarrow> client \<Rightarrow> (int \<times> client) option" where
  "run_lua_script e fc cl = (case cresponse cl of None \<Rightarrow> None
     | Some resp \<Rightarrow> do {
         let globals = (case qvars (crequest cl) of None \<Rightarrow> []
            | Some h \<Rightarrow> map (\<lambda>s. (hkey s, hvalue s)) (filter (\<lambda>s. hkey s \<noteq> None) (live_slots h)));
         cl \<leftarrow> estart e globals cl;
         cl \<leftarrow> EvalLuaFile e fc cl;
         Some (0, cl) })"

definition lws_handler :: "env \<Rightarrow> file_cache \<Rightarrow> client \<Rightarrow> (int \<times> client) option" where
  "lws_handler e fc cl = (case cresponse cl of None \<Rightarrow> None
     | Some resp \<Rightarrow> do {
         h \<leftarrow> cache_control (pheaders resp) (''max-age=0, no-cache'' @ [NUL]);
         h \<leftarrow> date_field h (edate e @ [NUL]);
         cl \<leftarrow> send_head e 200 (cl\<lparr>cresponse := Some (resp\<lparr>pheaders := h\<rparr>)\<rparr>);
         (_, cl) \<leftarrow> run_lua_script e fc cl;
         Some (200, cl) })"

subsection \<open>Handlers (mime.c)\<close>

fun call_handler :: "handler \<Rightarrow> env \<Rightarrow> file_cache \<Rightarrow> client \<Rightarrow> (int \<times> client) option" where
  "call_handler Script_Handler = script_handler"
| "call_handler Img_Handler = img_handler"
| "call_handler Lws_Handler = lws_handler"

definition mimetype_handler :: "env \<Rightarrow> File \<Rightarrow> client \<Rightarrow> (int \<times> client) option" where
  "mimetype_handler e fc cl = (case fc of
     None \<Rightarrow> do { _ \<leftarrow> error_log ''File not found 404'' []; error_handler e 404 cl }
   | Some f \<Rightarrow> (case cresponse cl of None \<Rightarrow> None
      | Some resp \<Rightarrow> do {
          m \<leftarrow> (case fmime f of None \<Rightarrow> lookup_mimetype (fname f) | Some m \<Rightarrow> Some m);
          h \<leftarrow> content_type (pheaders resp) (mtype m @ [NUL]);
          call_handler (mhandler m) e (f\<lparr>fmime := Some m\<rparr>) (cl\<lparr>cresponse := Some (resp\<lparr>pheaders := h\<rparr>)\<rparr>) }))"

subsection \<open>Methods (methods.c)\<close>

definition parse_json :: "headers \<Rightarrow> str \<Rightarrow> int \<Rightarrow> headers option" where
  "parse_json hs buf pos = do {
     a \<leftarrow> ref_at buf pos (len buf - pos);
     _ \<leftarrow> debug_log ''Found json [%s]'' [AStr a];
     k \<leftarrow> fmt ''json'' [];
     b \<leftarrow> ref_at buf pos (len buf - pos);
     append_header hs k b }"

definition get_method :: "env \<Rightarrow> client \<Rightarrow> (int \<times> client) option" where
  "get_method e cl = (let req = crequest cl in
     if qhost req = None \<or> qpath req = None then error_handler e 404 cl
     else do {
       peer \<leftarrow> socket_peer (fst (csocket cl));
       _ \<leftarrow> notice_log ''GET %s%s from %s'' [AStr (qhost req), AStr (qpath req), AStr peer];
       (filename, req) \<leftarrow> deauth_path e (qhost req) (qpath req) req;
       let cl = cl\<lparr>crequest := req\<rparr>;
       _ \<leftarrow> debug_log ''Found Path: %s'' [AStr filename];
       d \<leftarrow> is_directory e filename;
       fc \<leftarrow> (if d then get_index e filename else load (efiles e) filename);
       mimetype_handler e fc cl })"

text \<open>The result of \<open>parse_uri_encoded\<close> and the others is stored; the files that a multipart form
  writes are not followed further.\<close>

definition post_method :: "env \<Rightarrow> client \<Rightarrow> (int \<times> client) option" where
  "post_method e cl = do {
     let req = crequest cl;
     k \<leftarrow> fmt ''Content-Type'' [];
     enctype \<leftarrow> find_header (qheaders req) k;
     peer \<leftarrow> socket_peer (fst (csocket cl));
     _ \<leftarrow> notice_log ''POST %s%s %s from %s'' [AStr (qhost req), AStr (qpath req), AStr enctype, AStr peer];
     m \<leftarrow> (if enctype = None then Some False else do { t \<leftarrow> fmt ''multipart/form-data'' []; ncmp enctype t 19 });
     j \<leftarrow> (if m \<or> enctype = None then Some False else do { t \<leftarrow> fmt ''text/json'' []; ncmp enctype t 9 });
     v \<leftarrow> (if m then map_option fst (parse_multipart_body (etemp e) (etemp_opens e) (qcontents req) (qbody req) (qvars req) enctype [])
          else if j then parse_json (qvars req) (qcontents req) (qbody req)
          else parse_uri_encoded (qvars req) (qcontents req) (qbody req));
     get_method e (cl\<lparr>crequest := req\<lparr>qvars := v\<rparr>\<rparr>) }"

text \<open>\<open>NOT_IMPLEMENTED\<close>: the five methods that answer 405.\<close>

definition not_implemented :: "env \<Rightarrow> client \<Rightarrow> (int \<times> client) option" where
  "not_implemented e cl = error_handler e 405 cl"

datatype http_method = GET | POST | HEAD | OPTIONS | PUT | DELETE | TRACE

definition gdispatch :: "(string \<times> http_method) list" where
  "gdispatch = [(''GET'', GET), (''POST'', POST), (''HEAD'', HEAD), (''OPTIONS'', OPTIONS),
     (''PUT'', PUT), (''DELETE'', DELETE), (''TRACE'', TRACE)]"

text \<open>\<open>strncasecmp\<close> of the C locale, as far as it is used: equality up to ASCII case.\<close>

definition tolower :: "char \<Rightarrow> char" where
  "tolower c = (if between 65 (byte c) 90 then char_of_int (byte c + 32) else c)"

fun strncase_eq :: "string \<Rightarrow> string \<Rightarrow> bool option" where
  "strncase_eq d [] = Some True"
| "strncase_eq [] (c # cs) = None"
| "strncase_eq (b # d) (c # cs) =
     (if tolower c \<noteq> tolower b then Some False else if b = NUL then Some True else strncase_eq d cs)"

definition method_test :: "str_struct \<Rightarrow> string \<times> http_method \<Rightarrow> bool option" where
  "method_test v m = (if int (length (fst m)) = slen v then strncase_eq (sdata v) (fst m) else Some False)"

fun find_method :: "str_struct \<Rightarrow> (string \<times> http_method) list \<Rightarrow> (string \<times> http_method) option option" where
  "find_method v [] = Some None"
| "find_method v (m # ms) = do { b \<leftarrow> method_test v m; if b then Some (Some m) else find_method v ms }"

interpretation method_search: checked_search find_method method_test
  by unfold_locales simp_all

definition dispatch_method :: "env \<Rightarrow> str \<Rightarrow> client \<Rightarrow> (int \<times> client) option" where
  "dispatch_method e meth cl = (case meth of None \<Rightarrow> None
     | Some v \<Rightarrow> do {
         r \<leftarrow> find_method v gdispatch;
         (case r of
            Some (_, GET) \<Rightarrow> get_method e cl
          | Some (_, POST) \<Rightarrow> post_method e cl
          | Some _ \<Rightarrow> not_implemented e cl
          | None \<Rightarrow> do { _ \<leftarrow> error_log ''Bad request: %s'' [AStr meth]; error_handler e 400 cl }) })"

end
