(* ===== verification/Client.thy ===== *)
theory Client
  imports Methods
begin

section \<open>The worker process (client.c, events.c, signals.c)\<close>

text \<open>
  A worker is forked for one connection.  It waits for one event at a time: for its connection to
  become readable until the request is complete, then for it to become writable, and exits after
  the response.  Each handler is a function on the state; \<open>worker_step\<close> is the relation of what
  can happen to a worker between two events.
\<close>

definition MAX_RETRIES :: int where
  "MAX_RETRIES = 20"

subsection \<open>Events (events.c)\<close>

definition add_read_socket :: "reg \<Rightarrow> client \<Rightarrow> client" where
  "add_read_socket f cl = cl\<lparr>cevent := READ, cqueue := cqueue cl @ [(f, READ)]\<rparr>"

definition add_write_socket :: "reg \<Rightarrow> client \<Rightarrow> client" where
  "add_write_socket f cl = cl\<lparr>cevent := WRITE, cqueue := cqueue cl @ [(f, WRITE)]\<rparr>"

definition add_req_socket :: "reg \<Rightarrow> client \<Rightarrow> client" where
  "add_req_socket f cl = cl\<lparr>cevent := REQ, cqueue := cqueue cl @ [(f, REQ)]\<rparr>"

definition add_resp_socket :: "reg \<Rightarrow> client \<Rightarrow> client" where
  "add_resp_socket f cl = cl\<lparr>cevent := RESP, cqueue := cqueue cl @ [(f, RESP)]\<rparr>"

text \<open>The filters and flags of the event queue that \<open>add_event\<close> (bsd.c) registers.\<close>

datatype evfilter = EVFILT_READ | EVFILT_WRITE | EVFILT_PROC | EVFILT_VNODE

definition event_filter :: "event_types \<Rightarrow> evfilter" where
  "event_filter t =
     (if t = READ \<or> t = RESP then EVFILT_READ
      else if t = WRITE \<or> t = REQ then EVFILT_WRITE
      else if t = PROC then EVFILT_PROC else EVFILT_VNODE)"

text \<open>What an event taken from the queue is reported as (\<open>poll_events\<close>, bsd.c): only the end of a
  process is told from the others.\<close>

datatype reported = R_PROC | R_NONE

definition reported_type :: "evfilter \<Rightarrow> reported" where
  "reported_type f = (if f = EVFILT_PROC then R_PROC else R_NONE)"

subsection \<open>Handlers (client.c)\<close>

definition cfd :: "client \<Rightarrow> reg" where
  "cfd cl = sfd (fst (csocket cl))"

definition disconnect :: "client \<Rightarrow> client" where
  "disconnect cl = cl\<lparr>cqueue := [], cexit := True\<rparr>"

definition retry_request :: "client \<Rightarrow> client option" where
  "retry_request cl =
     (if qretries (crequest cl) \<ge> MAX_RETRIES then do {
        _ \<leftarrow> error_log (''Failed to read request'' @ [LF]) []; Some (disconnect cl) }
      else do { f \<leftarrow> qfd (crequest cl); Some (add_read_socket f cl) })"

definition read_request :: "reg \<Rightarrow> answer list \<Rightarrow> client \<Rightarrow> client option" where
  "read_request self as cl = do {
     (r, req, sc) \<leftarrow> process_request self as (crequest cl) (fst (csocket cl));
     let cl = cl\<lparr>crequest := req, csocket := (sc, snd (csocket cl))\<rparr>;
     (if r \<noteq> 0 then retry_request cl
      else do {
        let cl = cl\<lparr>crequest := req\<lparr>qretries := 0\<rparr>\<rparr>;
        (if \<not> qdone (crequest cl) then Some (add_read_socket (cfd cl) cl)
         else do {
           let cl = cl\<lparr>csocket := (sc\<lparr>sbuf := None\<rparr>, snd (csocket cl))\<rparr>;
           let resp = new_response (crequest cl);
           let cl = cl\<lparr>cresponse := Some resp\<rparr>;
           (_, req) \<leftarrow> parse_path (crequest cl);
           let cl = cl\<lparr>crequest := req\<rparr>;
           f \<leftarrow> pfd resp;
           Some (add_write_socket f cl) }) }) }"

definition send_response :: "env \<Rightarrow> client \<Rightarrow> client option" where
  "send_response e cl = do {
     k \<leftarrow> fmt ''Host'' [];
     v \<leftarrow> find_header (qheaders (crequest cl)) k;
     (host, req) \<leftarrow> parse_host (crequest cl) v;
     (meth, req) \<leftarrow> parse_method req;
     let cl = cl\<lparr>crequest := req\<rparr>;
     (_, cl) \<leftarrow> begin_response cl;
     (st, cl) \<leftarrow> (if host \<noteq> None \<and> meth \<noteq> None then dispatch_method e meth cl else error_handler e 400 cl);
     (case cresponse cl of None \<Rightarrow> None
      | Some resp \<Rightarrow> do {
          cl \<leftarrow> end_response e (cl\<lparr>cresponse := Some (resp\<lparr>pstatus := st\<rparr>)\<rparr>);
          Some (disconnect cl) }) }"

text \<open>\<open>send_request\<close> (requests.c), for a request on the connection \<open>sock\<close>, or for one without a
  connection, whose attempt to connect answers \<open>connected\<close>.  The result is whether to go on.\<close>

definition send_request :: "kernel \<Rightarrow> conn option \<Rightarrow> request \<Rightarrow> conn option
    \<Rightarrow> (bool \<times> request \<times> conn option \<times> reg option) option" where
  "send_request kw connected req sock = (case sock of
     None \<Rightarrow> (case connected of
        None \<Rightarrow> do {
          _ \<leftarrow> error_log (''Failed to connect to %s:%i'' @ [LF]) [AStr (qhost req), AReg (of_int (qport req))];
          Some (False, req, None, None) }
      | Some c \<Rightarrow> Some (False, req\<lparr>qfd := Some (sfd (fst c))\<rparr>, Some c, Some (sfd (fst c))))
   | Some c \<Rightarrow>
       if qlength req < 0 then do {
         cmd \<leftarrow> fmt (''%s %s HTTP/1.1'' @ CRLF) [AStr (qmethod req), AStr (qpath req)];
         (_, c) \<leftarrow> write_str kw cmd c;
         k \<leftarrow> fmt ''Host'' [];
         req \<leftarrow> request_headers req k (qhost req);
         (_, c) \<leftarrow> send_headers kw (qheaders req) c;
         let req = req\<lparr>qlength := outbound_content_length (qcontents req) (qraw req)\<rparr>;
         Some (qcontents req \<noteq> None \<or> qraw req \<noteq> None, req, Some c, None) }
       else do {
         b \<leftarrow> is_chunked (qheaders req);
         (n, s) \<leftarrow> (if qcontents req \<noteq> None then send_contents kw (qcontents req) b (Some c)
                  else if qraw req \<noteq> None then send_raw_contents kw (qraw req) (qwritten req) False (Some c)
                  else Some (0, Some c));
         let req = req\<lparr>qwritten := qwritten req + n\<rparr>;
         (case s of None \<Rightarrow> None
          | Some c \<Rightarrow> do {
              (_, c) \<leftarrow> (if b \<and> qwritten req \<ge> qlength req then write_chunk kw None 0 c else Some (0, c));
              Some (qwritten req < qlength req, req, Some c, None) }) })"

definition write_request :: "env \<Rightarrow> client \<Rightarrow> client option" where
  "write_request e cl = do {
     (more, req, s, _) \<leftarrow> send_request (ekw e) None (crequest cl) (Some (csocket cl));
     (case s of None \<Rightarrow> None
      | Some c \<Rightarrow> do {
          let cl = cl\<lparr>crequest := req, csocket := c\<rparr>;
          (if more then do { f \<leftarrow> qfd req; Some (add_req_socket f cl) }
           else do {
             let resp = new_response req;
             f \<leftarrow> pfd resp;
             Some (add_resp_socket f (cl\<lparr>cresponse := Some resp\<rparr>)) }) }) }"

definition read_response :: "reg \<Rightarrow> answer list \<Rightarrow> client \<Rightarrow> client option" where
  "read_response self as cl = (case cresponse cl of None \<Rightarrow> None
     | Some resp \<Rightarrow> do {
         (r, resp, sc) \<leftarrow> process_response self as resp (fst (csocket cl));
         let cl = cl\<lparr>cresponse := Some resp, csocket := (sc, snd (csocket cl))\<rparr>;
         (if r \<noteq> 0 then do { _ \<leftarrow> error_log (''Failed to read response'' @ [LF]) []; Some (disconnect cl) }
          else if \<not> pdone resp then Some (add_resp_socket (cfd cl) cl)
          else (case qresponse (crequest cl) of None \<Rightarrow> None
             | Some page \<Rightarrow> do {
                 k1 \<leftarrow> fmt ''data'' [];
                 v1 \<leftarrow> from_str (pcontents resp) (pbody resp) (len (pcontents resp) - pbody resp);
                 h \<leftarrow> append_header (pheaders page) k1 v1;
                 k2 \<leftarrow> fmt ''status'' [];
                 v2 \<leftarrow> from_str (pcontents resp) 9 3;
                 h \<leftarrow> append_header h k2 v2;
                 h \<leftarrow> connection h (''close'' @ [NUL]);
                 f \<leftarrow> pfd page;
                 Some (add_write_socket f (cl\<lparr>cresponse := Some (page\<lparr>pheaders := h\<rparr>)\<rparr>)) })) })"

definition client_poll :: "env \<Rightarrow> reg \<Rightarrow> reg \<Rightarrow> answer list \<Rightarrow> client \<Rightarrow> client option" where
  "client_poll e self junk as cl = (let sc = fst (csocket cl) in
     case cevent cl of
       READ \<Rightarrow> do { b \<leftarrow> closed_socket junk sc (''Read failed'' @ [NUL]);
                    if b then Some (disconnect cl) else read_request self as cl }
     | WRITE \<Rightarrow> do { b \<leftarrow> closed_socket junk sc (''Write failed'' @ [NUL]);
                    if b then Some (disconnect cl) else send_response e cl }
     | REQ \<Rightarrow> do { b \<leftarrow> closed_socket junk sc (''Request failed'' @ [NUL]);
                    if b then Some (disconnect cl) else write_request e cl }
     | RESP \<Rightarrow> do { b \<leftarrow> closed_socket junk sc (''Response failed'' @ [NUL]);
                    if b then Some (disconnect cl) else read_response self as cl }
     | _ \<Rightarrow> do { _ \<leftarrow> debug_log ''UNKNOWN EVENT'' []; Some cl })"

text \<open>\<open>handle\<close>: the state in which the event loop starts.\<close>

definition handle :: "socket \<Rightarrow> client option" where
  "handle sc = do {
     req \<leftarrow> open_request sc;
     Some (add_read_socket (sfd sc) \<lparr>cevent = READ, calarm = False, csocket = (sc, \<lparr>sent = [], writes = 0\<rparr>),
       crequest = req, cresponse = None, cqueue = [], cexit = False\<rparr>) }"

text \<open>The same from the descriptor of the port: \<open>answer\<close> is that of \<open>accept\<close>, and the port is that of
  TLS or not.  A connection that could not be accepted is dereferenced.\<close>

definition handle_fd :: "int \<Rightarrow> sockaddr \<Rightarrow> bool \<Rightarrow> (int \<times> ssl_error) list \<Rightarrow> client option" where
  "handle_fd answer addr tls hs = do {
     s \<leftarrow> accept_socket answer addr tls hs;
     sc \<leftarrow> s;
     handle sc }"

subsection \<open>What can happen to a worker\<close>

text \<open>
  The loop \<^verbatim>\<open>while (!client.socket->closed && !client.alarm) run();\<close> takes the next registered
  event; the timer may set the alarm between any two events (\<open>alrm_signal_handler\<close>); a worker
  whose loop has ended exits.  A handler that faults leaves no successor state.
\<close>

inductive worker_step :: "env \<Rightarrow> reg \<Rightarrow> client \<Rightarrow> client \<Rightarrow> bool" for e self where
  poll: "\<lbrakk> \<not> cexit cl; \<not> sclosed (fst (csocket cl)); \<not> calarm cl; cqueue cl = ev # evs;
      client_poll e self junk as (cl\<lparr>cqueue := evs\<rparr>) = Some cl' \<rbrakk> \<Longrightarrow> worker_step e self cl cl'"
| alarm: "\<not> cexit cl \<Longrightarrow> worker_step e self cl (cl\<lparr>calarm := True\<rparr>)"
| leave: "\<lbrakk> \<not> cexit cl; sclosed (fst (csocket cl)) \<or> calarm cl \<rbrakk> \<Longrightarrow> worker_step e self cl (cl\<lparr>cexit := True\<rparr>)"

inductive_cases worker_stepE: "worker_step e self cl cl'"

inductive_simps worker_step_exit: "worker_step e self (cl\<lparr>cexit := True\<rparr>) cl'"

text \<open>The states a worker goes through.\<close>

inductive reachable :: "env \<Rightarrow> reg \<Rightarrow> socket \<Rightarrow> client \<Rightarrow> bool" for e self sc where
  start: "handle sc = Some cl \<Longrightarrow> reachable e self sc cl"
| step: "reachable e self sc cl \<Longrightarrow> worker_step e self cl cl' \<Longrightarrow> reachable e self sc cl'"

text \<open>The loop with the answers of the system to each event: what a read finds, and the word that
  \<open>closed_socket\<close> prints.  A worker without a registered event waits until its alarm.\<close>

fun run_loop :: "env \<Rightarrow> reg \<Rightarrow> (reg \<times> answer list) list \<Rightarrow> client \<Rightarrow> client option" where
  "run_loop e self [] cl = Some cl"
| "run_loop e self (ja # jas) cl =
     (if cexit cl then Some cl
      else if sclosed (fst (csocket cl)) \<or> calarm cl then Some (cl\<lparr>cexit := True\<rparr>)
      else (case cqueue cl of
          [] \<Rightarrow> Some cl
        | ev # evs \<Rightarrow> do {
            cl \<leftarrow> client_poll e self (fst ja) (snd ja) (cl\<lparr>cqueue := evs\<rparr>);
            run_loop e self jas cl }))"

text \<open>What the loop does is a run of steps.\<close>

lemma run_loop_steps:
  "run_loop e self jas cl = Some cl' \<Longrightarrow> (worker_step e self)\<^sup>*\<^sup>* cl cl'"
proof (induction e self jas cl rule: run_loop.induct)
  case (2 e self ja jas cl)
  show ?case
  proof (cases "cexit cl \<or> sclosed (fst (csocket cl)) \<or> calarm cl \<or> cqueue cl = []")
    case True
    with 2 show ?thesis
      by (auto split: if_splits intro: worker_step.leave)
  next
    case False
    then obtain ev evs where q: "cqueue cl = ev # evs" by (cases "cqueue cl") auto
    with False 2(2) obtain cl2 where c: "client_poll e self (fst ja) (snd ja) (cl\<lparr>cqueue := evs\<rparr>) = Some cl2"
      "run_loop e self jas cl2 = Some cl'" by (auto simp: bind_Some_iff)
    have "worker_step e self cl cl2" using False q c(1) by (auto intro: worker_step.poll)
    moreover have "(worker_step e self)\<^sup>*\<^sup>* cl2 cl'" using 2(1) False q c by auto
    ultimately show ?thesis by (rule converse_rtranclp_into_rtranclp)
  qed
qed auto

lemma reachable_run:
  assumes "(worker_step e self)\<^sup>*\<^sup>* cl cl'" "reachable e self sc cl"
  shows "reachable e self sc cl'"
  using assms by (induction rule: rtranclp_induct) (blast intro: reachable.step)+

lemma run_loop_reachable:
  "run_loop e self jas cl = Some cl' \<Longrightarrow> reachable e self sc cl \<Longrightarrow> reachable e self sc cl'"
  by (rule reachable_run [OF run_loop_steps])

end
