(* ===== verification/Transitions.thy ===== *)
theory Transitions
  imports Main
begin

section \<open>Step relations and their invariants\<close>

text \<open>
  The worker, the pool of the server and the supervised service are step relations with states they
  start in.  What is shared between them is proved here once: a property of the initial states that
  every step keeps holds in every reachable state, and what every step keeps to, a whole run keeps to.
\<close>

locale transition_system =
  fixes init :: "'s \<Rightarrow> bool" and step :: "'s \<Rightarrow> 's \<Rightarrow> bool" and reach :: "'s \<Rightarrow> bool"
  assumes reach_iff: "reach s \<longleftrightarrow> (\<exists>s0. init s0 \<and> step\<^sup>*\<^sup>* s0 s)"
begin

lemma reach_start: "init s \<Longrightarrow> reach s"
  using reach_iff by blast

lemma reach_run: "reach s \<Longrightarrow> step\<^sup>*\<^sup>* s t \<Longrightarrow> reach t"
  using reach_iff by (meson rtranclp_trans)

lemma reach_next: "reach s \<Longrightarrow> step s t \<Longrightarrow> reach t"
  using reach_run by blast

text \<open>A relation that every step of a reachable state keeps to is kept to by every run.\<close>

lemma run_rel:
  assumes "step\<^sup>*\<^sup>* s t" "reach s" "\<And>s. R s s" "\<And>s t u. R s t \<Longrightarrow> R t u \<Longrightarrow> R s u"
    "\<And>s t. reach s \<Longrightarrow> step s t \<Longrightarrow> R s t"
  shows "R s t"
  using assms(1)
proof (induction rule: rtranclp_induct)
  case (step t u)
  then show ?case using assms(2,4,5) reach_run by blast
qed (rule assms(3))

end

text \<open>A system with an inductive invariant.\<close>

locale invariant_system = transition_system +
  fixes inv :: "'a \<Rightarrow> bool"
  assumes init_inv: "init s \<Longrightarrow> inv s"
    and step_inv: "step s t \<Longrightarrow> inv s \<Longrightarrow> inv t"
begin

lemma reach_inv:
  assumes "reach s"
  shows "inv s"
proof -
  obtain s0 where "step\<^sup>*\<^sup>* s0 s" "init s0" using assms reach_iff by blast
  then show ?thesis by (induction rule: rtranclp_induct) (auto intro: init_inv step_inv)
qed

end

text \<open>A system whose steps are, seen through \<open>see\<close>, steps of another one or nothing.\<close>

locale simulation = transition_system +
  fixes see :: "'a \<Rightarrow> 'b" and astep :: "'b \<Rightarrow> 'b \<Rightarrow> bool"
  assumes step_astep: "reach s \<Longrightarrow> step s t \<Longrightarrow> see t = see s \<or> astep (see s) (see t)"
begin

lemma run_arun: "step\<^sup>*\<^sup>* s t \<Longrightarrow> reach s \<Longrightarrow> astep\<^sup>*\<^sup>* (see s) (see t)"
proof (induction rule: rtranclp_induct)
  case (step t u)
  then have "see u = see t \<or> astep (see t) (see u)" using step_astep reach_run by blast
  then show ?case using step.IH [OF step.prems] by (metis rtranclp.rtrancl_into_rtrancl)
qed simp

end

end
