(* ===== verification/Client_Props.thy ===== *)
theory Client_Props
  imports Client Responses_Props Transitions
begin

section \<open>What a worker guarantees\<close>

text \<open>
  The invariant of the event loop, by rule induction over everything that can happen to a worker.
\<close>

subsection \<open>The invariant of the event loop\<close>

text \<open>A worker that has not exited waits to read, or to write the response of a complete request;
  it has made at most 20 attempts to read and has not sent a byte.\<close>

definition worker_inv :: "client \<Rightarrow> bool" where
  "worker_inv cl \<longleftrightarrow> cexit cl \<or>
     (cevent cl = READ \<or> cevent cl = WRITE \<and> cresponse cl \<noteq> None \<and> qdone (crequest cl))
     \<and> 0 \<le> qretries (crequest cl) \<and> qretries (crequest cl) \<le> MAX_RETRIES
     \<and> sent (snd (csocket cl)) = []"

lemma request_headers_keeps:
  "request_headers req k v = Some req' \<Longrightarrow> qretries req' = qretries req"
  by (auto simp: request_headers_def bind_Some_iff)

lemma process_request_contents_keeps:
  "process_request_contents self req sc = Some (r, req') \<Longrightarrow> qretries req' = qretries req"
  by (auto simp: process_request_contents_def bind_Some_iff Let_def split: if_splits dest!: request_headers_keeps)

lemma request_done_keeps: "request_done req = Some (d, req') \<Longrightarrow> qretries req' = qretries req"
  by (auto simp: request_done_def bind_Some_iff split: if_splits)

lemma dechunk_request_keeps: "dechunk_request req = Some req' \<Longrightarrow> qretries req' = qretries req"
  by (auto simp: dechunk_request_def bind_Some_iff split: if_splits)

lemma process_request_retries:
  assumes "process_request self as req sc = Some (r, req', sc')"
  shows "qretries req' = qretries req \<or> qretries req' = qretries req + 1"
proof -
  obtain c s where c: "read_socket as sc = Some (c, s)"
    using assms by (auto simp: process_request_def bind_Some_iff)
  show ?thesis
  proof (cases c)
    case None
    with assms c show ?thesis
      by (auto simp: process_request_def request_retry_def bind_Some_iff Let_def)
  next
    case (Some v)
    let ?X = "if qbody req = 0 then process_request_contents self (req\<lparr>qcontents := Some v\<rparr>) s
        else Some (0, req\<lparr>qcontents := Some v\<rparr>)"
    have e: "Option.bind ?X (\<lambda>(r1, req1). if r1 \<noteq> 0 then Some (- 1, req1, s) else do {
         (d, req) \<leftarrow> request_done req1; req \<leftarrow> (if d then dechunk_request req else Some req);
         Some (0, req, s) }) = Some (r, req', sc')"
      using assms c Some by (simp add: process_request_def Let_def)
    then obtain r1 req1 where x: "?X = Some (r1, req1)" by (cases ?X) auto
    with e have 1: "?X = Some (r1, req1)" "(if r1 \<noteq> 0 then Some (- 1, req1, s) else do {
         (d, req) \<leftarrow> request_done req1; req \<leftarrow> (if d then dechunk_request req else Some req);
         Some (0, req, s) }) = Some (r, req', sc')"
      by (simp_all only: bind.bind_lunit prod.case)
    from 1(1) have q: "qretries req1 = qretries req"
      by (auto split: if_splits dest!: process_request_contents_keeps)
    show ?thesis
    proof (cases "r1 = 0")
      case True
      then obtain d req2 where rd: "request_done req1 = Some (d, req2)"
        using 1(2) by (cases "request_done req1") auto
      then have "(if d then dechunk_request req2 else Some req2) = Some req'"
        using 1(2) True by (cases "if d then dechunk_request req2 else Some req2") auto
      moreover note rd
      ultimately have "request_done req1 = Some (d, req2)"
        "(if d then dechunk_request req2 else Some req2) = Some req'" by simp_all
      then have "qretries req' = qretries req1"
        by (auto split: if_splits dest!: request_done_keeps dechunk_request_keeps)
      with q show ?thesis by simp
    next
      case False
      with 1(2) q show ?thesis by simp
    qed
  qed
qed

lemma parse_path_keeps:
  "parse_path req = Some (p, req') \<Longrightarrow> qretries req' = qretries req \<and> qdone req' = qdone req"
  by (auto simp: parse_path_def bind_Some_iff Let_def split: if_splits)

text \<open>How a read can end: the worker gives up after its twentieth retry, waits to read again, with
  one retry more or none, or waits to write with a complete request.\<close>

lemma read_request_cases:
  assumes "read_request self as cl = Some cl'"
  obtains (gives_up) "cexit cl'" "snd (csocket cl') = snd (csocket cl)"
  | (again) q where "cexit cl' = cexit cl" "cevent cl' = READ" "qretries (crequest cl') = q"
      "q = 0 \<or> q = qretries (crequest cl) \<or> q = qretries (crequest cl) + 1" "q < MAX_RETRIES"
      "snd (csocket cl') = snd (csocket cl)"
  | (complete) "cexit cl' = cexit cl" "cevent cl' = WRITE" "cresponse cl' \<noteq> None" "qdone (crequest cl')"
      "qretries (crequest cl') = 0" "snd (csocket cl') = snd (csocket cl)"
proof -
  obtain r req sc where p: "process_request self as (crequest cl) (fst (csocket cl)) = Some (r, req, sc)"
    using assms by (auto simp: read_request_def bind_Some_iff)
  note q = process_request_retries [OF p]
  show thesis
  proof (cases "r = 0")
    case False
    with assms p show thesis
      using q again gives_up
      by (auto simp: read_request_def retry_request_def bind_Some_iff Let_def
          disconnect_def add_read_socket_def split: if_splits)
  next
    case True
    with assms p have "(if \<not> qdone req then Some (add_read_socket (sfd sc)
          (cl\<lparr>csocket := (sc, snd (csocket cl)), crequest := req\<lparr>qretries := 0\<rparr>\<rparr>))
        else do { (_, req') \<leftarrow> parse_path (req\<lparr>qretries := 0\<rparr>);
          f \<leftarrow> qfd req;
          Some (add_write_socket f (cl\<lparr>csocket := (sc\<lparr>sbuf := None\<rparr>, snd (csocket cl)),
            cresponse := Some (new_response (req\<lparr>qretries := 0\<rparr>)), crequest := req'\<rparr>)) }) = Some cl'"
      by (simp add: read_request_def Let_def cfd_def new_response_def cong: if_cong)
    then show thesis
      using again complete
      by (auto simp: bind_Some_iff add_read_socket_def add_write_socket_def MAX_RETRIES_def
          split: if_splits dest!: parse_path_keeps)
  qed
qed

lemma read_request_inv:
  assumes "worker_inv cl" "\<not> cexit cl" "cevent cl = READ" "read_request self as cl = Some cl'"
  shows "worker_inv cl'"
  using assms(4)
proof (cases rule: read_request_cases)
  case gives_up
  then show ?thesis by (simp add: worker_inv_def)
next
  case (again q)
  then show ?thesis using assms(1,2) by (auto simp: worker_inv_def)
next
  case complete
  then show ?thesis using assms(1,2) by (auto simp: worker_inv_def MAX_RETRIES_def)
qed

lemma send_response_exits: "send_response e cl = Some cl' \<Longrightarrow> cexit cl'"
  by (auto simp: send_response_def bind_Some_iff disconnect_def split: option.splits)

lemma client_poll_inv:
  assumes "worker_inv cl" "\<not> cexit cl" "client_poll e self junk as cl = Some cl'"
  shows "worker_inv cl'"
proof -
  have d: "worker_inv (disconnect cl)" by (simp add: worker_inv_def disconnect_def)
  from assms(1,2) consider "cevent cl = READ" | "cevent cl = WRITE" by (auto simp: worker_inv_def)
  then show ?thesis
  proof cases
    case 1
    with assms(3) d read_request_inv [OF assms(1,2) 1] show ?thesis
      by (auto simp: client_poll_def bind_Some_iff Let_def split: if_splits)
  next
    case 2
    with assms(3) d show ?thesis
      by (auto simp: client_poll_def bind_Some_iff Let_def worker_inv_def split: if_splits dest: send_response_exits)
  qed
qed

lemma worker_step_inv: "worker_step e self cl cl' \<Longrightarrow> worker_inv cl \<Longrightarrow> worker_inv cl'"
proof (induction rule: worker_step.induct)
  case (poll cl ev evs junk as cl')
  then have "worker_inv (cl\<lparr>cqueue := evs\<rparr>)" "\<not> cexit (cl\<lparr>cqueue := evs\<rparr>)" by (simp_all add: worker_inv_def)
  then show ?case using poll.hyps(5) by (rule client_poll_inv)
qed (simp_all add: worker_inv_def)

lemma reachable_iff:
  "reachable e self sc cl \<longleftrightarrow> (\<exists>cl0. handle sc = Some cl0 \<and> (worker_step e self)\<^sup>*\<^sup>* cl0 cl)"
proof
  assume "reachable e self sc cl"
  then show "\<exists>cl0. handle sc = Some cl0 \<and> (worker_step e self)\<^sup>*\<^sup>* cl0 cl"
    by (induction rule: reachable.induct) (blast intro: rtranclp.rtrancl_into_rtrancl)+
next
  assume "\<exists>cl0. handle sc = Some cl0 \<and> (worker_step e self)\<^sup>*\<^sup>* cl0 cl"
  then obtain cl0 where "(worker_step e self)\<^sup>*\<^sup>* cl0 cl" "handle sc = Some cl0" by blast
  then show "reachable e self sc cl"
    by (induction rule: rtranclp_induct) (blast intro: reachable.intros)+
qed

lemma handle_inv: "handle sc = Some cl \<Longrightarrow> worker_inv cl"
  by (auto simp: handle_def open_request_def new_request_def parse_host_def worker_inv_def
      add_read_socket_def MAX_RETRIES_def)

interpretation worker: invariant_system "\<lambda>cl. handle sc = Some cl" "worker_step e self" "reachable e self sc" worker_inv
  for e self sc
  by unfold_locales (rule reachable_iff, rule handle_inv, assumption, rule worker_step_inv)

text \<open>C5: In every state a worker can reach it has exited, or it waits to read or to write; when it
  waits to write, its request is complete and its response exists; it retries a failed read at
  most 20 times, and it has not sent a byte: whatever is sent is sent by one handler, at whose end
  the worker exits.  The states for requests to other servers are never reached.\<close>

theorem worker_invariant:
  assumes "reachable e self sc cl"
  shows "cexit cl \<or> ((cevent cl = READ \<or> cevent cl = WRITE \<and> cresponse cl \<noteq> None \<and> qdone (crequest cl))
    \<and> 0 \<le> qretries (crequest cl) \<and> qretries (crequest cl) \<le> 20 \<and> sent (snd (csocket cl)) = [])"
  using worker.reach_inv [OF assms] by (simp add: worker_inv_def MAX_RETRIES_def)

theorem worker_invariant_witness:
  "\<exists>cl. reachable sample_env 0 (create_socket 5 False \<lparr>sin_addr = 1, sin_port = 80\<rparr>) cl \<and> cexit cl
    \<and> (cexit cl \<or> ((cevent cl = READ \<or> cevent cl = WRITE \<and> cresponse cl \<noteq> None \<and> qdone (crequest cl))
      \<and> 0 \<le> qretries (crequest cl) \<and> qretries (crequest cl) \<le> 20 \<and> sent (snd (csocket cl)) = []))"
proof -
  let ?sc = "create_socket 5 False \<lparr>sin_addr = 1, sin_port = 80\<rparr>"
  obtain cl where cl: "handle ?sc = Some cl" "\<not> cexit cl"
    by (simp add: handle_def open_request_def new_request_def parse_host_def add_read_socket_def)
  have a: "worker_step sample_env 0 cl (cl\<lparr>calarm := True\<rparr>)" using cl(2) by (rule worker_step.alarm)
  have l: "worker_step sample_env 0 (cl\<lparr>calarm := True\<rparr>) (cl\<lparr>calarm := True, cexit := True\<rparr>)"
    using worker_step.leave [of "cl\<lparr>calarm := True\<rparr>" sample_env 0] cl(2) by simp
  have r: "reachable sample_env 0 ?sc (cl\<lparr>calarm := True, cexit := True\<rparr>)"
    using reachable.step [OF reachable.step [OF reachable.start [OF cl(1)] a] l] .
  from worker_invariant [OF r] r show ?thesis by (intro exI [of _ "cl\<lparr>calarm := True, cexit := True\<rparr>"]) simp
qed

end
