(* ===== verification/Worker_Spec.thy ===== *)
theory Worker_Spec
  imports Client_Props Sockets_Props
begin

section \<open>The protocol of a worker\<close>

text \<open>
  What a worker promises to its connection, as a machine of three phases, and that every step of the
  event loop is a step of that machine: it reads with a bounded number of failures, answers once, and
  is gone.
\<close>

subsection \<open>The specification\<close>

datatype phase = Reading nat | Answering | Gone

inductive phase_step :: "phase \<Rightarrow> phase \<Rightarrow> bool" where
  progress: "phase_step (Reading n) (Reading 0)"
| retry: "Suc n < 20 \<Longrightarrow> phase_step (Reading n) (Reading (Suc n))"
| complete: "phase_step (Reading n) Answering"
| answer: "phase_step Answering Gone"
| give_up: "phase_step (Reading n) Gone"

inductive_simps phase_step_simps:
  "phase_step (Reading n) p" "phase_step Answering p" "phase_step Gone p"

definition phase_of :: "client \<Rightarrow> phase" where
  "phase_of cl = (if cexit cl then Gone else if cevent cl = WRITE then Answering
     else Reading (nat (qretries (crequest cl))))"

subsection \<open>The event loop implements it\<close>

lemma phase_of_exit: "cexit cl \<Longrightarrow> phase_of cl = Gone"
  by (simp add: phase_of_def)

lemma phase_gone: "\<not> cexit cl \<Longrightarrow> phase_step (phase_of cl) Gone"
  by (simp add: phase_of_def phase_step_simps)

lemma read_request_phase:
  assumes "worker_inv cl" "\<not> cexit cl" "cevent cl = READ" "read_request self as cl = Some cl'"
  shows "(phase_of cl' = phase_of cl \<or> phase_step (phase_of cl) (phase_of cl')) \<and> snd (csocket cl') = snd (csocket cl)"
proof -
  have n: "0 \<le> qretries (crequest cl)" using assms(1,2) by (simp add: worker_inv_def)
  from assms(4) show ?thesis
  proof (cases rule: read_request_cases)
    case gives_up
    then show ?thesis using phase_gone [OF assms(2)] by (simp add: phase_of_exit)
  next
    case (again q)
    consider "q = 0" | "q = qretries (crequest cl)" | "q = qretries (crequest cl) + 1" using again(4) by blast
    then show ?thesis
    proof cases
      case 3
      then have "nat q = Suc (nat (qretries (crequest cl)))" "Suc (nat (qretries (crequest cl))) < 20"
        using n again(5) by (simp_all add: MAX_RETRIES_def nat_add_distrib)
      then show ?thesis using again assms(2,3) by (simp add: phase_of_def phase_step_simps)
    qed (use again assms(2,3) in \<open>simp_all add: phase_of_def phase_step_simps\<close>)
  next
    case complete
    then show ?thesis using assms(2,3) by (simp add: phase_of_def phase_step_simps)
  qed
qed

lemma client_poll_phase:
  assumes "worker_inv cl" "\<not> cexit cl" "client_poll e self junk as cl = Some cl'"
  shows "phase_of cl' = phase_of cl \<or> phase_step (phase_of cl) (phase_of cl')"
    "sent (snd (csocket cl')) \<noteq> sent (snd (csocket cl)) \<Longrightarrow> phase_of cl = Answering \<and> phase_of cl' = Gone"
proof -
  from assms(1,2) consider (r) "cevent cl = READ" | (w) "cevent cl = WRITE" by (auto simp: worker_inv_def)
  then have "(phase_of cl' = phase_of cl \<or> phase_step (phase_of cl) (phase_of cl'))
    \<and> (sent (snd (csocket cl')) \<noteq> sent (snd (csocket cl)) \<longrightarrow> phase_of cl = Answering \<and> phase_of cl' = Gone)"
  proof cases
    case r
    from assms(3) r consider "cl' = disconnect cl" | "read_request self as cl = Some cl'"
      by (auto simp: client_poll_def bind_Some_iff Let_def split: if_splits)
    then show ?thesis
    proof cases
      case 1
      then show ?thesis using phase_gone [OF assms(2)] by (simp add: disconnect_def phase_of_exit)
    next
      case 2
      then show ?thesis using read_request_phase [OF assms(1,2) r] by simp
    qed
  next
    case w
    have "cexit cl'"
      using assms(3) w send_response_exits
      by (auto simp: client_poll_def bind_Some_iff Let_def disconnect_def split: if_splits)
    then show ?thesis using w assms(2) by (simp add: phase_of_def phase_step_simps)
  qed
  then show "phase_of cl' = phase_of cl \<or> phase_step (phase_of cl) (phase_of cl')"
    "sent (snd (csocket cl')) \<noteq> sent (snd (csocket cl)) \<Longrightarrow> phase_of cl = Answering \<and> phase_of cl' = Gone" by simp_all
qed

lemma worker_step_phase:
  assumes "reachable e self sc cl" "worker_step e self cl cl'"
  shows "phase_of cl' = phase_of cl \<or> phase_step (phase_of cl) (phase_of cl')"
    "sent (snd (csocket cl')) = sent (snd (csocket cl)) \<or> phase_of cl = Answering \<and> phase_of cl' = Gone"
    "phase_of cl \<noteq> Gone"
proof -
  have "(phase_of cl' = phase_of cl \<or> phase_step (phase_of cl) (phase_of cl'))
    \<and> (sent (snd (csocket cl')) = sent (snd (csocket cl)) \<or> phase_of cl = Answering \<and> phase_of cl' = Gone)
    \<and> phase_of cl \<noteq> Gone"
    using assms(2) worker.reach_inv [OF assms(1)]
  proof (induction rule: worker_step.induct)
    case (poll cl ev evs junk as cl')
    have q: "phase_of (cl\<lparr>cqueue := evs\<rparr>) = phase_of cl" "worker_inv (cl\<lparr>cqueue := evs\<rparr>)" "\<not> cexit (cl\<lparr>cqueue := evs\<rparr>)"
      "phase_of cl \<noteq> Gone" using poll by (simp_all add: phase_of_def worker_inv_def)
    show ?case using client_poll_phase [OF q(2,3) poll(5)] q by auto
  next
    case (alarm cl)
    then show ?case by (simp add: phase_of_def)
  next
    case (leave cl)
    then show ?case using phase_gone [OF leave(1)] by (simp add: phase_of_def)
  qed
  then show "phase_of cl' = phase_of cl \<or> phase_step (phase_of cl) (phase_of cl')"
    "sent (snd (csocket cl')) = sent (snd (csocket cl)) \<or> phase_of cl = Answering \<and> phase_of cl' = Gone"
    "phase_of cl \<noteq> Gone" by blast+
qed

interpretation protocol: simulation "\<lambda>cl. handle sc = Some cl" "worker_step e self" "reachable e self sc" phase_of phase_step
  for e self sc
  by unfold_locales (rule worker_step_phase(1))

lemma gone_run: "(worker_step e self)\<^sup>*\<^sup>* cl t \<Longrightarrow> reachable e self sc cl \<Longrightarrow> phase_of cl = Gone \<Longrightarrow> t = cl"
  by (erule converse_rtranclpE, simp, drule (1) worker_step_phase(3), simp)

text \<open>C6: Every step of a worker is a step of the protocol or leaves its phase as it is, and the only
  step that sends anything leads from answering to gone: a connection gets at most one answer, after
  its request is complete.  So does every run from there: it goes through the phases of the protocol,
  and a worker that has answered does nothing more.\<close>

theorem worker_implements_protocol:
  assumes "reachable e self sc cl" "worker_step e self cl cl'" "(worker_step e self)\<^sup>*\<^sup>* cl' t"
  shows "(phase_of cl' = phase_of cl \<or> phase_step (phase_of cl) (phase_of cl'))
    \<and> (sent (snd (csocket cl')) = sent (snd (csocket cl)) \<or> phase_of cl = Answering \<and> phase_of cl' = Gone)
    \<and> phase_of cl \<noteq> Gone \<and> phase_step\<^sup>*\<^sup>* (phase_of cl') (phase_of t) \<and> (phase_of cl' = Gone \<longrightarrow> t = cl')"
proof -
  note s = worker_step_phase [OF assms(1,2)]
  have r: "reachable e self sc cl'" using assms(1,2) by (rule worker.reach_next)
  note run = protocol.run_arun [OF assms(3) r]
  have g: "phase_of cl' = Gone \<longrightarrow> t = cl'" using gone_run [OF assms(3) r] ..
  show ?thesis by (intro conjI s run g)
qed

subsection \<open>Failing reads\<close>

text \<open>A read that fails.\<close>

lemma failing_read:
  assumes "wf_str (sbuf sc)"
  shows "\<exists>b. wf_str b \<and> read_socket (Fail n # as) sc = Some (None, sc\<lparr>sbuf := b\<rparr>)"
proof -
  have log: "error_log ''ERROR %i occured'' [AReg (of_int n)] = Some ()" by (simp add: error_log_def new_str_def)
  obtain b where "(if sbuf sc \<noteq> None then clone (sbuf sc) else Some (blank 0)) = Some b"
    using assms by (cases rule: wf_strE) (auto simp: clone_view)
  then show ?thesis using log by (intro exI [of _ "view (chars_of b) []"]) (simp add: read_socket_def wf_str_def)
qed

text \<open>A worker that waits to read, after \<open>k\<close> failures.\<close>

definition waits :: "int \<Rightarrow> client \<Rightarrow> bool" where
  "waits k cl \<longleftrightarrow> \<not> cexit cl \<and> \<not> calarm cl \<and> cevent cl = READ \<and> cqueue cl \<noteq> [] \<and> qretries (crequest cl) = k
     \<and> qfd (crequest cl) \<noteq> None \<and> \<not> sclosed (fst (csocket cl)) \<and> wf_str (sbuf (fst (csocket cl))) \<and> sent (snd (csocket cl)) = []"

lemma failing_step:
  assumes "waits k cl" "cqueue cl = ev # evs"
  shows "\<exists>cl'. client_poll e self junk (Fail n # as) (cl\<lparr>cqueue := evs\<rparr>) = Some cl'
    \<and> (if k + 1 \<ge> 20 then cexit cl' \<and> sent (snd (csocket cl')) = [] else waits (k + 1) cl')"
proof -
  obtain sc w where sc: "csocket cl = (sc, w)" by force
  obtain b where b: "wf_str b" "read_socket (Fail n # as) sc = Some (None, sc\<lparr>sbuf := b\<rparr>)"
    using failing_read [of sc n as] assms(1) sc by (auto simp: waits_def)
  let ?req = "(crequest cl)\<lparr>qcontents := None, qretries := k + 1\<rparr>"
  have logs: "error_log (''No request contents on request %i'' @ [LF]) [AReg self] = Some ()"
    "debug_log ''retries %i'' [AReg (of_int (k + 1))] = Some ()"
    "error_log (''Failed to read request'' @ [LF]) [] = Some ()"
    by (simp_all add: error_log_def debug_log_def new_str_def)
  have p: "process_request self (Fail n # as) (crequest cl) sc = Some (- 1, ?req, sc\<lparr>sbuf := b\<rparr>)"
    using b(2) logs(1,2) assms(1) by (simp add: process_request_def request_retry_def Let_def waits_def)
  have poll: "client_poll e self junk (Fail n # as) (cl\<lparr>cqueue := evs\<rparr>)
      = read_request self (Fail n # as) (cl\<lparr>cqueue := evs\<rparr>)"
    using assms(1) sc by (simp add: client_poll_def waits_def closed_socket_def Let_def)
  have r: "read_request self (Fail n # as) (cl\<lparr>cqueue := evs\<rparr>)
      = retry_request (cl\<lparr>cqueue := evs, crequest := ?req, csocket := (sc\<lparr>sbuf := b\<rparr>, w)\<rparr>)"
    using p sc by (simp add: read_request_def Let_def)
  show ?thesis
    unfolding poll r using assms(1) sc b(1) logs(3)
    by (auto simp: retry_request_def MAX_RETRIES_def waits_def disconnect_def add_read_socket_def)
qed

lemma failing_run:
  "waits k cl \<Longrightarrow> 0 \<le> k \<Longrightarrow> k < 20 \<Longrightarrow>
    \<exists>cl'. run_loop e self (map (\<lambda>(j, n). (j, [Fail n])) fs) cl = Some cl'
    \<and> (if int (length fs) + k < 20 then waits (k + int (length fs)) cl' else cexit cl' \<and> sent (snd (csocket cl')) = [])"
proof (induction fs arbitrary: k cl)
  case (Cons f fs)
  obtain j n where f: "f = (j, n)" by force
  obtain ev evs where q: "cqueue cl = ev # evs" using Cons.prems(1) by (cases "cqueue cl") (auto simp: waits_def)
  obtain cl1 where s: "client_poll e self j [Fail n] (cl\<lparr>cqueue := evs\<rparr>) = Some cl1"
    "if k + 1 \<ge> 20 then cexit cl1 \<and> sent (snd (csocket cl1)) = [] else waits (k + 1) cl1"
    using failing_step [OF Cons.prems(1) q, of e self j n "[]"] by blast
  have run: "run_loop e self (map (\<lambda>(j, n). (j, [Fail n])) (f # fs)) cl
      = run_loop e self (map (\<lambda>(j, n). (j, [Fail n])) fs) cl1"
    using Cons.prems(1) q s(1) by (simp add: f waits_def)
  show ?case
  proof (cases "k + 1 \<ge> 20")
    case True
    then have "cexit cl1" "sent (snd (csocket cl1)) = []" using s(2) by simp_all
    moreover from this(1) have "run_loop e self (map (\<lambda>(j, n). (j, [Fail n])) fs) cl1 = Some cl1"
      by (cases fs) auto
    ultimately show ?thesis unfolding run using True Cons.prems by simp
  next
    case False
    then have "\<exists>cl'. run_loop e self (map (\<lambda>(j, n). (j, [Fail n])) fs) cl1 = Some cl'
        \<and> (if int (length fs) + (k + 1) < 20 then waits (k + 1 + int (length fs)) cl' else cexit cl' \<and> sent (snd (csocket cl')) = [])"
      using s(2) Cons.prems(2) by (intro Cons.IH) simp_all
    moreover have "int (length (f # fs)) + k = int (length fs) + (k + 1)" "k + int (length (f # fs)) = k + 1 + int (length fs)"
      by simp_all
    ultimately show ?thesis unfolding run by (simp only:)
  qed
qed (simp add: waits_def)

text \<open>C31: A worker whose reads fail is not kept busy for ever: it reads on after up to 19 failures, and
  exits at the twentieth without having sent anything.\<close>

theorem failing_reads_end:
  assumes "handle sc = Some cl" "\<not> sclosed sc" "wf_str (sbuf sc)"
  shows "\<exists>cl'. run_loop e self (map (\<lambda>(j, n). (j, [Fail n])) fs) cl = Some cl'
    \<and> (cexit cl' \<longleftrightarrow> 20 \<le> length fs) \<and> sent (snd (csocket cl')) = []"
proof -
  have "waits 0 cl"
    using assms by (auto simp: handle_def open_request_def new_request_def parse_host_def waits_def add_read_socket_def)
  from failing_run [OF this order.refl zero_less_numeral, of e self fs]
  obtain cl' where "run_loop e self (map (\<lambda>(j, n). (j, [Fail n])) fs) cl = Some cl'"
    "if int (length fs) + 0 < 20 then waits (0 + int (length fs)) cl' else cexit cl' \<and> sent (snd (csocket cl')) = []"
    by blast
  then show ?thesis by (intro exI [of _ cl']) (auto simp: waits_def split: if_splits)
qed

theorem failing_reads_end_witness:
  "\<exists>cl cl'. handle (create_socket 5 False \<lparr>sin_addr = 1, sin_port = 80\<rparr>) = Some cl
    \<and> run_loop sample_env 0 (map (\<lambda>(j, n). (j, [Fail n])) (replicate 20 (0, 104))) cl = Some cl' \<and> cexit cl'"
proof -
  obtain cl where cl: "handle (create_socket 5 False \<lparr>sin_addr = 1, sin_port = 80\<rparr>) = Some cl"
    by (simp add: handle_def open_request_def new_request_def parse_host_def)
  from failing_reads_end [OF this, of sample_env 0 "replicate 20 (0, 104)"] cl show ?thesis
    by (auto simp: create_socket_def resume_socket_def wf_str_def)
qed

theorem worker_implements_protocol_witness:
  "\<exists>cl cl'. reachable sample_env 0 (create_socket 5 False \<lparr>sin_addr = 1, sin_port = 80\<rparr>) cl \<and> worker_step sample_env 0 cl cl'
    \<and> phase_of cl = Reading 0 \<and> (phase_of cl' = Reading 0 \<or> phase_step (Reading 0) (phase_of cl'))"
proof -
  let ?sc = "create_socket 5 False \<lparr>sin_addr = 1, sin_port = 80\<rparr>"
  obtain cl where cl: "handle ?sc = Some cl" "\<not> cexit cl" "phase_of cl = Reading 0"
    by (simp add: handle_def open_request_def new_request_def parse_host_def add_read_socket_def phase_of_def)
  have r: "reachable sample_env 0 ?sc cl" using cl(1) by (rule reachable.start)
  have a: "worker_step sample_env 0 cl (cl\<lparr>calarm := True\<rparr>)" using cl(2) by (rule worker_step.alarm)
  from worker_implements_protocol [OF r a rtranclp.rtrancl_refl] r a cl(3) show ?thesis by metis
qed

end
