(* ===== verification/Head_Cuts.thy ===== *)
theory Head_Cuts
  imports Requests_Props "HOL-Library.Sublist"
begin

section \<open>Where the head of a request may be cut\<close>

text \<open>
  The head of a request is parsed again with every read until it is complete.  What the worker does
  with a part of it depends on where the part ends: behind a field, or inside the value of one, it
  reads on; before the first field, or inside the name of one, it dereferences NULL.
\<close>

subsection \<open>A value that has arrived in part\<close>

lemma value_len_end:
  assumes "\<forall>d \<in> set (butlast (c # vs)). no_eol d"
  shows "value_len (view (xs @ c # vs) ys) (int (length (xs @ c # vs))) (int (length xs) - k) c (k + 1)
    = Some (k + 1 + int (length vs))"
  using assms
proof (induction vs arbitrary: xs c k)
  case (Cons d vs)
  have "at (view (xs @ c # d # vs) ys) (int (length xs) - k + (k + 1)) = Some d"
    using at_pieces [of "xs @ [c]" d vs ys] by (simp add: add.commute)
  moreover have "value_len (view (xs @ c # d # vs) ys) (int (length (xs @ c # d # vs)))
      (int (length xs) - k) d (k + 1 + 1) = Some (k + 1 + 1 + int (length vs))"
    using Cons.IH [of d "xs @ [c]" "k + 1"] Cons.prems by simp
  ultimately show ?case
    using Cons.prems by (subst value_len.simps) (auto simp add: algebra_simps)
qed (subst value_len.simps, simp)

text \<open>The value loses its last byte, which is taken for the end of the line.\<close>

lemma read_value_end:
  assumes "nslots h = i + 1" "0 \<le> i" "i < MAX_HEADERS" "good_str (hkey (slots h i))"
    "\<forall>c \<in> set sp. isspace c" "w = [] \<or> \<not> isspace (hd w)" "\<forall>c \<in> set (butlast w). no_eol c"
  shows "read_value (view (xs @ CHR '':'' # sp @ w) ys) (int (length (xs @ CHR '':'' # sp @ w))) (int (length xs)) i h =
    Some (int (length (xs @ CHR '':'' # sp @ butlast w)),
      set_value h i (view (butlast w) (drop (length (butlast w)) w @ ys)))"
proof -
  let ?bs = "xs @ CHR '':'' # sp @ w" and ?b = "int (length (xs @ CHR '':'' # sp))"
  let ?v = "view (butlast w) (drop (length (butlast w)) w @ ys)"
  have n: "nat (int (length xs) + 1) = length (xs @ [CHR '':''])" by simp
  have d: "drop (length (xs @ [CHR '':''])) ?bs = sp @ w" by simp
  have t: "takeWhile isspace (sp @ w) = sp"
    using assms(5,6) by (cases w) (simp_all add: takeWhile_append)
  have s: "scan_while isspace (at (view ?bs ys)) (int (length xs) + 1) = Some ?b"
    using str_at.scan_while_eq [of "view ?bs ys" "int (length xs) + 1" isspace]
    unfolding chars_of_view n d t by simp
  have "\<exists>c. at (view ?bs ys) ?b = Some c \<and> value_len (view ?bs ys) (int (length ?bs)) ?b c 1 = Some (1 + int (length (butlast w)))"
  proof (cases w)
    case Nil
    then show ?thesis by (subst value_len.simps) (simp add: at_view)
  next
    case (Cons c vs)
    have "at (view ?bs ys) ?b = Some c" using at_pieces [of "xs @ CHR '':'' # sp" c vs ys] by (simp add: Cons)
    moreover have "value_len (view ?bs ys) (int (length ?bs)) ?b c 1 = Some (1 + int (length (butlast w)))"
      using value_len_end [of c vs "xs @ CHR '':'' # sp" ys 0] assms(7) by (simp add: Cons)
    ultimately show ?thesis by blast
  qed
  then obtain c where c: "at (view ?bs ys) ?b = Some c"
    "value_len (view ?bs ys) (int (length ?bs)) ?b c 1 = Some (1 + int (length (butlast w)))" by blast
  have w: "w @ ys = butlast w @ drop (length (butlast w)) w @ ys"
    by (cases w rule: rev_cases) simp_all
  have r: "ref_at (view ?bs ys) ?b (int (length (butlast w))) = Some ?v"
    using ref_at_pieces [of "xs @ CHR '':'' # sp" w ys "int (length (butlast w))"]
    unfolding w ref_append by simp
  obtain ks kt where kk: "hkey (slots h i) = view ks kt"
    using assms(4) by (auto simp: good_str_def wf_str_view)
  let ?h = "set_value h i ?v"
  have kv: "Key (Some ?h) i = Some (view ks kt)" "Value (Some ?h) i = Some ?v"
    using assms(1-3) kk by (simp_all add: Key_live Value_live set_value_def)
  have log: "debug_log ''Headers[%i] [%s] = [%s]'' [AReg (of_int i), AStr (view ks kt), AStr ?v] = Some ()"
    by (simp add: debug_log_def new_str_def)
  show ?thesis
    unfolding read_value_def s using c r kv log by (simp add: Let_def)
qed

lemma parse_headers_value:
  assumes "wf_fields kvs" "int (length kvs) < MAX_HEADERS" "\<forall>c \<in> set line. no_eol c" "wf_key k"
    "\<forall>c \<in> set sp. isspace c" "w = [] \<or> \<not> isspace (hd w)" "\<forall>c \<in> set (butlast w). no_eol c"
  shows "\<exists>h. parse_headers (view (line @ CRLF @ header_lines kvs @ k @ CHR '':'' # sp @ w) ys) body = Some (Some h, body)
    \<and> wf_headers h \<and> entries h = kvs @ [(k, butlast w)] \<and> nslots h = int (length kvs) + 1"
proof -
  define xs where "xs = line @ CRLF @ header_lines kvs"
  define bs where "bs = xs @ k @ CHR '':'' # sp @ w"
  obtain a as where k: "k = a # as" "no_eol a" "CHR '':'' \<notin> set as" "a \<noteq> CHR '':''"
    using assms(4) by (cases k) (auto simp: wf_key_def)
  have b: "line @ CRLF @ header_lines kvs @ k @ CHR '':'' # sp @ w = bs" by (simp add: bs_def xs_def)
  have b': "bs = line @ CRLF @ header_lines kvs @ k @ CHR '':'' # sp @ w" by (simp add: bs_def xs_def)
  obtain h n where h: "parse_headers (view bs ys) body =
      parse_loop (view bs ys) (int (length bs)) (int (length xs)) (nslots h) True n h body"
    "wf_headers h" "entries h = kvs" "nslots h = int (length kvs)"
    using parse_headers_lines [OF assms(1-3) b', of ys body] unfolding xs_def by auto
  let ?i = "nslots h" and ?kv = "view k (CHR '':'' # sp @ w @ ys)" and ?vv = "view (butlast w) (drop (length (butlast w)) w @ ys)"
  let ?h1 = "set_key h ?i ?kv" and ?h2 = "put_slot (h\<lparr>nslots := nslots h + 1\<rparr>) ?i ?kv ?vv"
  have m: "?i < MAX_HEADERS" "0 \<le> ?i" using assms(2) h(4) by simp_all
  have c: "at (view bs ys) (int (length xs)) = Some a"
    using at_pieces [of xs a "as @ CHR '':'' # sp @ w" ys] by (simp add: bs_def k)
  have rk: "read_key (view bs ys) (int (length bs)) (int (length xs)) ?i h = Some (int (length xs) + int (length as), last k, ?h1)"
    using read_key_eq [OF k(3), of xs a "sp @ w" ys ?i h] by (simp add: bs_def k)
  have lk: "last k \<noteq> CHR '':''" using assms(4) unfolding wf_key_def by (metis last_in_set)
  have rv: "read_value (view bs ys) (int (length bs)) (int (length (xs @ k))) ?i ?h1
      = Some (int (length (xs @ k @ CHR '':'' # sp @ butlast w)), ?h2)"
    using read_value_end [of ?h1 ?i sp w "xs @ k" ys] m assms(5-7)
    by (simp add: bs_def set_key_def good_str_def flip: set_key_value)
  have c2: "at (view bs ys) (int (length (xs @ k))) = Some CHR '':''"
    using at_pieces [of "xs @ k" "CHR '':''" "sp @ w" ys] by (simp add: bs_def)
  have key: "Key (Some ?h1) ?i = Some ?kv" using m by (simp add: Key_live set_key_def)
  have lb: "int (length xs) < int (length bs)" "int (length (xs @ k)) < int (length bs)" by (simp_all add: bs_def)
  have s1: "parse_loop (view bs ys) (int (length bs)) (int (length xs)) ?i True n h body =
      parse_loop (view bs ys) (int (length bs)) (int (length (xs @ k))) ?i True 0 ?h1 body"
    using m lb c k(2) rk lk by (subst parse_loop.simps) (simp add: Key_past k(1) add.commute)
  have e: "\<not> int (length (xs @ k @ CHR '':'' # sp @ butlast w)) + 1 < int (length bs)"
    by (cases w rule: rev_cases) (simp_all add: bs_def)
  have s2: "parse_loop (view bs ys) (int (length bs)) (int (length (xs @ k))) ?i True 0 ?h1 body =
      parse_loop (view bs ys) (int (length bs)) (int (length (xs @ k @ CHR '':'' # sp @ butlast w)) + 1) (?i + 1) False 0 ?h2 body"
    using m lb c2 rv key by (subst parse_loop.simps) simp
  have s3: "parse_loop (view bs ys) (int (length bs)) (int (length (xs @ k @ CHR '':'' # sp @ butlast w)) + 1) (?i + 1) False 0 ?h2 body
      = Some (Some ?h2, body)"
    using e by (subst parse_loop.simps) (simp only: simp_thms if_False)
  have "wf_slot \<lparr>hkey = ?kv, hvalue = ?vv\<rparr>" by (simp add: wf_slot_def)
  then show ?thesis
    unfolding b using h s1 s2 s3 add_slot_wf [OF h(2) m(1), of ?kv ?vv] by (intro exI [of _ ?h2]) (simp add: put_slot_def)
qed

subsection \<open>The cuts after which the worker reads on\<close>

text \<open>Behind a field; between the two bytes of the line break at the end; or behind the colon of a
  field, up to between the two bytes of its line break.\<close>

definition partial_head :: "string \<Rightarrow> (string \<times> string) list \<Rightarrow> string \<Rightarrow> bool" where
  "partial_head line kvs c \<longleftrightarrow> (\<exists>k r. k \<le> length kvs \<and> c = line @ CRLF @ header_lines (take k kvs) @ r
     \<and> (0 < k \<and> (r = [] \<or> k = length kvs \<and> r = [CR])
        \<or> k < length kvs \<and> (\<exists>t. r = fst (kvs ! k) @ CHR '':'' # t \<and> prefix t ('' '' @ snd (kvs ! k) @ [CR]))))"

lemma partial_head_length:
  assumes "partial_head line kvs c"
  shows "length c < length (line @ CRLF @ header_lines kvs @ CRLF)"
proof -
  obtain k r where c: "k \<le> length kvs" "c = line @ CRLF @ header_lines (take k kvs) @ r"
    "0 < k \<and> (r = [] \<or> k = length kvs \<and> r = [CR])
      \<or> k < length kvs \<and> (\<exists>t. r = fst (kvs ! k) @ CHR '':'' # t \<and> prefix t ('' '' @ snd (kvs ! k) @ [CR]))"
    using assms unfolding partial_head_def by blast
  have l: "length r < length (header_line (kvs ! k))" if "k < length kvs" "r = fst (kvs ! k) @ CHR '':'' # t"
    "prefix t ('' '' @ snd (kvs ! k) @ [CR])" for t
    using prefix_length_le [OF that(3)] by (simp add: that(2) header_line_def)
  have "length r < length (header_lines (drop k kvs) @ CRLF)"
    using c(3)
  proof (elim disjE conjE exE)
    fix t assume t: "k < length kvs" "r = fst (kvs ! k) @ CHR '':'' # t" "prefix t ('' '' @ snd (kvs ! k) @ [CR])"
    have "header_lines (drop k kvs) = header_line (kvs ! k) @ header_lines (drop (Suc k) kvs)"
      using Cons_nth_drop_Suc [OF t(1)] by (metis concat.simps(2) header_lines_def list.simps(9))
    then show ?thesis using l [OF t] by simp
  qed simp_all
  moreover have "header_lines kvs = header_lines (take k kvs) @ header_lines (drop k kvs)"
    by (simp add: header_lines_def flip: concat_append map_append)
  ultimately show ?thesis by (simp add: c(2))
qed

lemma value_prefix:
  assumes "prefix t ('' '' @ v @ [CR])" "wf_value v"
  shows "\<exists>sp w. t = sp @ w \<and> (\<forall>c \<in> set sp. isspace c) \<and> (w = [] \<or> \<not> isspace (hd w)) \<and> (\<forall>c \<in> set (butlast w). no_eol c)"
proof (cases t)
  case Nil
  then show ?thesis by (intro exI [of _ "[]"]) simp
next
  case (Cons c w)
  then have w: "c = CHR '' ''" "prefix w (v @ [CR])" using assms(1) by simp_all
  obtain z where z: "v @ [CR] = w @ z" using w(2) by (rule prefixE)
  have v: "v \<noteq> []" "\<not> isspace (hd v)" "\<forall>c \<in> set v. no_eol c" using assms(2) by (simp_all add: wf_value_def)
  have "w = [] \<or> hd w = hd v" using z v(1) by (metis hd_append2)
  moreover have "set (butlast w) \<subseteq> set v"
  proof (cases z rule: rev_cases)
    case (snoc z' d)
    then have "v @ [CR] = (w @ z') @ [d]" unfolding append_assoc using z by (simp only:)
    then have "v = w @ z'" unfolding append1_eq_conv by blast
    then show ?thesis by (auto dest: in_set_butlastD)
  qed (use z in auto)
  ultimately have "w = [] \<or> \<not> isspace (hd w)" "\<forall>c \<in> set (butlast w). no_eol c" using v(2,3) by (metis, blast)
  moreover have "t = '' '' @ w" "\<forall>c \<in> set '' ''. isspace c" using Cons w(1) by (simp_all add: isspace_def)
  ultimately show ?thesis by (intro exI [of _ "'' ''"] exI [of _ w] conjI)
qed

lemma wf_fields_take: "wf_fields kvs \<Longrightarrow> wf_fields (take k kvs)"
  by (auto simp: wf_fields_def dest: in_set_takeD)

lemma wf_fields_nth:
  assumes "wf_fields kvs" "k < length kvs"
  shows "wf_key (fst (kvs ! k))" "wf_value (snd (kvs ! k))"
  using nth_mem [OF assms(2)] assms(1) by (auto simp: wf_fields_def split_beta)

text \<open>A line break that ends a head in the middle.\<close>

lemma parse_headers_CR:
  assumes "wf_fields kvs" "kvs \<noteq> []" "int (length kvs) < MAX_HEADERS" "\<forall>c \<in> set line. no_eol c"
  shows "\<exists>h. parse_headers (view (line @ CRLF @ header_lines kvs @ [CR]) ys) body = Some (Some h, body)
    \<and> wf_headers h \<and> entries h = kvs"
proof -
  let ?xs = "line @ CRLF @ header_lines kvs"
  obtain h n where h: "parse_headers (view (line @ CRLF @ header_lines kvs @ [CR]) ys) body =
      parse_loop (view (line @ CRLF @ header_lines kvs @ [CR]) ys) (int (length (line @ CRLF @ header_lines kvs @ [CR])))
        (int (length ?xs)) (nslots h) True n h body"
    "wf_headers h" "entries h = kvs" "nslots h = int (length kvs)" "n = 1"
    using parse_headers_lines [OF assms(1,3,4) refl, of "[CR]" ys body] assms(2) by auto
  have m: "nslots h < MAX_HEADERS" using assms(3) h(4) by simp
  have "parse_loop buf l l i True 2 h body = Some (Some h, body)" for buf l i
    by (subst parse_loop.simps) simp
  then show ?thesis
    using h parse_break [OF m, of CR ?xs "[]" ys True 1 h body] by (intro exI [of _ h]) simp
qed

text \<open>All of them leave a table with a field, and room for the address of the peer.\<close>

lemma parse_partial:
  assumes "partial_head line kvs c" "wf_fields kvs" "length kvs < 250" "\<forall>c \<in> set line. no_eol c"
  shows "\<exists>h. parse_headers (view c ys) body = Some (Some h, body) \<and> wf_headers h \<and> entries h \<noteq> []
    \<and> nslots h < MAX_HEADERS"
proof -
  obtain k r where c: "k \<le> length kvs" "c = line @ CRLF @ header_lines (take k kvs) @ r"
    "0 < k \<and> (r = [] \<or> k = length kvs \<and> r = [CR])
      \<or> k < length kvs \<and> (\<exists>t. r = fst (kvs ! k) @ CHR '':'' # t \<and> prefix t ('' '' @ snd (kvs ! k) @ [CR]))"
    using assms(1) unfolding partial_head_def by blast
  have m: "int (length (take k kvs)) < MAX_HEADERS" using assms(3) by (simp add: MAX_HEADERS_def)
  note wf = wf_fields_take [OF assms(2), of k]
  have full: "nslots h < MAX_HEADERS" if "wf_headers h" "entries h = take k kvs" for h
    using length_entries [OF that(1)] that m by (simp add: wf_headers_def)
  have whole: ?thesis if ex: "\<exists>h. parse_headers (view c ys) body = Some (Some h, body) \<and> wf_headers h \<and> entries h = take k kvs" and k: "0 < k"
  proof -
    obtain h where h: "parse_headers (view c ys) body = Some (Some h, body)" "wf_headers h" "entries h = take k kvs"
      using ex by blast
    moreover have "take k kvs \<noteq> []" using c(1) k by (cases kvs; cases k) simp_all
    ultimately show ?thesis using full [OF h(2,3)] by (intro exI [of _ h]) simp
  qed
  from c(3) consider "0 < k" "r = []" | "0 < k" "r = [CR]"
    | t where "k < length kvs" "r = fst (kvs ! k) @ CHR '':'' # t" "prefix t ('' '' @ snd (kvs ! k) @ [CR])" by blast
  then show ?thesis
  proof cases
    case 1
    show ?thesis
      by (rule whole) (use parse_headers_part [OF wf m assms(4), of ys body] 1 in \<open>simp_all add: c(2)\<close>)
  next
    case 2
    then have ne: "take k kvs \<noteq> []" using c(1) by (cases kvs; cases k) simp_all
    show ?thesis
      by (rule whole) (use parse_headers_CR [OF wf ne m assms(4), of ys body] 2 in \<open>simp_all add: c(2)\<close>)
  next
    case (3 t)
    note kv = wf_fields_nth [OF assms(2) 3(1)]
    obtain sp w where w: "t = sp @ w" "\<forall>c \<in> set sp. isspace c" "w = [] \<or> \<not> isspace (hd w)" "\<forall>c \<in> set (butlast w). no_eol c"
      using value_prefix [OF 3(3) kv(2)] by (elim exE conjE)
    have b: "c = line @ CRLF @ header_lines (take k kvs) @ fst (kvs ! k) @ CHR '':'' # sp @ w"
      using c(2) 3(2) w(1) by simp
    obtain h where h: "parse_headers (view c ys) body = Some (Some h, body)" "wf_headers h"
      "entries h = take k kvs @ [(fst (kvs ! k), butlast w)]" "nslots h = int (length (take k kvs)) + 1"
      using parse_headers_value [OF wf m assms(4) kv(1) w(2-4), of ys body] unfolding b by blast
    have "nslots h < MAX_HEADERS" using h(4) 3(1) assms(3) by (simp add: MAX_HEADERS_def)
    with h(1-3) show ?thesis by (intro exI [of _ h]) simp
  qed
qed

subsection \<open>All cuts\<close>

lemma strict_prefix_append:
  assumes "strict_prefix c (xs @ ys)"
  shows "strict_prefix c xs \<or> (\<exists>r. c = xs @ r \<and> strict_prefix r ys)"
  using assms by (auto simp: strict_prefix_def prefix_append)

lemma lines_cut:
  assumes "strict_prefix c (header_lines kvs @ CRLF)"
  shows "\<exists>k r. k \<le> length kvs \<and> c = header_lines (take k kvs) @ r
    \<and> (if k < length kvs then strict_prefix r (header_line (kvs ! k)) else strict_prefix r CRLF)"
  using assms
proof (induction kvs arbitrary: c)
  case Nil
  then show ?case by (intro exI [of _ 0]) (simp add: header_lines_def)
next
  case (Cons kv kvs)
  have "strict_prefix c (header_line kv @ (header_lines kvs @ CRLF))" using Cons.prems by (simp add: header_lines_def)
  from strict_prefix_append [OF this] show ?case
  proof (elim disjE exE conjE)
    assume "strict_prefix c (header_line kv)"
    then show ?thesis by (intro exI [of _ 0] exI [of _ c]) (simp add: header_lines_def)
  next
    fix r assume r: "c = header_line kv @ r" "strict_prefix r (header_lines kvs @ CRLF)"
    obtain k s where k: "k \<le> length kvs" "r = header_lines (take k kvs) @ s"
      "if k < length kvs then strict_prefix s (header_line (kvs ! k)) else strict_prefix s CRLF"
      using Cons.IH [OF r(2)] by (elim exE conjE)
    then show ?thesis by (intro exI [of _ "Suc k"] exI [of _ s]) (simp add: r(1) header_lines_def)
  qed
qed

lemma strict_prefix_snoc: "strict_prefix t (xs @ [x]) \<longleftrightarrow> prefix t xs"
  by (auto simp: strict_prefix_def)

lemma field_cut:
  assumes "strict_prefix r (header_line (key, v))"
  shows "prefix r key \<or> (\<exists>t. r = key @ CHR '':'' # t \<and> prefix t ('' '' @ v @ [CR]))"
proof -
  define x where "x = '' '' @ v @ [CR]"
  have l: "header_line (key, v) = (key @ CHR '':'' # x) @ [LF]" by (simp add: header_line_def x_def)
  have "prefix r (key @ CHR '':'' # x)" using assms unfolding l strict_prefix_snoc .
  then show ?thesis unfolding prefix_append prefix_Cons x_def [symmetric] by auto
qed

text \<open>A cut in the fields: where the worker reads on, or in the name of a field; a cut before them.\<close>

definition cut_in_key :: "string \<Rightarrow> (string \<times> string) list \<Rightarrow> string \<Rightarrow> bool" where
  "cut_in_key line kvs c \<longleftrightarrow> (\<exists>k r. k < length kvs \<and> c = line @ CRLF @ header_lines (take k kvs) @ r
     \<and> prefix r (fst (kvs ! k)) \<and> (r = [] \<longrightarrow> k = 0))"

lemma fields_cut:
  assumes "strict_prefix s (header_lines kvs @ CRLF)" "kvs \<noteq> []" "c = line @ CRLF @ s"
  shows "partial_head line kvs c \<or> cut_in_key line kvs c"
proof -
  from lines_cut [OF assms(1)] obtain k t where k: "k \<le> length kvs" "s = header_lines (take k kvs) @ t"
    "if k < length kvs then strict_prefix t (header_line (kvs ! k)) else strict_prefix t CRLF" by (elim exE conjE)
  have c: "c = line @ CRLF @ header_lines (take k kvs) @ t" by (simp add: assms(3) k(2))
  show ?thesis
  proof (cases "k < length kvs")
    case True
    then have "strict_prefix t (header_line (fst (kvs ! k), snd (kvs ! k)))" using k(3) by simp
    from field_cut [OF this] consider "t = []" "0 < k" | "prefix t (fst (kvs ! k))" "t = [] \<longrightarrow> k = 0"
      | "\<exists>ta. t = fst (kvs ! k) @ CHR '':'' # ta \<and> prefix ta ('' '' @ snd (kvs ! k) @ [CR])" by blast
    then show ?thesis
    proof cases
      case 1
      then show ?thesis unfolding partial_head_def using True c by (intro disjI1 exI [of _ k] exI [of _ t]) simp
    next
      case 2
      then show ?thesis unfolding cut_in_key_def using True c by blast
    next
      case 3
      then show ?thesis unfolding partial_head_def using True c by (intro disjI1 exI [of _ k] exI [of _ t]) simp
    qed
  next
    case False
    then have "k = length kvs" "t = [] \<or> t = [CR]" using k(1,3) by (auto simp: strict_prefix_def prefix_Cons)
    then show ?thesis unfolding partial_head_def using c assms(2) by (intro disjI1 exI [of _ k] exI [of _ t]) auto
  qed
qed

lemma head_cuts:
  assumes "strict_prefix c (line @ CRLF @ header_lines kvs @ CRLF)" "kvs \<noteq> []"
  shows "partial_head line kvs c \<or> prefix c line \<or> c = line @ [CR] \<or> cut_in_key line kvs c"
proof -
  from strict_prefix_append [OF assms(1)] consider "prefix c line"
    | r where "c = line @ r" "strict_prefix r (CRLF @ header_lines kvs @ CRLF)" by (auto simp: strict_prefix_def)
  then show ?thesis
  proof cases
    case (2 r)
    from strict_prefix_append [OF 2(2)] consider "r = []" | "r = [CR]" | s where "r = CRLF @ s" "strict_prefix s (header_lines kvs @ CRLF)"
      by (auto simp: strict_prefix_def prefix_Cons)
    then show ?thesis
    proof cases
      case (3 s)
      then show ?thesis using fields_cut [OF 3(2) assms(2), of c line] 2(1) by simp
    qed (simp_all add: 2(1))
  qed simp
qed

text \<open>The request line with half of its line break: a table without a field.\<close>

lemma parse_headers_line:
  assumes "\<forall>c \<in> set line. no_eol c"
  shows "\<exists>h. parse_headers (view (line @ [CR]) ys) body = Some (Some h, body) \<and> wf_headers h \<and> entries h = []"
proof -
  obtain h0 where h0: "new_headers = Some h0" "wf_headers h0" "nslots h0 = 0" "entries h0 = []"
    using new_headers_wf by (simp add: new_headers_def entries_def live_slots_def)
  have m: "0 < MAX_HEADERS" by (simp add: MAX_HEADERS_def)
  have "takeWhile no_eol (line @ [CR]) = line" using assms by (simp add: takeWhile_append)
  then have s: "scan_to no_eol (at (view (line @ [CR]) ys)) 0 (int (length (line @ [CR]))) = Some (int (length line))"
    using str_at.scan_to_len [of "view (line @ [CR]) ys" 0 no_eol] by simp
  have e: "parse_loop buf l l 0 True 1 h0 body = Some (Some h0, body)" for buf l
    by (subst parse_loop.simps) simp
  have "parse_headers (view (line @ [CR]) ys) body =
      parse_loop (view (line @ [CR]) ys) (int (length (line @ [CR]))) (int (length line)) 0 False 0 h0 body"
    using s by (simp add: parse_headers_def h0)
  also have "\<dots> = Some (Some h0, body)" using parse_break [OF m, of CR line "[]" ys False 0 h0 body] e by simp
  finally show ?thesis using h0(2,4) by blast
qed

lemma unread_head_faults:
  assumes "read_socket as sc = Some (view c [], sc')" "qbody req = 0" "prefix c line \<or> c = line @ [CR]"
    "\<forall>c \<in> set line. no_eol c"
  shows "process_request self as req sc = None"
proof -
  have "\<exists>t. parse_headers (view c []) 0 = Some (t, 0) \<and> (print_headers None t = None \<or> print_headers None t = Some None)"
    using assms(3)
  proof
    assume "prefix c line"
    then have "\<forall>d \<in> set c. no_eol d" using assms(4) by (auto dest: set_mono_prefix)
    then show ?thesis using parse_headers_unbroken [of c "[]" 0] by simp
  next
    assume "c = line @ [CR]"
    then show ?thesis using parse_headers_line [OF assms(4), of "[]" 0] print_headers_eq by auto
  qed
  then show ?thesis using unprinted_faults [OF assms(1,2)] by blast
qed

lemma cut_key_faults:
  assumes "read_socket as sc = Some (view c [], sc')" "qbody req = 0" "cut_in_key line kvs c"
    "wf_fields kvs" "length kvs < 250" "\<forall>c \<in> set line. no_eol c"
  shows "process_request self as req sc = None"
proof -
  obtain k r where k: "k < length kvs" "c = line @ CRLF @ header_lines (take k kvs) @ r" "prefix r (fst (kvs ! k))" "r = [] \<longrightarrow> k = 0"
    using assms(3) unfolding cut_in_key_def by blast
  have key: "fst (kvs ! k) \<noteq> []" "no_eol (hd (fst (kvs ! k)))" "CHR '':'' \<notin> set (fst (kvs ! k))"
    using wf_fields_nth(1) [OF assms(4) k(1)] by (simp_all add: wf_key_def)
  have "r = [] \<and> take k kvs = [] \<or> r \<noteq> [] \<and> no_eol (hd r) \<and> CHR '':'' \<notin> set r"
  proof (cases "r = []")
    case False
    obtain z where z: "fst (kvs ! k) = r @ z" using k(3) by (rule prefixE)
    have "no_eol (hd r)" "CHR '':'' \<notin> set r" using key(2,3) False unfolding z by auto
    then show ?thesis using False by blast
  qed (use k(4) in simp)
  moreover have "length (take k kvs) < 250" using assms(5) by simp
  ultimately show ?thesis
    using cut_head_faults [OF assms(1) [unfolded k(2)] assms(2) wf_fields_take [OF assms(4)] _ assms(6)] by blast
qed

lemma head_cut_fate:
  assumes "read_socket as sc = Some (view c [], sc')" "strict_prefix c (line @ CRLF @ header_lines kvs @ CRLF)"
    "qbody req = 0" "\<not> qdone req" "wf_fields kvs" "kvs \<noteq> []" "length kvs < 250" "\<forall>c \<in> set line. no_eol c"
  shows "if partial_head line kvs c
    then \<exists>h. process_request self as req sc = Some (0, req\<lparr>qcontents := view c [], qheaders := Some h\<rparr>, sc')
    else process_request self as req sc = None"
proof (cases "partial_head line kvs c")
  case True
  obtain h0 where "parse_headers (view c []) 0 = Some (Some h0, 0)" "wf_headers h0" "entries h0 \<noteq> []" "nslots h0 < MAX_HEADERS"
    using parse_partial [OF True assms(5,7,8), of "[]" 0] by blast
  from process_request_part [OF assms(1,3,4) this, of self] True show ?thesis by simp
next
  case False
  then consider "prefix c line \<or> c = line @ [CR]" | "cut_in_key line kvs c" using head_cuts [OF assms(2,6)] by blast
  then have "process_request self as req sc = None"
  proof cases
    case 1
    then show ?thesis by (rule unread_head_faults [OF assms(1,3) _ assms(8)])
  next
    case 2
    then show ?thesis by (rule cut_key_faults [OF assms(1,3) _ assms(5,7,8)])
  qed
  with False show ?thesis by simp
qed

text \<open>C24: What a read of a request finds decides about the worker.  When the part of the head that has
  arrived ends behind a field, or anywhere behind the colon of one, the worker reads on; when it ends
  anywhere else, in the request line, in the line break behind it, or in the name of a field, the
  worker dereferences NULL: the message that prints the header table comes before any test.\<close>

theorem head_prefix_fate:
  assumes "arrives as x" "wf_str (sbuf sc)" "c = chars_of (sbuf sc) @ x"
    "strict_prefix c (line @ CRLF @ header_lines kvs @ CRLF)"
    "qbody req = 0" "\<not> qdone req" "wf_fields kvs" "kvs \<noteq> []" "length kvs < 250" "\<forall>c \<in> set line. no_eol c"
  shows "if partial_head line kvs c
    then \<exists>h. process_request self as req sc = Some (0, req\<lparr>qcontents := view c [], qheaders := Some h\<rparr>, sc\<lparr>sbuf := view c []\<rparr>)
    else process_request self as req sc = None"
  by (rule head_cut_fate [OF _ assms(4-10)]) (simp add: read_arrives [OF assms(1,2)] assms(3))

theorem head_prefix_fate_witness:
  "process_request 0 [Data ''GET / HTTP/1.1'', Again] fresh_request (create_socket 5 False \<lparr>sin_addr = 1, sin_port = 80\<rparr>) = None
    \<and> (\<exists>r sc. process_request 0 [Data (''GET / HTTP/1.1'' @ CRLF @ ''Host: a''), Again] fresh_request
        (create_socket 5 False \<lparr>sin_addr = 1, sin_port = 80\<rparr>) = Some (0, r, sc) \<and> \<not> qdone r)"
proof -
  let ?sc = "create_socket 5 False \<lparr>sin_addr = 1, sin_port = 80\<rparr>" and ?line = "''GET / HTTP/1.1''" and ?kvs = "[(''Host'', ''a.org'')]"
  have fate: "if partial_head ?line ?kvs c
    then \<exists>h. process_request 0 [Data c, Again] fresh_request ?sc
      = Some (0, fresh_request\<lparr>qcontents := view c [], qheaders := Some h\<rparr>, ?sc\<lparr>sbuf := view c []\<rparr>)
    else process_request 0 [Data c, Again] fresh_request ?sc = None"
    if "strict_prefix c (?line @ CRLF @ header_lines ?kvs @ CRLF)" "length c \<le> 4000" for c
    by (rule head_prefix_fate [OF arrives_Data [OF that(2)] _ _ that(1)])
      (simp_all add: create_socket_def resume_socket_def wf_str_def chars_of_def fresh_request_def open_request_def new_request_def
        parse_host_def wf_fields_def wf_key_def wf_value_def isspace_def)
  have "\<not> partial_head ?line ?kvs ?line" by (simp add: partial_head_def)
  then have 1: "process_request 0 [Data ?line, Again] fresh_request ?sc = None"
    using fate [of ?line] by (simp add: strict_prefix_def)
  have "partial_head ?line ?kvs (?line @ CRLF @ ''Host: a'')"
    unfolding partial_head_def by (intro exI [of _ 0] exI [of _ "''Host: a''"]) (simp add: header_lines_def)
  moreover have "strict_prefix (?line @ CRLF @ ''Host: a'') (?line @ CRLF @ header_lines ?kvs @ CRLF)"
    by (simp add: strict_prefix_def header_lines_def header_line_def)
  ultimately obtain h where "process_request 0 [Data (?line @ CRLF @ ''Host: a''), Again] fresh_request ?sc
      = Some (0, fresh_request\<lparr>qcontents := view (?line @ CRLF @ ''Host: a'') [], qheaders := Some h\<rparr>,
        ?sc\<lparr>sbuf := view (?line @ CRLF @ ''Host: a'') []\<rparr>)"
    using fate [of "?line @ CRLF @ ''Host: a''"] by auto
  moreover have "\<not> qdone (fresh_request\<lparr>qcontents := view (?line @ CRLF @ ''Host: a'') [], qheaders := Some h\<rparr>)"
    by (simp add: fresh_request_def open_request_def new_request_def parse_host_def)
  ultimately show ?thesis using 1 by blast
qed

end
