(* ===== verification/Arrival.thy ===== *)
theory Arrival
  imports Client_Props Head_Cuts
begin

section \<open>How a request arrives\<close>

text \<open>
  A worker reads its request in one event or in several.  The head is parsed again with every read
  until it is complete, so it may be cut where a part of it leaves a table with a field (\<open>Head_Cuts\<close>);
  the body may be cut anywhere.
  Whatever the pieces are, the worker waits for the next as long as the body is shorter than the head
  announces, and then waits to write.
\<close>

subsection \<open>The worker between two reads\<close>

definition waiting :: "socket \<Rightarrow> request \<Rightarrow> client" where
  "waiting sc req = \<lparr>cevent = READ, calarm = False, csocket = (sc, \<lparr>sent = [], writes = 0\<rparr>), crequest = req,
     cresponse = None, cqueue = [(sfd sc, READ)], cexit = False\<rparr>"

definition answering :: "socket \<Rightarrow> request \<Rightarrow> client option" where
  "answering sc req = do {
     (_, r) \<leftarrow> parse_path req;
     Some \<lparr>cevent = WRITE, calarm = False, csocket = (sc, \<lparr>sent = [], writes = 0\<rparr>), crequest = r,
       cresponse = Some (new_response req), cqueue = [(sfd sc, WRITE)], cexit = False\<rparr> }"

lemma handle_waits:
  "\<exists>req. handle sc = Some (waiting sc req) \<and> qbody req = 0 \<and> \<not> qdone req \<and> qfd req = Some (sfd sc)"
  by (simp add: handle_def open_request_def new_request_def parse_host_def waiting_def add_read_socket_def)

lemma read_step:
  assumes "\<not> sclosed sc" "process_request self as req sc = Some (0, req', sc')" "qfd req' = Some (sfd sc)"
    "sfd sc' = sfd sc" "sc'\<lparr>sbuf := None\<rparr> = sc0" "req'\<lparr>qretries := 0\<rparr> = r"
  shows "run_loop e self ((j, as) # jas) (waiting sc req) =
    (if \<not> qdone r then run_loop e self jas (waiting sc' r)
     else Option.bind (answering sc0 r) (run_loop e self jas))"
proof -
  have "sfd sc0 = sfd sc" "qdone r = qdone req'" "qfd r = Some (sfd sc)" using assms(3-6) by auto
  then have "client_poll e self j as ((waiting sc req)\<lparr>cqueue := []\<rparr>) =
    (if \<not> qdone r then Some (waiting sc' r) else answering sc0 r)"
    using assms(1-5) unfolding assms(6) [symmetric]
    by (simp add: client_poll_def closed_socket_def waiting_def answering_def read_request_def add_read_socket_def
        add_write_socket_def cfd_def new_response_def Let_def case_prod_beta)
  then show ?thesis using assms(1) by (simp add: waiting_def)
qed

subsection \<open>The pieces of a request\<close>

text \<open>Where the bytes that have arrived may end without the request being complete: behind a field of
  the head or behind the colon of one, or in the body.\<close>

definition may_pause :: "string \<Rightarrow> (string \<times> string) list \<Rightarrow> string \<Rightarrow> bool" where
  "may_pause line kvs c \<longleftrightarrow> partial_head line kvs c
     \<or> (\<exists>z. c = (line @ CRLF @ header_lines kvs @ CRLF) @ z \<and> int (length z) < announced kvs)"

text \<open>The reads of these events find the pieces of a request.\<close>

definition comes_in :: "(reg \<times> answer list) list \<Rightarrow> string \<Rightarrow> (string \<times> string) list \<Rightarrow> string \<Rightarrow> bool" where
  "comes_in jas line kvs body \<longleftrightarrow> (\<exists>ps. ps \<noteq> [] \<and> list_all2 (\<lambda>ja x. arrives (snd ja) x) jas ps
     \<and> concat ps = (line @ CRLF @ header_lines kvs @ CRLF) @ body \<and> announced kvs \<le> int (length body)
     \<and> (\<forall>i. 0 < i \<and> i < length ps \<longrightarrow> may_pause line kvs (concat (take i ps))))"

lemma comes_at_once:
  assumes "arrives as (line @ CRLF @ header_lines kvs @ CRLF @ body)" "announced kvs \<le> int (length body)"
  shows "comes_in [(j, as)] line kvs body"
  unfolding comes_in_def using assms by (intro exI [of _ "[line @ CRLF @ header_lines kvs @ CRLF @ body]"]) simp

text \<open>The request of which \<open>c\<close> has been read, and what it has become when \<open>pos\<close> is where its body starts.\<close>

definition holding :: "request \<Rightarrow> headers_struct \<Rightarrow> int \<Rightarrow> string \<Rightarrow> bool \<Rightarrow> request" where
  "holding req h pos c d = req\<lparr>qcontents := view c [], qheaders := Some h, qbody := pos, qdone := d, qretries := 0\<rparr>"

lemma holding_simps [simp]:
  "qheaders (holding req h pos c d) = Some h" "qbody (holding req h pos c d) = pos" "qdone (holding req h pos c d) = d"
  "qfd (holding req h pos c d) = qfd req" "holding (holding req h' pos' c' d') h pos c d = holding req h pos c d"
  by (simp_all add: holding_def)

definition has_read :: "string \<Rightarrow> (string \<times> string) list \<Rightarrow> request \<Rightarrow> string \<Rightarrow> bool" where
  "has_read line kvs r c \<longleftrightarrow> qbody r = 0 \<and> \<not> qdone r
     \<or> (\<exists>h q. qbody r = int (length (line @ CRLF @ header_lines kvs @ CRLF)) \<and> qheaders r = Some h \<and> wf_headers h
          \<and> entries h = kvs @ [(''peer'', q)] \<and> length (line @ CRLF @ header_lines kvs @ CRLF) \<le> length c)"

text \<open>One piece, up to somewhere in the body, or in the head.\<close>

lemma read_to_body:
  assumes "has_read line kvs r c" "read_socket as sc = Some (view ((line @ CRLF @ header_lines kvs @ CRLF) @ z) [], sc')"
    "wf_fields kvs" "kvs \<noteq> []" "length kvs < 250" "plain_length kvs" "\<forall>c \<in> set line. no_eol c"
  shows "\<exists>h q r'. process_request self as r sc = Some (0, r', sc') \<and> wf_headers h \<and> entries h = kvs @ [(''peer'', q)]
    \<and> r'\<lparr>qretries := 0\<rparr> = holding r h (int (length (line @ CRLF @ header_lines kvs @ CRLF)))
        ((line @ CRLF @ header_lines kvs @ CRLF) @ z) (announced kvs \<le> int (length z)) \<and> qfd r' = qfd r"
proof (cases "qbody r = 0")
  case True
  have "read_socket as sc = Some (view (line @ CRLF @ header_lines kvs @ CRLF @ z) [], sc')" using assms(2) by simp
  from process_request_head [OF this True assms(3-5,7,6), where self = self] obtain h q where
    "process_request self as r sc = Some (0, r\<lparr>qcontents := view (line @ CRLF @ header_lines kvs @ CRLF @ z) [], qheaders := Some h,
        qbody := int (length (line @ CRLF @ header_lines kvs @ CRLF)), qdone := announced kvs \<le> int (length z)\<rparr>, sc')"
    "wf_headers h" "entries h = kvs @ [(''peer'', q)]" by blast
  then show ?thesis by (intro exI conjI) (assumption | simp add: holding_def)+
next
  case False
  let ?c = "(line @ CRLF @ header_lines kvs @ CRLF) @ z"
  obtain h q where h: "qbody r = int (length (line @ CRLF @ header_lines kvs @ CRLF))" "qheaders r = Some h" "wf_headers h"
    "entries h = kvs @ [(''peer'', q)]" using assms(1) False by (auto simp: has_read_def)
  have d: "(announced kvs \<le> int (length ?c) - qbody r) = (announced kvs \<le> int (length z))" by (simp add: h(1))
  have "process_request self as r sc
    = Some (0, r\<lparr>qcontents := view ?c [], qdone := announced kvs \<le> int (length z)\<rparr>, sc')"
    using process_request_more [OF assms(2) h(2-4) assms(3,6) False, where self = self] unfolding d .
  with h show ?thesis by (intro exI [of _ h] exI [of _ q] exI conjI) (assumption | simp add: holding_def)+
qed

text \<open>The connection \<open>sc1\<close> is \<open>sc\<close> with the bytes \<open>c\<close> in its buffer.\<close>

definition buffers :: "socket \<Rightarrow> string \<Rightarrow> socket \<Rightarrow> bool" where
  "buffers sc c sc1 \<longleftrightarrow> wf_str (sbuf sc1) \<and> chars_of (sbuf sc1) = c \<and> sc1\<lparr>sbuf := None\<rparr> = sc"

lemma buffers_read:
  assumes "buffers sc c sc1" "arrives as x"
  shows "\<exists>sc2. read_socket as sc1 = Some (view (c @ x) [], sc2) \<and> buffers sc (c @ x) sc2 \<and> sfd sc2 = sfd sc1 \<and> sfd sc1 = sfd sc
    \<and> sclosed sc1 = sclosed sc \<and> sc2\<lparr>sbuf := None\<rparr> = sc"
proof -
  have "wf_str (sbuf sc1)" "chars_of (sbuf sc1) = c" "sc1\<lparr>sbuf := None\<rparr> = sc" using assms(1) by (simp_all add: buffers_def)
  then show ?thesis
    using read_arrives [OF assms(2), of sc1] by (intro exI [of _ "sc1\<lparr>sbuf := view (c @ x) []\<rparr>"]) (auto simp: buffers_def)
qed

lemma body_step:
  assumes "buffers sc c sc1" "arrives as x" "c @ x = (line @ CRLF @ header_lines kvs @ CRLF) @ z" "has_read line kvs r c"
    "\<not> sclosed sc" "qfd r = Some (sfd sc)"
    and wf: "wf_fields kvs" "kvs \<noteq> []" "length kvs < 250" "plain_length kvs" "\<forall>c \<in> set line. no_eol c"
  shows "\<exists>h q sc2. wf_headers h \<and> entries h = kvs @ [(''peer'', q)] \<and> buffers sc (c @ x) sc2
    \<and> run_loop e self ((j, as) # jas) (waiting sc1 r) = (let pos = int (length (line @ CRLF @ header_lines kvs @ CRLF)) in
         if announced kvs \<le> int (length z) then Option.bind (answering sc (holding r h pos (c @ x) True)) (run_loop e self jas)
         else run_loop e self jas (waiting sc2 (holding r h pos (c @ x) False)))"
proof -
  obtain sc2 where sc2: "read_socket as sc1 = Some (view (c @ x) [], sc2)" "buffers sc (c @ x) sc2" "sfd sc2 = sfd sc1"
    "sfd sc1 = sfd sc" "sclosed sc1 = sclosed sc" "sc2\<lparr>sbuf := None\<rparr> = sc"
    using buffers_read [OF assms(1,2)] by blast
  obtain h q r' where r': "process_request self as r sc1 = Some (0, r', sc2)" "wf_headers h" "entries h = kvs @ [(''peer'', q)]"
    "r'\<lparr>qretries := 0\<rparr> = holding r h (int (length (line @ CRLF @ header_lines kvs @ CRLF))) (c @ x) (announced kvs \<le> int (length z))"
    "qfd r' = qfd r"
    using read_to_body [OF assms(4) sc2(1) [unfolded assms(3)] wf, where self = self] unfolding assms(3) by blast
  have "\<not> sclosed sc1" "qfd r' = Some (sfd sc1)" using assms(5,6) r'(5) sc2(4,5) by simp_all
  from read_step [OF this(1) r'(1) this(2) sc2(3,6) r'(4), where e = e and j = j and jas = jas] show ?thesis
    by (intro exI [of _ h] exI [of _ q] exI [of _ sc2]) (use r'(2,3) sc2(2) in \<open>simp add: Let_def\<close>)
qed

lemma head_step:
  assumes "buffers sc c sc1" "arrives as x" "partial_head line kvs (c @ x)"
    "has_read line kvs r c" "\<not> sclosed sc" "qfd r = Some (sfd sc)"
    and wf: "wf_fields kvs" "length kvs < 250" "\<forall>c \<in> set line. no_eol c"
  obtains h sc2 where "buffers sc (c @ x) sc2"
    "run_loop e self ((j, as) # jas) (waiting sc1 r) = run_loop e self jas (waiting sc2 (holding r h 0 (c @ x) False))"
proof -
  obtain sc2 where sc2: "read_socket as sc1 = Some (view (c @ x) [], sc2)" "buffers sc (c @ x) sc2" "sfd sc2 = sfd sc1"
    "sfd sc1 = sfd sc" "sclosed sc1 = sclosed sc" "sc2\<lparr>sbuf := None\<rparr> = sc"
    using buffers_read [OF assms(1,2)] by blast
  have "length c < length (line @ CRLF @ header_lines kvs @ CRLF)"
    using partial_head_length [OF assms(3)] by simp
  then have b: "qbody r = 0" "\<not> qdone r" using assms(4) by (auto simp: has_read_def)
  obtain h0 where h0: "parse_headers (view (c @ x) []) 0 = Some (Some h0, 0)" "wf_headers h0" "entries h0 \<noteq> []" "nslots h0 < MAX_HEADERS"
    using parse_partial [OF assms(3) wf, of "[]" 0] by blast
  obtain h where p: "process_request self as r sc1 = Some (0, r\<lparr>qcontents := view (c @ x) [], qheaders := Some h\<rparr>, sc2)"
    using process_request_part [OF sc2(1) b h0, where self = self] by blast
  have "\<not> sclosed sc1" "qfd (r\<lparr>qcontents := view (c @ x) [], qheaders := Some h\<rparr>) = Some (sfd sc1)"
    "(r\<lparr>qcontents := view (c @ x) [], qheaders := Some h\<rparr>)\<lparr>qretries := 0\<rparr> = holding r h 0 (c @ x) False"
    using assms(5,6) sc2(4,5) b by (simp_all add: holding_def)
  from read_step [OF this(1) p this(2) sc2(3,6) this(3), where e = e and j = j and jas = jas] show ?thesis
    by (intro that [OF sc2(2)]) simp
qed

lemma may_pause_first:
  assumes "may_pause line kvs c"
  obtains "partial_head line kvs c"
  | z where "c = (line @ CRLF @ header_lines kvs @ CRLF) @ z" "\<not> announced kvs \<le> int (length z)"
  using assms unfolding may_pause_def by (metis not_le)

text \<open>A read after which the request is not complete: the worker waits for the next one.\<close>

lemma read_pause:
  assumes "buffers sc c sc1" "arrives as x" "may_pause line kvs (c @ x)" "has_read line kvs r c"
    "\<not> sclosed sc" "qfd r = Some (sfd sc)"
    and wf: "wf_fields kvs" "kvs \<noteq> []" "length kvs < 250" "plain_length kvs" "\<forall>c \<in> set line. no_eol c"
  shows "\<exists>sc2 h pos. buffers sc (c @ x) sc2 \<and> has_read line kvs (holding r h pos (c @ x) False) (c @ x)
    \<and> qfd (holding r h pos (c @ x) False) = Some (sfd sc)
    \<and> run_loop e self ((j, as) # jas) (waiting sc1 r) = run_loop e self jas (waiting sc2 (holding r h pos (c @ x) False))"
  using assms(3)
proof (cases rule: may_pause_first)
  case 1
  obtain h sc2 where h: "buffers sc (c @ x) sc2" "run_loop e self ((j, as) # jas) (waiting sc1 r)
    = run_loop e self jas (waiting sc2 (holding r h 0 (c @ x) False))"
    using head_step [OF assms(1,2) 1 assms(4-6) wf(1,3,5)] .
  then show ?thesis
    using assms(6) by (intro exI [of _ sc2] exI [of _ h] exI [of _ 0]) (simp add: has_read_def)
next
  case (2 z)
  let ?head = "line @ CRLF @ header_lines kvs @ CRLF"
  obtain h q sc2 where h: "wf_headers h" "entries h = kvs @ [(''peer'', q)]" "buffers sc (c @ x) sc2"
    "run_loop e self ((j, as) # jas) (waiting sc1 r)
      = run_loop e self jas (waiting sc2 (holding r h (int (length ?head)) (c @ x) False))"
    using body_step [OF assms(1,2) 2(1) assms(4-6) wf, where e = e and self = self and j = j and jas = jas] 2(2)
    unfolding Let_def by (simp only: if_False) blast
  have "has_read line kvs (holding r h (int (length ?head)) (c @ x) False) (c @ x)"
    using h(1,2) 2(1) unfolding has_read_def by auto
  then show ?thesis
    using h(3,4) assms(6) by (intro exI [of _ sc2] exI [of _ h] exI [of _ "int (length ?head)"]) simp
qed

lemma read_pieces:
  assumes "list_all2 (\<lambda>ja x. arrives (snd ja) x) jas ps" "ps \<noteq> []"
    "c @ concat ps = (line @ CRLF @ header_lines kvs @ CRLF) @ body" "announced kvs \<le> int (length body)"
    "\<forall>i. 0 < i \<and> i < length ps \<longrightarrow> may_pause line kvs (c @ concat (take i ps))"
    "buffers sc c sc1" "\<not> sclosed sc" "qfd r = Some (sfd sc)" "has_read line kvs r c"
    and wf: "wf_fields kvs" "kvs \<noteq> []" "length kvs < 250" "plain_length kvs" "\<forall>c \<in> set line. no_eol c"
  shows "\<exists>h q. wf_headers h \<and> entries h = kvs @ [(''peer'', q)]
    \<and> run_loop e self (jas @ rest) (waiting sc1 r)
      = Option.bind (answering sc (holding r h (int (length (line @ CRLF @ header_lines kvs @ CRLF)))
          ((line @ CRLF @ header_lines kvs @ CRLF) @ body) True)) (run_loop e self rest)"
  using assms(1-3,5,6,8,9)
proof (induction ps arbitrary: jas c sc1 r rule: list.induct)
  case (Cons x ps)
  let ?head = "line @ CRLF @ header_lines kvs @ CRLF"
  obtain j as jas' where jas: "jas = (j, as) # jas'" "arrives as x" "list_all2 (\<lambda>ja x. arrives (snd ja) x) jas' ps"
    using Cons.prems(1) by (cases jas) auto
  have all: "(c @ x) @ concat ps = ?head @ body" using Cons.prems(3) by simp
  have pause: "\<forall>i. 0 < i \<and> i < length ps \<longrightarrow> may_pause line kvs ((c @ x) @ concat (take i ps))"
  proof (intro allI impI)
    fix i assume "0 < i \<and> i < length ps"
    then show "may_pause line kvs ((c @ x) @ concat (take i ps))" using Cons.prems(4) [THEN spec, of "Suc i"] by simp
  qed
  note step = body_step [OF Cons.prems(5) jas(2) _ Cons.prems(7) assms(7) Cons.prems(6) wf]
  show ?case
  proof (cases "ps = []")
    case True
    then have all: "c @ x = ?head @ body" "jas @ rest = (j, as) # rest" using all jas(1,3) by simp_all
    obtain h q where "wf_headers h" "entries h = kvs @ [(''peer'', q)]" "run_loop e self (jas @ rest) (waiting sc1 r)
      = Option.bind (answering sc (holding r h (int (length ?head)) (?head @ body) True)) (run_loop e self rest)"
      using step [OF all(1), where e = e and self = self and j = j and jas = rest] assms(4)
      unfolding all(1,2) Let_def by (simp only: if_True) blast
    then show ?thesis by blast
  next
    case False
    then have "may_pause line kvs (c @ x)" using Cons.prems(4) [THEN spec, of 1] by simp
    from read_pause [OF Cons.prems(5) jas(2) this Cons.prems(7) assms(7) Cons.prems(6) wf]
    obtain sc2 h pos where h: "buffers sc (c @ x) sc2" "has_read line kvs (holding r h pos (c @ x) False) (c @ x)"
      "qfd (holding r h pos (c @ x) False) = Some (sfd sc)" "run_loop e self ((j, as) # jas' @ rest) (waiting sc1 r)
        = run_loop e self (jas' @ rest) (waiting sc2 (holding r h pos (c @ x) False))" by blast
    from Cons.IH [OF jas(3) False all pause h(1,3,2)] show ?thesis unfolding jas(1) append_Cons h(4) holding_simps .
  qed
qed simp

text \<open>A read after which the head is cut where it must not be: the worker faults.\<close>

definition bad_cut :: "string \<Rightarrow> (string \<times> string) list \<Rightarrow> string \<Rightarrow> bool" where
  "bad_cut line kvs c \<longleftrightarrow> strict_prefix c (line @ CRLF @ header_lines kvs @ CRLF) \<and> \<not> partial_head line kvs c"

lemma read_faults:
  assumes "\<not> sclosed sc" "process_request self as req sc = None"
  shows "run_loop e self ((j, as) # jas) (waiting sc req) = None"
  using assms by (simp add: waiting_def client_poll_def closed_socket_def read_request_def Let_def)

lemma bad_step:
  assumes "buffers sc c sc1" "arrives as x" "bad_cut line kvs (c @ x)" "has_read line kvs r c" "\<not> sclosed sc"
    and wf: "wf_fields kvs" "kvs \<noteq> []" "length kvs < 250" "\<forall>c \<in> set line. no_eol c"
  shows "run_loop e self ((j, as) # jas) (waiting sc1 r) = None"
proof -
  obtain sc2 where sc2: "read_socket as sc1 = Some (view (c @ x) [], sc2)" "sclosed sc1 = sclosed sc"
    using buffers_read [OF assms(1,2)] by blast
  have p: "strict_prefix (c @ x) (line @ CRLF @ header_lines kvs @ CRLF)" "\<not> partial_head line kvs (c @ x)"
    using assms(3) unfolding bad_cut_def by blast+
  then have "length c < length (line @ CRLF @ header_lines kvs @ CRLF)"
    using prefix_length_less [OF p(1)] by simp
  then have b: "qbody r = 0" "\<not> qdone r" using assms(4) by (auto simp: has_read_def)
  have "process_request self as r sc1 = None"
    using head_cut_fate [OF sc2(1) p(1) b wf, of self] unfolding if_not_P [OF p(2)] .
  with assms(5) sc2(2) show ?thesis by (intro read_faults) simp_all
qed

lemma pieces_fault:
  assumes "list_all2 (\<lambda>ja x. arrives (snd ja) x) jas ps" "0 < i" "i \<le> length ps" "bad_cut line kvs (c @ concat (take i ps))"
    "\<forall>j. 0 < j \<and> j < i \<longrightarrow> may_pause line kvs (c @ concat (take j ps))"
    "buffers sc c sc1" "\<not> sclosed sc" "qfd r = Some (sfd sc)" "has_read line kvs r c"
    and wf: "wf_fields kvs" "kvs \<noteq> []" "length kvs < 250" "plain_length kvs" "\<forall>c \<in> set line. no_eol c"
  shows "run_loop e self (jas @ rest) (waiting sc1 r) = None"
  using assms(1-6,8,9)
proof (induction i arbitrary: jas ps c sc1 r)
  case (Suc i)
  obtain x ps' where ps: "ps = x # ps'" using Suc.prems(3) by (cases ps) auto
  obtain j as jas' where jas: "jas = (j, as) # jas'" "arrives as x" "list_all2 (\<lambda>ja x. arrives (snd ja) x) jas' ps'"
    using Suc.prems(1) by (cases jas) (auto simp: ps)
  show ?case
  proof (cases "i = 0")
    case True
    then have "bad_cut line kvs (c @ x)" using Suc.prems(4) by (simp add: ps)
    from bad_step [OF Suc.prems(6) jas(2) this Suc.prems(8) assms(7) wf(1-3,5)] show ?thesis by (simp add: jas(1))
  next
    case False
    have bad: "bad_cut line kvs ((c @ x) @ concat (take i ps'))" using Suc.prems(4) by (simp add: ps)
    have pause: "\<forall>j. 0 < j \<and> j < i \<longrightarrow> may_pause line kvs ((c @ x) @ concat (take j ps'))"
    proof (intro allI impI)
      fix j assume "0 < j \<and> j < i"
      then show "may_pause line kvs ((c @ x) @ concat (take j ps'))" using Suc.prems(5) [THEN spec, of "Suc j"] by (simp add: ps)
    qed
    have i: "0 < i" "i \<le> length ps'" using False Suc.prems(3) by (simp_all add: ps)
    have "may_pause line kvs (c @ x)" using Suc.prems(5) [THEN spec, of 1] i(1) by (simp add: ps)
    from read_pause [OF Suc.prems(6) jas(2) this Suc.prems(8) assms(7) Suc.prems(7) wf]
    obtain sc2 r2 where r2: "buffers sc (c @ x) sc2" "qfd r2 = Some (sfd sc)" "has_read line kvs r2 (c @ x)"
      "run_loop e self ((j, as) # jas' @ rest) (waiting sc1 r) = run_loop e self (jas' @ rest) (waiting sc2 r2)" by blast
    show ?thesis unfolding jas(1) append_Cons r2(4) by (rule Suc.IH [OF jas(3) i bad pause r2(1-3)])
  qed
qed simp

subsection \<open>A whole request\<close>

lemma read_request_pieces:
  assumes "comes_in jas line kvs body" "sbuf sc = None" "\<not> sclosed sc"
    "qbody req = 0" "\<not> qdone req" "qfd req = Some (sfd sc)" "wf_fields kvs" "kvs \<noteq> []" "length kvs < 250" "plain_length kvs"
    "\<forall>c \<in> set line. no_eol c"
  shows "\<exists>h q. wf_headers h \<and> entries h = kvs @ [(''peer'', q)]
    \<and> run_loop e self (jas @ rest) (waiting sc req)
      = Option.bind (answering sc (holding req h (int (length (line @ CRLF @ header_lines kvs @ CRLF)))
          ((line @ CRLF @ header_lines kvs @ CRLF) @ body) True)) (run_loop e self rest)"
proof -
  obtain ps where c: "list_all2 (\<lambda>ja x. arrives (snd ja) x) jas ps" "ps \<noteq> []"
    "[] @ concat ps = (line @ CRLF @ header_lines kvs @ CRLF) @ body" "announced kvs \<le> int (length body)"
    "\<forall>i. 0 < i \<and> i < length ps \<longrightarrow> may_pause line kvs ([] @ concat (take i ps))"
    using assms(1) unfolding comes_in_def append_Nil by blast
  have "buffers sc [] sc" "has_read line kvs req []"
    using assms(2,4,5) by (simp_all add: buffers_def chars_of_def has_read_def)
  from read_pieces [OF c this(1) assms(3,6) this(2) assms(7-11)] show ?thesis by blast
qed

lemma cut_fate:
  assumes "prefix c ((line @ CRLF @ header_lines kvs @ CRLF) @ body)"
    "int (length c) < int (length (line @ CRLF @ header_lines kvs @ CRLF)) + announced kvs"
  shows "bad_cut line kvs c \<or> may_pause line kvs c"
proof -
  let ?head = "line @ CRLF @ header_lines kvs @ CRLF"
  consider "prefix c ?head" | z where "c = ?head @ z" using assms(1) unfolding prefix_append by blast
  then show ?thesis
  proof cases
    case 1
    then have "strict_prefix c ?head \<or> c = ?head" by (auto simp: strict_prefix_def)
    then show ?thesis
    proof
      assume c: "c = ?head"
      have "c = ?head @ []" "int (length []) < announced kvs" using assms(2) unfolding c by simp_all
      then show ?thesis unfolding may_pause_def by blast
    qed (auto simp: bad_cut_def may_pause_def)
  next
    case (2 z)
    then have "int (length z) < announced kvs" using assms(2) by simp
    then show ?thesis unfolding may_pause_def using 2 by blast
  qed
qed

text \<open>C7: How a request may arrive.  Of a request that comes in pieces, none but the last of which completes it,
  the worker either reads all of it and goes on to answer, or dereferences NULL; and it does so exactly
  when one of the pieces ends in the request line, in the line break behind it, or in the name of a
  field.\<close>

theorem request_pieces_fate:
  assumes "ps \<noteq> []" "list_all2 (\<lambda>ja x. arrives (snd ja) x) jas ps"
    "concat ps = (line @ CRLF @ header_lines kvs @ CRLF) @ body" "announced kvs \<le> int (length body)"
    "\<forall>i. 0 < i \<and> i < length ps \<longrightarrow>
      int (length (concat (take i ps))) < int (length (line @ CRLF @ header_lines kvs @ CRLF)) + announced kvs"
    "sbuf sc = None" "\<not> sclosed sc" "qbody req = 0" "\<not> qdone req" "qfd req = Some (sfd sc)"
    "wf_fields kvs" "kvs \<noteq> []" "length kvs < 250" "plain_length kvs" "\<forall>c \<in> set line. no_eol c"
  shows "if \<exists>i. 0 < i \<and> i < length ps \<and> bad_cut line kvs (concat (take i ps))
    then run_loop e self (jas @ rest) (waiting sc req) = None
    else \<exists>h q. wf_headers h \<and> entries h = kvs @ [(''peer'', q)]
      \<and> run_loop e self (jas @ rest) (waiting sc req)
        = Option.bind (answering sc (holding req h (int (length (line @ CRLF @ header_lines kvs @ CRLF)))
            ((line @ CRLF @ header_lines kvs @ CRLF) @ body) True)) (run_loop e self rest)"
proof -
  have pause: "may_pause line kvs (concat (take i ps))" if "0 < i" "i < length ps" "\<not> bad_cut line kvs (concat (take i ps))" for i
  proof -
    have "prefix (concat (take i ps)) (concat ps)"
      unfolding prefix_def by (intro exI [of _ "concat (drop i ps)"]) (simp flip: concat_append)
    then have "prefix (concat (take i ps)) ((line @ CRLF @ header_lines kvs @ CRLF) @ body)" unfolding assms(3) .
    from cut_fate [OF this] assms(5) that show ?thesis by blast
  qed
  show ?thesis
  proof (cases "\<exists>i. 0 < i \<and> i < length ps \<and> bad_cut line kvs (concat (take i ps))")
    case True
    define i where "i = (LEAST i. 0 < i \<and> i < length ps \<and> bad_cut line kvs (concat (take i ps)))"
    have i: "0 < i" "i \<le> length ps" "i < length ps" "bad_cut line kvs ([] @ concat (take i ps))"
      using LeastI_ex [OF True] unfolding i_def by auto
    have "\<forall>j. 0 < j \<and> j < i \<longrightarrow> may_pause line kvs ([] @ concat (take j ps))"
    proof (intro allI impI)
      fix j assume j: "0 < j \<and> j < i"
      then have "j < length ps" "\<not> bad_cut line kvs (concat (take j ps))" using i(3) not_less_Least unfolding i_def by fastforce+
      then show "may_pause line kvs ([] @ concat (take j ps))" using pause j by simp
    qed
    moreover have "buffers sc [] sc" "has_read line kvs req []"
      using assms(6,8,9) by (simp_all add: buffers_def chars_of_def has_read_def)
    ultimately show ?thesis
      using pieces_fault [OF assms(2) i(1,2,4) _ _ assms(7,10) _ assms(11-15)] True by simp
  next
    case False
    then have "\<forall>i. 0 < i \<and> i < length ps \<longrightarrow> may_pause line kvs (concat (take i ps))" using pause by blast
    then have "comes_in jas line kvs body" unfolding comes_in_def using assms(1-4) by blast
    from read_request_pieces [OF this assms(6-15)] show ?thesis using if_not_P [OF False] by metis
  qed
qed

theorem request_pieces_fate_witness:
  "\<exists>cl. handle (create_socket 5 False \<lparr>sin_addr = 1, sin_port = 80\<rparr>) = Some cl
    \<and> run_loop sample_env 0 [(0, [Data (''GET / HTTP/1.1'' @ CRLF @ ''Ho''), Again]), (0, [Data (''st: a'' @ CRLF @ CRLF), Again])] cl = None"
proof -
  let ?sc = "create_socket 5 False \<lparr>sin_addr = 1, sin_port = 80\<rparr>" and ?kvs = "[(''Host'', ''a'')]" and ?line = "''GET / HTTP/1.1''"
  let ?ps = "[?line @ CRLF @ ''Ho'', ''st: a'' @ CRLF @ CRLF]" and ?head = "''GET / HTTP/1.1'' @ CRLF @ header_lines [(''Host'', ''a'')] @ CRLF"
  let ?jas = "[(0, [Data (?line @ CRLF @ ''Ho''), Again]), (0, [Data (''st: a'' @ CRLF @ CRLF), Again])]"
  obtain req where req: "handle ?sc = Some (waiting ?sc req)" "qbody req = 0" "\<not> qdone req" "qfd req = Some (sfd ?sc)"
    using handle_waits by blast
  have all: "concat ?ps = ?head @ []" by (simp add: header_lines_def header_line_def)
  have a: "list_all2 (\<lambda>ja x. arrives (snd ja) x) ?jas ?ps" by (simp add: arrives_Data)
  have b: "\<forall>i. 0 < i \<and> i < length ?ps \<longrightarrow> int (length (concat (take i ?ps))) < int (length ?head) + announced ?kvs"
    by (auto simp: announced_def header_lines_def header_line_def less_Suc_eq)
  have "\<not> partial_head ?line ?kvs (?line @ CRLF @ ''Ho'')"
  proof
    assume "partial_head ?line ?kvs (?line @ CRLF @ ''Ho'')"
    then obtain k r where "k \<le> 1" "''Ho'' = header_lines (take k ?kvs) @ r" "0 < k \<or> (\<exists>t. r = ''Host'' @ CHR '':'' # t)"
      unfolding partial_head_def by (auto simp: less_Suc_eq)
    then show False by (cases k) (auto simp: header_lines_def header_line_def)
  qed
  then have "bad_cut ?line ?kvs (concat (take 1 ?ps))"
    by (simp add: bad_cut_def strict_prefix_def header_lines_def header_line_def)
  then have bad: "\<exists>i. 0 < i \<and> i < length ?ps \<and> bad_cut ?line ?kvs (concat (take i ?ps))" by (intro exI [of _ 1]) simp
  have s: "sbuf ?sc = None" "\<not> sclosed ?sc" "?ps \<noteq> []" "announced ?kvs \<le> int (length [])"
    by (simp_all add: create_socket_def resume_socket_def announced_def)
  have wf: "wf_fields ?kvs" "?kvs \<noteq> []" "length ?kvs < 250" "plain_length ?kvs" "\<forall>c \<in> set ?line. no_eol c"
    by (simp_all add: wf_fields_def wf_key_def wf_value_def isspace_def plain_length_def)
  have "run_loop sample_env 0 (?jas @ []) (waiting ?sc req) = None"
    using request_pieces_fate [OF s(3) a all s(4) b s(1,2) req(2-4) wf, where e = sample_env and self = 0 and rest = "[]"]
    unfolding if_P [OF bad] .
  then show ?thesis using req(1) by auto
qed

end
