(* ===== verification/Site_Path.thy ===== *)
theory Site_Path
  imports Client_Props
begin

section \<open>From a path to a file\<close>

text \<open>
  \<open>get_method\<close> stats the file that a path names, looks for a directory behind a token when there is
  none, and then searches the cache, for the indexes of a directory or for the file itself.  The
  specification says the same over plain strings: the path that is served is \<open>site_path\<close>, and the
  file is the first of its candidates that is in the cache.
\<close>

subsection \<open>What is on the disk\<close>

definition is_dir :: "env \<Rightarrow> string \<Rightarrow> bool" where
  "is_dir e n \<longleftrightarrow> (case estat e n of None \<Rightarrow> False | Some st \<Rightarrow> and st S_IFDIR \<noteq> 0)"

definition is_reg :: "env \<Rightarrow> string \<Rightarrow> bool" where
  "is_reg e n \<longleftrightarrow> (case estat e n of None \<Rightarrow> False | Some st \<Rightarrow> and st (or S_IFREG S_IFLNK) \<noteq> 0)"

lemma file_path_eq [run_simps]:
  "file_path (view wd wt) (view hs ht) (view ps pt) = Some (lit (wd @ ''/'' @ hs @ ps))"
  by (simp add: file_path_def fmt_def new_str_def)

lemma stat_mode_eq: "NUL \<notin> set n \<Longrightarrow> stat_mode e (lit n) = Some (estat e n)"
  by (simp add: stat_mode_def view_def)

lemma log_failed_stat: "error_log ''Failed to stat file %s'' [AStr (lit n)] = Some ()"
  by (simp add: error_log_def new_str_def)

lemma log_directory: "debug_log ''Is %s a Directory? %c'' [AStr (lit n), AChars ((if b then ''yes'' else ''no'') @ [NUL])] = Some ()"
  using convert_c [of "''no''" "[]"] convert_c [of "''yes''" "[]"] by (simp add: debug_log_def new_str_def)

lemma is_directory_eq: "NUL \<notin> set n \<Longrightarrow> is_directory e (lit n) = Some (is_dir e n)"
  using log_failed_stat log_directory
  by (simp add: is_directory_def is_dir_def stat_mode_eq split: option.split)

lemma is_file_eq: "NUL \<notin> set n \<Longrightarrow> is_file e (lit n) = Some (is_reg e n)"
  using log_failed_stat by (simp add: is_file_def is_reg_def stat_mode_eq split: option.split)

subsection \<open>Tokens\<close>

text \<open>The first slash behind the first byte from which on the path names a directory.\<close>

fun behind_token :: "(string \<Rightarrow> bool) \<Rightarrow> string \<Rightarrow> string option" where
  "behind_token d [] = None"
| "behind_token d (c # cs) = (if c = CHR ''/'' \<and> d (c # cs) then Some (c # cs) else behind_token d cs)"

text \<open>The directory of the host, and the path that is served.\<close>

definition site :: "string \<Rightarrow> string \<Rightarrow> string \<Rightarrow> string" where
  "site wd host p = wd @ ''/'' @ host @ p"

definition site_token :: "env \<Rightarrow> string \<Rightarrow> string \<Rightarrow> string \<Rightarrow> string option" where
  "site_token e wd host p =
     (if is_dir e (site wd host p) \<or> is_reg e (site wd host p) then None
      else behind_token (\<lambda>q. is_dir e (site wd host q)) (tl p))"

definition site_path :: "env \<Rightarrow> string \<Rightarrow> string \<Rightarrow> string \<Rightarrow> string" where
  "site_path e wd host p = (case site_token e wd host p of None \<Rightarrow> p | Some q \<Rightarrow> q)"

text \<open>The fields of the request: the token is added to them.\<close>

definition token_field :: "env \<Rightarrow> string \<Rightarrow> string \<Rightarrow> string \<Rightarrow> (string \<times> string) list" where
  "token_field e wd host p = (case site_token e wd host p of None \<Rightarrow> []
     | Some q \<Rightarrow> [(''Token'', take (length p - length q - 1) (tl p))])"

lemma file_path_site: "file_path (view wd wt) (view hs ht) (view ps pt) = Some (lit (site wd hs ps))"
  by (simp add: file_path_eq site_def)

lemma behind_token_set: "behind_token d xs = Some q \<Longrightarrow> set q \<subseteq> set xs"
  by (induction xs) (auto split: if_splits)

lemma site_path_set: "set (site_path e wd host p) \<subseteq> set p"
  by (cases p) (auto simp: site_path_def site_token_def split: option.splits if_splits dest: behind_token_set)

lemma add_token:
  assumes "wf_headers h" "nslots h < MAX_HEADERS" "qheaders req = Some h"
  shows "\<exists>h'. request_headers req (lit ''Token'') (view x ys) = Some (req\<lparr>qheaders := Some h'\<rparr>)
    \<and> wf_headers h' \<and> entries h' = entries h @ [(''Token'', x)]"
  using append_header_room [OF assms(1,2)] add_slot_wf [OF assms(1,2), of "lit ''Token''" "view x ys"] assms(3)
  by (auto simp: request_headers_def wf_slot_def)

lemma log_token:
  "debug_log ''Found auth token [%s]'' [AStr (view u ys)] = Some ()" "fmt ''Token'' [] = Some (lit ''Token'')"
  by (simp_all add: debug_log_def new_str_def fmt_def)

text \<open>The loop over the rest \<open>xs\<close> of a path, behind the bytes \<open>c # u\<close>.\<close>

lemma deauth_loop_eq:
  assumes "ecwd e = view wd wt" "NUL \<notin> set (site wd host xs)" "qheaders req = Some h" "wf_headers h"
    "behind_token (\<lambda>q. is_dir e (site wd host q)) xs \<noteq> None \<Longrightarrow> nslots h < MAX_HEADERS"
  shows "\<exists>h'. deauth_loop e (view host ht) (view (c # u @ xs) ys) (int (length (c # u @ xs))) (int (length (c # u))) req
    = Some (lit (site wd host (case behind_token (\<lambda>q. is_dir e (site wd host q)) xs of None \<Rightarrow> c # u @ xs | Some q \<Rightarrow> q)),
        req\<lparr>qheaders := Some h'\<rparr>) \<and> wf_headers h' \<and> entries h' = entries h
        @ (case behind_token (\<lambda>q. is_dir e (site wd host q)) xs of None \<Rightarrow> []
           | Some q \<Rightarrow> [(''Token'', take (length u + length xs - length q) (u @ xs))])"
  using assms(2,5)
proof (induction xs arbitrary: u)
  case Nil
  have "req = req\<lparr>qheaders := Some h\<rparr>" using assms(3) by simp
  then show ?case using assms(4)
    by (subst deauth_loop.simps) (auto simp: assms(1) file_path_eq site_def)
next
  case (Cons d xs)
  let ?p = "view (c # u @ d # xs) ys" and ?i = "int (length (c # u))"
  have at: "at ?p ?i = Some d" using at_middle [of "c # u" d xs ys] by simp
  have lt: "?i < int (length (c # u @ d # xs))" by simp
  have tail: "ref_at ?p ?i (int (length (c # u @ d # xs)) - ?i) = Some (view (d # xs) ys)"
    using ref_at_pieces [of "c # u" "d # xs" ys] ref_append [of "d # xs" ys] by (simp add: algebra_simps)
  have dir: "is_directory e (lit (site wd host (d # xs))) = Some (is_dir e (site wd host (d # xs)))"
    using Cons.prems(1) by (rule is_directory_eq)
  show ?case
  proof (cases "d = CHR ''/'' \<and> is_dir e (site wd host (d # xs))")
    case True
    have tok: "ref_at ?p 1 (?i - 1) = Some (view u (d # xs @ ys))"
      using ref_at_pieces [of "[c]" "u @ d # xs" ys "int (length u)"] ref_append [of u "d # xs @ ys"] by simp
    have t: "(d = CHR ''/'') = True" "is_dir e (site wd host (d # xs)) = True" using True by blast+
    have room: "nslots h < MAX_HEADERS" by (rule Cons.prems(2)) (simp add: t)
    obtain h' where h': "request_headers req (lit ''Token'') (view u (d # xs @ ys)) = Some (req\<lparr>qheaders := Some h'\<rparr>)"
      "wf_headers h'" "entries h' = entries h @ [(''Token'', u)]"
      using add_token [OF assms(4) room assms(3)] by blast
    have "deauth_loop e (view host ht) ?p (int (length (c # u @ d # xs))) ?i req
      = Some (lit (site wd host (d # xs)), req\<lparr>qheaders := Some h'\<rparr>)"
      by (subst deauth_loop.simps, simp only: lt at tail tok if_True bind.bind_lunit assms(1) file_path_site dir t log_token h'(1))
    moreover have "behind_token (\<lambda>q. is_dir e (site wd host q)) (d # xs) = Some (d # xs)" by (simp add: t)
    ultimately show ?thesis using h'(2,3) by (intro exI [of _ h']) simp
  next
    case False
    have step: "deauth_loop e (view host ht) ?p (int (length (c # u @ d # xs))) ?i req
      = deauth_loop e (view host ht) (view (c # (u @ [d]) @ xs) ys) (int (length (c # (u @ [d]) @ xs)))
          (int (length (c # u @ [d]))) req"
      using False
      by (subst deauth_loop.simps, simp only: lt at tail if_True bind.bind_lunit assms(1) file_path_site dir)
        (auto simp: algebra_simps)
    have b: "behind_token (\<lambda>q. is_dir e (site wd host q)) (d # xs) = behind_token (\<lambda>q. is_dir e (site wd host q)) xs"
      using False by auto
    have n: "NUL \<notin> set (site wd host xs)" using Cons.prems(1) by (simp add: site_def)
    have l: "length (u @ [d]) + length xs = length u + length (d # xs)" by simp
    show ?thesis
      using Cons.IH [OF n Cons.prems(2) [unfolded b], of "u @ [d]"]
      unfolding step b l append_assoc append_Cons append_Nil by blast
  qed
qed

lemma deauth_path_eq:
  assumes "ecwd e = view wd wt" "NUL \<notin> set (site wd host p)" "p \<noteq> []" "qheaders req = Some h" "wf_headers h"
    "site_token e wd host p \<noteq> None \<Longrightarrow> nslots h < MAX_HEADERS"
  shows "\<exists>h'. deauth_path e (view host ht) (view p pt) req
    = Some (lit (site wd host (site_path e wd host p)), req\<lparr>qheaders := Some h'\<rparr>)
    \<and> wf_headers h' \<and> entries h' = entries h @ token_field e wd host p"
proof (cases "is_dir e (site wd host p) \<or> is_reg e (site wd host p)")
  case True
  have "req = req\<lparr>qheaders := Some h\<rparr>" using assms(4) by simp
  moreover have "deauth_path e (view host ht) (view p pt) req = Some (lit (site wd host p), req)"
    unfolding deauth_path_def assms(1) file_path_site using True is_directory_eq [OF assms(2)] is_file_eq [OF assms(2)] by auto
  ultimately show ?thesis
    using True assms(5) by (intro exI [of _ h]) (simp add: site_path_def site_token_def token_field_def)
next
  case False
  obtain c q where p: "p = c # q" using assms(3) by (cases p) auto
  have q: "site_token e wd host p = behind_token (\<lambda>q. is_dir e (site wd host q)) q"
    using False by (simp add: site_token_def p)
  have nul: "NUL \<notin> set (site wd host q)" using assms(2) by (simp add: site_def p)
  obtain h' where h': "deauth_loop e (view host ht) (view (c # q) pt) (int (length (c # q))) 1 req
    = Some (lit (site wd host (case site_token e wd host p of None \<Rightarrow> c # q | Some q \<Rightarrow> q)), req\<lparr>qheaders := Some h'\<rparr>)"
    "wf_headers h'" "entries h' = entries h @ (case site_token e wd host p of None \<Rightarrow> []
      | Some r \<Rightarrow> [(''Token'', take (length q - length r) q)])"
    using deauth_loop_eq [OF assms(1) nul assms(4,5) assms(6) [unfolded q], where u = "[]" and c = c and ht = ht and ys = pt]
    unfolding q append_Nil list.size add_0 by auto
  have "deauth_path e (view host ht) (view p pt) req
    = deauth_loop e (view host ht) (view (c # q) pt) (int (length (c # q))) 1 req"
    unfolding deauth_path_def assms(1) file_path_site using False is_directory_eq [OF assms(2)] is_file_eq [OF assms(2)]
    by (simp add: p)
  then show ?thesis
    using h' by (intro exI [of _ h']) (simp add: site_path_def token_field_def p split: option.splits)
qed

subsection \<open>Files\<close>

text \<open>The first of some names that is the name of a file of the cache; the names that a path stands
  for.\<close>

fun first_cached :: "file_cache list \<Rightarrow> string list \<Rightarrow> file_cache option" where
  "first_cached fcs [] = None"
| "first_cached fcs (n # ns) = (case List.find (\<lambda>fc. file_name fc = n) fcs of
     None \<Rightarrow> first_cached fcs ns | Some fc \<Rightarrow> Some fc)"

definition site_names :: "env \<Rightarrow> string \<Rightarrow> string list" where
  "site_names e n = (if is_dir e n then concat (map (\<lambda>x. [n @ x, n @ ''/'' @ x]) indexes) else [n])"

definition site_file :: "env \<Rightarrow> string \<Rightarrow> file_cache list \<Rightarrow> string \<Rightarrow> string \<Rightarrow> file_cache option" where
  "site_file e wd fcs host p = first_cached fcs (site_names e (site wd host (site_path e wd host p)))"

lemma load_cached: "load (map Some fcs) (lit n) = Some (List.find (\<lambda>fc. file_name fc = n) fcs)"
  using query_cache_eq [of fcs n "[NUL]"] by (simp add: load_def)

lemma index_loop_eq:
  assumes "efiles e = map Some fcs" "\<forall>x \<in> set xs. NUL \<notin> set x"
  shows "index_loop e (lit n) xs = Some (first_cached fcs (concat (map (\<lambda>x. [n @ x, n @ ''/'' @ x]) xs)))"
  using assms(2)
proof (induction xs)
  case (Cons x xs)
  have f: "fmt ''%s%c'' [AStr (lit n), AChars (x @ [NUL])] = Some (lit (n @ x))"
    "fmt ''%s/%c'' [AStr (lit n), AChars (x @ [NUL])] = Some (lit (n @ ''/'' @ x))"
    using Cons.prems convert_c [of x "[]"] by (simp_all add: fmt_def new_str_def)
  show ?case using Cons by (simp add: f assms(1) load_cached split: option.split)
qed simp

lemma indexes_plain: "\<forall>x \<in> set indexes. NUL \<notin> set x"
  by (simp add: indexes_def)

lemma get_method_file:
  assumes "ecwd e = view wd wt" "NUL \<notin> set (site wd host p)" "p \<noteq> []" "efiles e = map Some fcs"
    "qhost (crequest cl) = view host ht" "qpath (crequest cl) = view p pt"
    "qheaders (crequest cl) = Some h" "wf_headers h" "site_token e wd host p \<noteq> None \<Longrightarrow> nslots h < MAX_HEADERS"
  shows "\<exists>h'. get_method e cl = mimetype_handler e (site_file e wd fcs host p)
      (cl\<lparr>crequest := (crequest cl)\<lparr>qheaders := Some h'\<rparr>\<rparr>)
    \<and> wf_headers h' \<and> entries h' = entries h @ token_field e wd host p"
proof -
  let ?n = "site wd host (site_path e wd host p)"
  obtain q where q: "socket_peer (fst (csocket cl)) = Some (lit q)" using socket_peer_lit by blast
  obtain h' where h': "deauth_path e (view host ht) (view p pt) (crequest cl)
    = Some (lit ?n, (crequest cl)\<lparr>qheaders := Some h'\<rparr>)" "wf_headers h'" "entries h' = entries h @ token_field e wd host p"
    using deauth_path_eq [OF assms(1-3,7,8,9)] by blast
  have nul: "NUL \<notin> set ?n"
    using assms(2) site_path_set [of e wd host p] by (auto simp: site_def)
  have "(if is_dir e ?n then get_index e (lit ?n) else load (efiles e) (lit ?n)) = Some (site_file e wd fcs host p)"
    using index_loop_eq [OF assms(4) indexes_plain, of ?n]
    by (simp add: site_file_def site_names_def get_index_def assms(4) load_cached split: option.split)
  then have "get_method e cl = mimetype_handler e (site_file e wd fcs host p) (cl\<lparr>crequest := (crequest cl)\<lparr>qheaders := Some h'\<rparr>\<rparr>)"
    using q h'(1) is_directory_eq [OF nul]
    by (simp add: get_method_def Let_def assms(5,6) notice_log_def debug_log_def new_str_def)
  with h'(2,3) show ?thesis by blast
qed

text \<open>C13: A GET request is answered with the first file of the cache that its path stands for.  The path
  names a file or a directory of its host; when it does not, it is served from the first slash from
  which on it names a directory, and the bytes before that are a token, which becomes a field of the
  request.  A directory stands for its indexes, in the order of the table of index.c, without and with
  a slash.\<close>

theorem get_method_resolves:
  assumes "ecwd e = view wd wt" "NUL \<notin> set (site wd host p)" "p \<noteq> []" "efiles e = map Some fcs"
    "qhost (crequest cl) = view host ht" "qpath (crequest cl) = view p pt"
    "qheaders (crequest cl) = Some h" "wf_headers h" "nslots h < MAX_HEADERS"
  shows "\<exists>h'. get_method e cl = mimetype_handler e (site_file e wd fcs host p)
      (cl\<lparr>crequest := (crequest cl)\<lparr>qheaders := Some h'\<rparr>\<rparr>)
    \<and> wf_headers h' \<and> entries h' = entries h @ token_field e wd host p"
  by (rule get_method_file [OF assms])

theorem get_method_resolves_witness:
  "\<exists>e cl h'. get_method e cl = mimetype_handler e (Some (sample_file\<lparr>fname := ''/srv/a.org/d/index.lws'' @ [NUL]\<rparr>))
      (cl\<lparr>crequest := (crequest cl)\<lparr>qheaders := Some h'\<rparr>\<rparr>)
    \<and> qpath (crequest cl) = lit ''/key/d'' \<and> entries h' = [(''Token'', ''key'')]"
proof -
  let ?fc = "sample_file\<lparr>fname := ''/srv/a.org/d/index.lws'' @ [NUL]\<rparr>"
  let ?e = "sample_env\<lparr>efiles := [Some ?fc], estat := (\<lambda>n. if n = ''/srv/a.org/d'' then Some S_IFDIR else None)\<rparr>"
  obtain h where h: "new_headers = Some h" "wf_headers h" "entries h = []" "nslots h = 0"
    using new_headers_wf by (simp add: new_headers_def entries_def live_slots_def)
  let ?cl = "(sample_client new_headers)\<lparr>crequest := fresh_request\<lparr>qhost := lit ''a.org'', qpath := lit ''/key/d'', qheaders := Some h\<rparr>\<rparr>"
  have "\<exists>h'. get_method ?e ?cl = mimetype_handler ?e (site_file ?e ''/srv'' [?fc] ''a.org'' ''/key/d'')
      (?cl\<lparr>crequest := (crequest ?cl)\<lparr>qheaders := Some h'\<rparr>\<rparr>)
    \<and> wf_headers h' \<and> entries h' = entries h @ token_field ?e ''/srv'' ''a.org'' ''/key/d''"
    by (rule get_method_resolves) (use h in \<open>simp_all add: sample_env_def site_def MAX_HEADERS_def\<close>)
  moreover have "site_file ?e ''/srv'' [?fc] ''a.org'' ''/key/d'' = Some ?fc"
    "token_field ?e ''/srv'' ''a.org'' ''/key/d'' = [(''Token'', ''key'')]"
    by (simp_all add: site_file_def site_names_def site_path_def site_token_def token_field_def site_def is_dir_def is_reg_def
        S_IFDIR_def indexes_def file_name_def)
  ultimately show ?thesis
    using h(3) by (intro exI [of _ ?e] exI [of _ ?cl]) auto
qed

end
