(* ===== verification/Get_Props.thy ===== *)
theory Get_Props
  imports Site_Path Arrival
begin

section \<open>The answer to a GET request\<close>

text \<open>
  The whole path of a response, from the complete request to the exit of the worker: the handler
  table of \<^verbatim>\<open>methods.c\<close>, the cached file of \<^verbatim>\<open>files.c\<close>, the head and the body of
  \<^verbatim>\<open>responses.c\<close> and \<^verbatim>\<open>sockets.c\<close>, byte for byte.
\<close>

subsection \<open>Answering a GET request\<close>

lemma add_field:
  assumes "wf_headers h" "nslots h < MAX_HEADERS" "NUL \<notin> set ks" "NUL \<notin> set vs"
  shows "\<exists>h'. header_func (ks @ [NUL]) (Some h) (vs @ [NUL]) = Some (Some h') \<and> wf_headers h'
    \<and> entries h' = entries h @ [(ks, vs)] \<and> nslots h' = nslots h + 1"
  using header_func_room [OF assms, of "[]"] add_slot_wf [OF assms(1,2), of "lit ks" "lit vs"]
  by (auto simp: wf_slot_def put_slot_def)

definition response_fields :: "(string \<times> string) list" where
  "response_fields = [(''Connection'', ''close''), (''Transfer-Encoding'', ''chunked''), (''Server'', ''Jawas/1.0'')]"

lemma begin_response_fresh:
  assumes "cresponse cl = Some (new_response req)"
  shows "\<exists>h. begin_response cl = Some (False, cl\<lparr>cresponse := Some ((new_response req)\<lparr>pheaders := Some h\<rparr>)\<rparr>)
    \<and> wf_headers h \<and> entries h = response_fields \<and> nslots h = 3"
proof -
  obtain h0 where h0: "new_headers = Some h0" "wf_headers h0" "entries h0 = []" "nslots h0 = 0"
    using new_headers_wf by (simp add: new_headers_def entries_def live_slots_def)
  obtain h1 where h1: "connection (Some h0) (''close'' @ [NUL]) = Some (Some h1)" "wf_headers h1"
    "entries h1 = entries h0 @ [(''Connection'', ''close'')]" "nslots h1 = nslots h0 + 1"
    unfolding connection_def Connection_MSG_def
    using add_field [OF h0(2), of "''Connection''" "''close''"] h0(4) by (auto simp: MAX_HEADERS_def)
  obtain h2 where h2: "transfer_encoding (Some h1) (''chunked'' @ [NUL]) = Some (Some h2)" "wf_headers h2"
    "entries h2 = entries h1 @ [(''Transfer-Encoding'', ''chunked'')]" "nslots h2 = nslots h1 + 1"
    unfolding transfer_encoding_def Transfer_Encoding_MSG_def
    using add_field [OF h1(2), of "''Transfer-Encoding''" "''chunked''"] h0(4) h1(4) by (auto simp: MAX_HEADERS_def)
  obtain h3 where h3: "server_name (Some h2) SERVER_VERSION = Some (Some h3)" "wf_headers h3"
    "entries h3 = entries h2 @ [(''Server'', ''Jawas/1.0'')]" "nslots h3 = nslots h2 + 1"
    unfolding server_name_def Server_MSG_def SERVER_VERSION_def
    using add_field [OF h2(2), of "''Server''" "''Jawas/1.0''"] h0(4) h1(4) h2(4) by (auto simp: MAX_HEADERS_def)
  have n: "pheaders (new_response req) = Some h0" "pcontents (new_response req) = None" "praw (new_response req) = None"
    by (simp_all add: new_response_def h0(1))
  have "begin_response cl = Some (False, cl\<lparr>cresponse := Some ((new_response req)\<lparr>pheaders := Some h3\<rparr>)\<rparr>)"
    using h1(1) h2(1) h3(1) by (simp add: begin_response_def assms n)
  then show ?thesis
    using h0(3,4) h1(3,4) h2(3,4) h3(2,3,4) by (intro exI [of _ h3]) (simp add: response_fields_def)
qed

lemma dispatch_GET:
  "dispatch_method e (view ''GET'' ys) cl = get_method e cl"
  by (simp add: dispatch_method_def view_def gdispatch_def method_test_def tolower_def byte_simps)

text \<open>The handler of a plain file.\<close>

lemma script_handler_delivers:
  assumes "whole_writes (ekw e)" "cresponse cl = Some resp" "pheaders resp = Some h" "wf_headers h"
    "0 \<le> fsize fc" "fsize fc \<le> int (length (fdata fc))" "fsize fc < 2 ^ 31"
  obtains c' where "script_handler e fc cl = Some (200, cl\<lparr>csocket := c'\<rparr>)"
    "delivers (ekw e) (csocket cl) ((''HTTP/1.1 '' @ reason (status_of 200)) @ header_lines (entries h) @ CRLF
      @ chunks (take (nat (fsize fc)) (fdata fc))) c'"
proof -
  obtain c1 where 1: "send_head e 200 cl = Some (cl\<lparr>csocket := c1\<rparr>)"
    "delivers (ekw e) (csocket cl) ((''HTTP/1.1 '' @ reason (status_of 200)) @ header_lines (entries h) @ CRLF) c1"
    using send_head_delivers [OF assms(1-4)] .
  obtain c2 where 2: "send_file_loop (ekw e) fc 0 c1 = Some c2"
    "delivers (ekw e) c1 (chunks (take (nat (fsize fc)) (fdata fc))) c2" using send_whole_file [OF assms(1,5,6,7)] .
  show ?thesis
  proof (rule that)
    show "script_handler e fc cl = Some (200, cl\<lparr>csocket := c2\<rparr>)" using 1(1) 2(1) by (simp add: script_handler_def)
  qed (use delivers_append [OF 1(2) 2(2)] in simp)
qed

text \<open>The handler of an image, for a request without a range.\<close>

definition image_fields :: "env \<Rightarrow> (string \<times> string) list" where
  "image_fields e = [(''Cache-Control'', ''max-age=86400, public''), (''Date'', edate e), (''Expires'', eexpires e)]"

lemma img_handler_delivers:
  assumes "whole_writes (ekw e)" "cresponse cl = Some resp"
    "pheaders resp = Some h" "wf_headers h" "nslots h \<le> 200" "0 \<le> fsize fc" "fsize fc \<le> int (length (fdata fc))"
    "qheaders (crequest cl) = Some rh" "wf_headers rh" "map_of (entries rh) ''Range'' = None"
    "NUL \<notin> set (edate e)" "NUL \<notin> set (eexpires e)" "fsize fc < 2 ^ 31"
  obtains cl' where "img_handler e fc cl = Some (200, cl')" "cresponse cl' \<noteq> None"
    "delivers (ekw e) (csocket cl) ((''HTTP/1.1 '' @ reason (status_of 200)) @ header_lines (entries h @ image_fields e) @ CRLF
      @ chunks (take (nat (fsize fc)) (fdata fc))) (csocket cl')"
proof -
  obtain h1 where h1: "cache_control (Some h) (''max-age=86400, public'' @ [NUL]) = Some (Some h1)" "wf_headers h1"
    "entries h1 = entries h @ [(''Cache-Control'', ''max-age=86400, public'')]" "nslots h1 = nslots h + 1"
    unfolding cache_control_def Cache_Control_MSG_def
    using add_field [OF assms(4), of "''Cache-Control''" "''max-age=86400, public''"] assms(5) by (auto simp: MAX_HEADERS_def)
  obtain h2 where h2: "date_field (Some h1) (edate e @ [NUL]) = Some (Some h2)" "wf_headers h2"
    "entries h2 = entries h1 @ [(''Date'', edate e)]" "nslots h2 = nslots h1 + 1"
    unfolding date_field_def Date_MSG_def
    using add_field [OF h1(2), of "''Date''" "edate e"] h1(4) assms(5,11) by (auto simp: MAX_HEADERS_def)
  obtain h3 where h3: "expires (Some h2) (eexpires e @ [NUL]) = Some (Some h3)" "wf_headers h3"
    "entries h3 = entries h2 @ [(''Expires'', eexpires e)]" "nslots h3 = nslots h2 + 1"
    unfolding expires_def Expires_MSG_def
    using add_field [OF h2(2), of "''Expires''" "eexpires e"] h1(4) h2(4) assms(5,12) by (auto simp: MAX_HEADERS_def)
  have en: "entries h3 = entries h @ image_fields e" using h1(3) h2(3) h3(3) by (simp add: image_fields_def)
  let ?cl = "cl\<lparr>cresponse := Some (resp\<lparr>pheaders := Some h3\<rparr>)\<rparr>"
  let ?hd = "(''HTTP/1.1 '' @ reason (status_of 200)) @ header_lines (entries h @ image_fields e) @ CRLF"
  obtain c1 where 1: "send_head e 200 ?cl = Some (?cl\<lparr>csocket := c1\<rparr>)" "delivers (ekw e) (csocket ?cl) ?hd c1"
    using send_head_delivers [OF assms(1) _ _ h3(2), of ?cl "resp\<lparr>pheaders := Some h3\<rparr>" 200] en by auto
  obtain c2 where 2: "send_file_loop (ekw e) fc 0 c1 = Some c2"
    "delivers (ekw e) c1 (chunks (take (nat (fsize fc)) (fdata fc))) c2" using send_whole_file [OF assms(1,6,7,13)] .
  obtain r where "find_header (Some rh) (lit ''Range'') = Some r" "map_of (entries rh) ''Range'' = (if r = None then None else Some (chars_of r))"
    using find_header_eq [OF assms(9), of "lit ''Range''"] by auto
  then have r: "find_header (Some rh) (lit ''Range'') = Some None" using assms(10) by (auto split: if_splits)
  show ?thesis
  proof (rule that)
    show "img_handler e fc cl = Some (200, ?cl\<lparr>csocket := c2\<rparr>)"
      using h1(1) h2(1) h3(1) 1(1) 2(1) r assms(2,3,8) by (simp add: img_handler_def fmt_def new_str_def log_range_def)
  qed (use delivers_append [OF 1(2) 2(2)] in simp_all)
qed

text \<open>Both handlers, behind the type of the file.\<close>

definition file_fields :: "env \<Rightarrow> mime \<Rightarrow> (string \<times> string) list" where
  "file_fields e m = response_fields @ [(''Content-Type'', mtype m)] @ (if mhandler m = Img_Handler then image_fields e else [])"

lemma mimetype_file_delivers:
  assumes "whole_writes (ekw e)" "cresponse cl = Some resp"
    "pheaders resp = Some h" "wf_headers h" "entries h = response_fields" "nslots h = 3"
    "0 \<le> fsize fc" "fsize fc \<le> int (length (fdata fc))" "fmime fc = Some m" "NUL \<notin> set (mtype m)"
    "mhandler m = Script_Handler \<or> mhandler m = Img_Handler \<and> map_of (entries rh) ''Range'' = None
      \<and> NUL \<notin> set (edate e) \<and> NUL \<notin> set (eexpires e)" "qheaders (crequest cl) = Some rh" "wf_headers rh"
    "fsize fc < 2 ^ 31"
  obtains cl' where "mimetype_handler e (Some fc) cl = Some (200, cl')" "cresponse cl' \<noteq> None"
    "delivers (ekw e) (csocket cl) ((''HTTP/1.1 '' @ reason (status_of 200)) @ header_lines (file_fields e m) @ CRLF
      @ chunks (take (nat (fsize fc)) (fdata fc))) (csocket cl')"
proof -
  obtain h' where h': "content_type (Some h) (mtype m @ [NUL]) = Some (Some h')" "wf_headers h'"
    "entries h' = response_fields @ [(''Content-Type'', mtype m)]" "nslots h' = 4"
    unfolding content_type_def Content_Type_MSG_def
    using add_field [OF assms(4), of "''Content-Type''" "mtype m"] assms(5,6,10) by (auto simp: MAX_HEADERS_def)
  let ?cl = "cl\<lparr>cresponse := Some (resp\<lparr>pheaders := Some h'\<rparr>)\<rparr>" and ?fc = "fc\<lparr>fmime := Some m\<rparr>"
  have m: "mimetype_handler e (Some fc) cl = call_handler (mhandler m) e ?fc ?cl"
    using assms(2,3,9) h'(1) by (simp add: mimetype_handler_def)
  have c: "cresponse ?cl = Some (resp\<lparr>pheaders := Some h'\<rparr>)"
    "pheaders (resp\<lparr>pheaders := Some h'\<rparr>) = Some h'" "0 \<le> fsize ?fc" "fsize ?fc \<le> int (length (fdata ?fc))"
    "qheaders (crequest ?cl) = Some rh" "nslots h' \<le> 200" "fsize ?fc < 2 ^ 31" using assms(7,8,12,14) h'(4) by simp_all
  have s: "csocket ?cl = csocket cl" "fdata ?fc = fdata fc" "fsize ?fc = fsize fc" by simp_all
  show ?thesis
  proof (cases "mhandler m = Script_Handler")
    case True
    obtain c' where c': "script_handler e ?fc ?cl = Some (200, ?cl\<lparr>csocket := c'\<rparr>)"
      "delivers (ekw e) (csocket cl) ((''HTTP/1.1 '' @ reason (status_of 200)) @ header_lines (file_fields e m) @ CRLF
        @ chunks (take (nat (fsize fc)) (fdata fc))) c'"
      using script_handler_delivers [OF assms(1) c(1,2) h'(2) c(3,4,7)] True unfolding s h'(3) file_fields_def by auto
    then show ?thesis using that [of "?cl\<lparr>csocket := c'\<rparr>"] by (simp add: m True)
  next
    case False
    with assms(11) have f: "mhandler m = Img_Handler" "map_of (entries rh) ''Range'' = None" "NUL \<notin> set (edate e)" "NUL \<notin> set (eexpires e)"
      by auto
    obtain cl' where "img_handler e ?fc ?cl = Some (200, cl')" "cresponse cl' \<noteq> None"
      "delivers (ekw e) (csocket cl) ((''HTTP/1.1 '' @ reason (status_of 200)) @ header_lines (file_fields e m) @ CRLF
        @ chunks (take (nat (fsize fc)) (fdata fc))) (csocket cl')"
      using img_handler_delivers [OF assms(1) c(1,2) h'(2) c(6,3,4,5) assms(13) f(2-4) c(7)] f(1) unfolding s h'(3) file_fields_def by auto
    then show ?thesis using that [of cl'] by (simp add: m f(1))
  qed
qed

text \<open>The host of a request, whose field may name a port.\<close>

lemma parse_host_total:
  assumes "CHR '':'' \<notin> set host" "field = host \<or> (\<exists>port. field = host @ CHR '':'' # port \<and> port \<noteq> [] \<and> \<not> isspace (hd port))"
  shows "\<exists>ht n. parse_host req (view field ys) = Some (view host ht, req\<lparr>qhost := view host ht, qport := n\<rparr>)"
proof -
  have tw: "takeWhile (\<lambda>c. c \<noteq> CHR '':'') host = host" using assms(1) by auto
  have "takeWhile (\<lambda>c. c \<noteq> CHR '':'') field = host"
    using assms(2) tw by (auto simp: takeWhile_append simp del: takeWhile_eq_all_conv)
  then have n: "name_field (view field ys) = Some (view host (dropWhile (\<lambda>c. c \<noteq> CHR '':'') field @ ys))"
    by (simp add: name_field_eq)
  obtain p where "skip_fields (view field ys) 0 = Some p" "wf_str p"
    using assms(2) skip_fields_whole [OF assms(1), of ys] skip_fields_value [OF assms(1), of "[]" _ ys] by auto
  then obtain i where "skip_fields (view field ys) 0 = Some p" "str_int p = Some i" using str_int_eq by blast
  with n show ?thesis by (auto simp: parse_host_def request_port_def Let_def)
qed

text \<open>The client when its handler is called: the request is read, the response is begun, nothing has
  been sent.\<close>

definition asks :: "socket \<Rightarrow> string \<Rightarrow> string \<Rightarrow> (string \<times> string) list \<Rightarrow> (string \<times> string) list \<Rightarrow> string \<Rightarrow> int
    \<Rightarrow> client \<Rightarrow> bool" where
  "asks sc host p kvs vs msg pos cl \<longleftrightarrow> csocket cl = (sc, \<lparr>sent = [], writes = 0\<rparr>)
     \<and> (\<exists>resp h. cresponse cl = Some resp \<and> pheaders resp = Some h \<and> wf_headers h \<and> entries h = response_fields \<and> nslots h = 3)
     \<and> (\<exists>ht. qhost (crequest cl) = view host ht) \<and> (\<exists>pt. qpath (crequest cl) = view p pt)
     \<and> (\<exists>rh q. qheaders (crequest cl) = Some rh \<and> wf_headers rh \<and> entries rh = kvs @ [(''peer'', q)])
     \<and> qcontents (crequest cl) = view msg [] \<and> qbody (crequest cl) = pos \<and> holds_vars (qvars (crequest cl)) vs"

text \<open>The path of a request with \<open>n\<close> fields leads to \<open>f\<close>, a file of the cache or none; a token in the
  path needs a place in the header table.\<close>

definition leads_to :: "env \<Rightarrow> nat \<Rightarrow> string \<Rightarrow> string \<Rightarrow> file_cache option \<Rightarrow> bool" where
  "leads_to e n host p f \<longleftrightarrow> (\<exists>wd wt fcs. ecwd e = view wd wt \<and> NUL \<notin> set (site wd host p) \<and> p \<noteq> []
     \<and> n + length (token_field e wd host p) < 250 \<and> efiles e = map Some fcs \<and> f = site_file e wd fcs host p)"

lemma get_method_leads:
  assumes "asks sc host p kvs vs msg pos cl" "leads_to e (length kvs) host p f"
  shows "\<exists>h. get_method e cl = mimetype_handler e f (cl\<lparr>crequest := (crequest cl)\<lparr>qheaders := Some h\<rparr>\<rparr>)
    \<and> wf_headers h \<and> (\<forall>k. k \<noteq> ''peer'' \<and> k \<noteq> ''Token'' \<longrightarrow> map_of (entries h) k = map_of kvs k)"
proof -
  obtain ht pt rh q where a: "qhost (crequest cl) = view host ht" "qpath (crequest cl) = view p pt"
    "qheaders (crequest cl) = Some rh" "wf_headers rh" "entries rh = kvs @ [(''peer'', q)]"
    using assms(1) by (auto simp: asks_def)
  obtain wd wt fcs where l: "ecwd e = view wd wt" "NUL \<notin> set (site wd host p)" "p \<noteq> []" "efiles e = map Some fcs"
    "length kvs + length (token_field e wd host p) < 250" "f = site_file e wd fcs host p"
    using assms(2) by (auto simp: leads_to_def)
  have "nslots rh < MAX_HEADERS" if "site_token e wd host p \<noteq> None"
    using that l(5) a(5) length_entries [OF a(4)] a(4)
    by (auto simp: token_field_def MAX_HEADERS_def wf_headers_def)
  from get_method_file [OF l(1-4) a(1-4) this] obtain h where
    h: "get_method e cl = mimetype_handler e f (cl\<lparr>crequest := (crequest cl)\<lparr>qheaders := Some h\<rparr>\<rparr>)"
    "wf_headers h" "entries h = entries rh @ token_field e wd host p" unfolding l(6) by blast
  have "map_of (entries h) k = map_of kvs k" if "k \<noteq> ''peer''" "k \<noteq> ''Token''" for k
    using that by (simp add: h(3) a(5) token_field_def map_add_def split: option.split)
  with h(1,2) show ?thesis by blast
qed

lemma send_response_with:
  assumes "whole_writes (ekw e)" "csocket cl = (sc, \<lparr>sent = [], writes = 0\<rparr>)"
    "cresponse cl = Some (new_response (crequest cl))"
    "qheaders (crequest cl) = Some rh" "wf_headers rh" "entries rh = kvs @ [(''peer'', q)]"
    "map_of kvs ''Host'' = Some field" "CHR '':'' \<notin> set host"
    "field = host \<or> (\<exists>port. field = host @ CHR '':'' # port \<and> port \<noteq> [] \<and> \<not> isspace (hd port))"
    "word_bytes m" "m \<noteq> []" "qcontents (crequest cl) = view msg []" "msg = m @ CHR '' '' # rest"
    "qpath (crequest cl) = view p pt" "qbody (crequest cl) = pos" "holds_vars (qvars (crequest cl)) vs"
    and handler: "\<And>cl mt. asks sc host p kvs vs msg pos cl \<Longrightarrow> \<exists>cl' out. dispatch_method e (view m mt) cl = Some (code, cl')
      \<and> cresponse cl' \<noteq> None \<and> delivers (ekw e) (csocket cl) out (csocket cl') \<and> Q out"
  shows "\<exists>cl' out. send_response e cl = Some cl' \<and> cexit cl'
    \<and> delivers (ekw e) (csocket cl) (out @ chunk []) (csocket cl') \<and> Q out"
proof -
  have mh: "map_of (entries rh) ''Host'' = Some field" using assms(7) by (simp add: assms(6) map_add_def)
  obtain r where r: "find_header (qheaders (crequest cl)) (lit ''Host'') = Some r" "wf_str r"
    "map_of (entries rh) ''Host'' = (if r = None then None else Some (chars_of r))"
    using find_header_eq [OF assms(5), of "lit ''Host''"] assms(4) by auto
  obtain ft where rv: "r = view field ft" using r(2,3) mh by (auto simp: wf_str_view split: if_splits)
  obtain ht n where h: "parse_host (crequest cl) r = Some (view host ht, (crequest cl)\<lparr>qhost := view host ht, qport := n\<rparr>)"
    using parse_host_total [OF assms(8,9)] rv by blast
  let ?req = "(crequest cl)\<lparr>qhost := view host ht, qport := n\<rparr>" and ?m = "view m (CHR '' '' # rest)"
  have m: "parse_method ?req = Some (?m, ?req\<lparr>qmethod := ?m\<rparr>)"
    using parse_method_eq [OF assms(10,11), of ?req rest "[]"] assms(12,13) by simp
  let ?cl = "cl\<lparr>crequest := ?req\<lparr>qmethod := ?m\<rparr>\<rparr>"
  obtain rh2 where b: "begin_response ?cl = Some (False, ?cl\<lparr>cresponse := Some ((new_response (crequest cl))\<lparr>pheaders := Some rh2\<rparr>)\<rparr>)"
    "wf_headers rh2" "entries rh2 = response_fields" "nslots rh2 = 3"
    using begin_response_fresh [of ?cl "crequest cl"] assms(3) by auto
  let ?cl2 = "?cl\<lparr>cresponse := Some ((new_response (crequest cl))\<lparr>pheaders := Some rh2\<rparr>)\<rparr>"
  have "asks sc host p kvs vs msg pos ?cl2"
    using assms(2,4-6,12,14-16) b(2-4) by (simp add: asks_def)
  from handler [OF this, of "CHR '' '' # rest"] obtain cl3 out where g: "dispatch_method e ?m ?cl2 = Some (code, cl3)" "cresponse cl3 \<noteq> None"
    "delivers (ekw e) (csocket cl) out (csocket cl3)" "Q out" by auto
  obtain resp where resp: "cresponse cl3 = Some resp" using g(2) by blast
  obtain c4 where last: "write_chunk (ekw e) None 0 (csocket cl3) = Some (0, c4)" "delivers (ekw e) (csocket cl3) (chunk []) c4"
    using write_last_chunk [OF assms(1)] .
  have "send_response e cl = Some (disconnect (cl3\<lparr>cresponse := Some (resp\<lparr>pstatus := code\<rparr>), csocket := c4\<rparr>))"
    using r(1) h m b(1) g(1) resp last(1) by (simp add: send_response_def new_str_def fmt_def end_response_def)
  then show ?thesis using g(4) delivers_append [OF g(3) last(2)] by (auto simp: disconnect_def)
qed

subsection \<open>From the connection to the exit\<close>

lemma word_no_eol: "word_bytes s \<Longrightarrow> \<forall>c \<in> set s. no_eol c"
  by (auto simp: word_bytes_def isspace_def)

text \<open>The head of a request, and the worker that has read it with its body.\<close>

definition request_line :: "string \<Rightarrow> string \<Rightarrow> (string \<times> string) list \<Rightarrow> string" where
  "request_line m p vs = m @ CHR '' '' # target p vs @ '' HTTP/1.1''"

definition request_head :: "string \<Rightarrow> string \<Rightarrow> (string \<times> string) list \<Rightarrow> (string \<times> string) list \<Rightarrow> string" where
  "request_head m p vs kvs = request_line m p vs @ CRLF @ header_lines kvs @ CRLF"

lemma answering_request:
  assumes "word_bytes m" "m \<noteq> []" "word_bytes p" "CHR ''?'' \<notin> set p" "p \<noteq> []"
    "wf_form vs" "length vs \<le> 250" "word_bytes (form_bytes vs)"
  shows "\<exists>r pt. answering sc (holding req h pos (request_head m p vs kvs @ body) True)
      = Some \<lparr>cevent = WRITE, calarm = False, csocket = (sc, \<lparr>sent = [], writes = 0\<rparr>), crequest = r,
          cresponse = Some (new_response r), cqueue = [(sfd sc, WRITE)], cexit = False\<rparr>
    \<and> qheaders r = Some h \<and> qcontents r = view (request_head m p vs kvs @ body) [] \<and> qpath r = view p pt
    \<and> qbody r = pos \<and> holds_vars (qvars r) vs"
proof -
  let ?q = "holding req h pos (request_head m p vs kvs @ body) True"
  have "qcontents ?q = view (m @ CHR '' '' # target p vs @ CHR '' '' # ''HTTP/1.1'' @ CRLF @ header_lines kvs @ CRLF @ body) []"
    by (simp add: holding_def request_head_def request_line_def)
  from parse_path_target [OF assms this] obtain pt t where
    t: "parse_path ?q = Some (view p pt, ?q\<lparr>qvars := t, qpath := view p pt\<rparr>)" "holds_vars t vs" by blast
  have n: "new_response (?q\<lparr>qvars := t, qpath := view p pt\<rparr>) = new_response ?q" by (simp add: new_response_def)
  have "answering sc ?q = Some \<lparr>cevent = WRITE, calarm = False, csocket = (sc, \<lparr>sent = [], writes = 0\<rparr>),
      crequest = ?q\<lparr>qvars := t, qpath := view p pt\<rparr>, cresponse = Some (new_response (?q\<lparr>qvars := t, qpath := view p pt\<rparr>)),
      cqueue = [(sfd sc, WRITE)], cexit = False\<rparr>"
    unfolding n by (simp add: answering_def t(1))
  with t(2) show ?thesis
    by (intro exI [of _ "?q\<lparr>qvars := t, qpath := view p pt\<rparr>"] exI [of _ pt]) (simp add: holding_def)
qed

text \<open>All events: what the handler of the request sends is what the peer gets, and the end of the body.\<close>

lemma serve_request:
  assumes "whole_writes (ekw e)" "sbuf sc = None" "\<not> sclosed sc"
    "wf_fields kvs" "length kvs < 250" "plain_length kvs"
    "map_of kvs ''Host'' = Some field" "CHR '':'' \<notin> set host"
    "field = host \<or> (\<exists>port. field = host @ CHR '':'' # port \<and> port \<noteq> [] \<and> \<not> isspace (hd port))"
    "word_bytes m" "m \<noteq> []" "word_bytes p" "CHR ''?'' \<notin> set p" "p \<noteq> []"
    "wf_form vs" "length vs \<le> 250" "word_bytes (form_bytes vs)"
    "comes_in jas (request_line m p vs) kvs body"
    and handler: "\<And>cl mt. asks sc host p kvs vs (request_head m p vs kvs @ body) (int (length (request_head m p vs kvs))) cl \<Longrightarrow>
      \<exists>cl' out. dispatch_method e (view m mt) cl = Some (code, cl')
      \<and> cresponse cl' \<noteq> None \<and> delivers (ekw e) (csocket cl) out (csocket cl') \<and> Q out"
  shows "\<exists>cl cl' out. handle sc = Some cl \<and> run_loop e self (jas @ [(j2, as)]) cl = Some cl'
    \<and> reachable e self sc cl' \<and> cexit cl'
    \<and> delivers (ekw e) (sc, \<lparr>sent = [], writes = 0\<rparr>) (out @ chunk []) (csocket cl') \<and> Q out"
proof -
  let ?head = "request_head m p vs kvs"
  let ?line = "request_line m p vs" and ?pos = "int (length ?head)"
  obtain req where req: "handle sc = Some (waiting sc req)" "qbody req = 0" "\<not> qdone req" "qfd req = Some (sfd sc)"
    using handle_waits by blast
  have ne: "kvs \<noteq> []" using assms(7) by auto
  have "\<forall>c \<in> set m. no_eol c" "\<forall>c \<in> set p. no_eol c" "\<forall>c \<in> set (form_bytes vs). no_eol c"
    using assms(10,12,17) by (simp_all add: word_no_eol)
  then have line: "\<forall>c \<in> set ?line. no_eol c" by (simp add: request_line_def target_def ball_Un)
  have head: "?line @ CRLF @ header_lines kvs @ CRLF = ?head" by (simp add: request_head_def)
  obtain rh q where run: "wf_headers rh" "entries rh = kvs @ [(''peer'', q)]"
    "run_loop e self (jas @ [(j2, as)]) (waiting sc req)
      = Option.bind (answering sc (holding req rh ?pos (?head @ body) True)) (run_loop e self [(j2, as)])"
    using read_request_pieces [OF assms(18,2,3) req(2-4) assms(4) ne assms(5,6) line, where e = e and self = self and rest = "[(j2, as)]"]
    unfolding head by blast
  obtain r pt where r: "answering sc (holding req rh ?pos (?head @ body) True)
      = Some \<lparr>cevent = WRITE, calarm = False, csocket = (sc, \<lparr>sent = [], writes = 0\<rparr>), crequest = r,
          cresponse = Some (new_response r), cqueue = [(sfd sc, WRITE)], cexit = False\<rparr>"
    "qheaders r = Some rh" "qcontents r = view (?head @ body) []" "qpath r = view p pt" "qbody r = ?pos" "holds_vars (qvars r) vs"
    using answering_request [OF assms(10-17)] by blast
  let ?cl = "\<lparr>cevent = WRITE, calarm = False, csocket = (sc, \<lparr>sent = [], writes = 0\<rparr>), crequest = r,
          cresponse = Some (new_response r), cqueue = [(sfd sc, WRITE)], cexit = False\<rparr>"
  have msg: "?head @ body = m @ CHR '' '' # (target p vs @ '' HTTP/1.1'' @ CRLF @ header_lines kvs @ CRLF @ body)"
    by (simp add: request_head_def request_line_def)
  have "\<exists>cl' out. send_response e (?cl\<lparr>cqueue := []\<rparr>) = Some cl' \<and> cexit cl'
      \<and> delivers (ekw e) (csocket (?cl\<lparr>cqueue := []\<rparr>)) (out @ chunk []) (csocket cl') \<and> Q out"
    by (rule send_response_with [OF assms(1) _ _ _ run(1,2) assms(7-11) _ msg, where p = p and pt = pt and pos = ?pos and vs = vs])
      (use r(2-6) handler in \<open>simp_all\<close>)
  then obtain cl' out where s: "send_response e (?cl\<lparr>cqueue := []\<rparr>) = Some cl'" "cexit cl'"
    "delivers (ekw e) (sc, \<lparr>sent = [], writes = 0\<rparr>) (out @ chunk []) (csocket cl')" "Q out" by auto
  have "run_loop e self [(j2, as)] ?cl = Some cl'"
    using s(1) assms(3) by (simp add: client_poll_def closed_socket_def)
  then have run': "run_loop e self (jas @ [(j2, as)]) (waiting sc req) = Some cl'"
    unfolding run(3) r(1) by (simp only: bind.bind_lunit)
  then have "reachable e self sc cl'" by (rule run_loop_reachable) (rule reachable.start [OF req(1)])
  with req(1) run' s(2-4) show ?thesis by (intro exI conjI)
qed

lemma Range_name: "''Range'' \<noteq> ''peer''" "''Range'' \<noteq> ''Token''"
  by simp_all

lemma get_served:
  assumes "whole_writes (ekw e)" "sbuf sc = None" "\<not> sclosed sc"
    "wf_fields kvs" "plain_length kvs" "comes_in jas (request_line ''GET'' p vs) kvs body"
    "map_of kvs ''Host'' = Some field" "CHR '':'' \<notin> set host"
    "field = host \<or> (\<exists>port. field = host @ CHR '':'' # port \<and> port \<noteq> [] \<and> \<not> isspace (hd port))"
    "word_bytes p" "p \<noteq> []" "CHR ''?'' \<notin> set p"
    "leads_to e (length kvs) host p (Some fc)"
    "wf_form vs" "length vs \<le> 250" "word_bytes (form_bytes vs)"
    "0 \<le> fsize fc" "fsize fc \<le> int (length (fdata fc))" "fmime fc = Some m" "NUL \<notin> set (mtype m)"
    "mhandler m = Script_Handler \<or> mhandler m = Img_Handler \<and> map_of kvs ''Range'' = None
      \<and> NUL \<notin> set (edate e) \<and> NUL \<notin> set (eexpires e)" "fsize fc < 2 ^ 31"
  shows "\<exists>cl cl' s. handle sc = Some cl \<and> run_loop e self (jas @ [(j2, as)]) cl = Some cl'
    \<and> reachable e self sc cl' \<and> cexit cl'
    \<and> delivers (ekw e) (sc, \<lparr>sent = [], writes = 0\<rparr>) (''HTTP/1.1 200 OK'' @ CRLF @ header_lines (file_fields e m) @ CRLF @ s)
        (csocket cl')
    \<and> unchunk s = Some (take (nat (fsize fc)) (fdata fc), [])"
proof -
  let ?xs = "take (nat (fsize fc)) (fdata fc)" and ?head = "request_head ''GET'' p vs kvs"
  let ?hd = "(''HTTP/1.1 '' @ reason (status_of 200)) @ header_lines (file_fields e m) @ CRLF"
  have room: "length kvs < 250" using assms(13) by (auto simp: leads_to_def)
  have "\<exists>cl cl' out. handle sc = Some cl \<and> run_loop e self (jas @ [(j2, as)]) cl = Some cl'
    \<and> reachable e self sc cl' \<and> cexit cl'
    \<and> delivers (ekw e) (sc, \<lparr>sent = [], writes = 0\<rparr>) (out @ chunk []) (csocket cl') \<and> out = ?hd @ chunks ?xs"
  proof (rule serve_request [OF assms(1-4) room assms(5,7-9) _ _ assms(10,12,11,14-16,6)])
    fix cl mt assume ask: "asks sc host p kvs vs (?head @ body) (int (length ?head)) cl"
    then obtain resp h where a: "csocket cl = (sc, \<lparr>sent = [], writes = 0\<rparr>)" "cresponse cl = Some resp"
      "pheaders resp = Some h" "wf_headers h" "entries h = response_fields" "nslots h = 3"
      by (auto simp: asks_def)
    obtain rh where g: "get_method e cl = mimetype_handler e (Some fc) (cl\<lparr>crequest := (crequest cl)\<lparr>qheaders := Some rh\<rparr>\<rparr>)"
      "wf_headers rh" "map_of (entries rh) ''Range'' = map_of kvs ''Range''"
      using get_method_leads [OF ask assms(13)] by (metis (no_types) Range_name)
    let ?cl = "cl\<lparr>crequest := (crequest cl)\<lparr>qheaders := Some rh\<rparr>\<rparr>"
    have c: "csocket ?cl = csocket cl" "cresponse ?cl = Some resp" "qheaders (crequest ?cl) = Some rh"
      using a(2) by simp_all
    have k: "mhandler m = Script_Handler \<or> mhandler m = Img_Handler \<and> map_of (entries rh) ''Range'' = None
      \<and> NUL \<notin> set (edate e) \<and> NUL \<notin> set (eexpires e)" using assms(21) unfolding g(3) .
    obtain cl' where "mimetype_handler e (Some fc) ?cl = Some (200, cl')" "cresponse cl' \<noteq> None"
      "delivers (ekw e) (csocket cl) (?hd @ chunks ?xs) (csocket cl')"
      using mimetype_file_delivers [OF assms(1) c(2) a(3-6) assms(17-20) k c(3) g(2) assms(22)]
      unfolding c(1) append_assoc by blast
    then show "\<exists>cl' out. dispatch_method e (view ''GET'' mt) cl = Some (200, cl')
      \<and> cresponse cl' \<noteq> None \<and> delivers (ekw e) (csocket cl) out (csocket cl') \<and> out = ?hd @ chunks ?xs"
      unfolding dispatch_GET g(1) by blast
  qed (simp_all add: word_bytes_def isspace_def)
  then obtain cl cl' where r: "handle sc = Some cl" "run_loop e self (jas @ [(j2, as)]) cl = Some cl'"
    "reachable e self sc cl'" "cexit cl'" "delivers (ekw e) (sc, \<lparr>sent = [], writes = 0\<rparr>) ((?hd @ chunks ?xs) @ chunk []) (csocket cl')" by blast
  have "reason (status_of 200) = ''200 OK'' @ CRLF" by (simp add: status_of_def stati_def)
  with r(5) have "delivers (ekw e) (sc, \<lparr>sent = [], writes = 0\<rparr>) (''HTTP/1.1 200 OK'' @ CRLF
        @ header_lines (file_fields e m) @ CRLF @ chunks ?xs @ chunk []) (csocket cl')" by simp
  with r(1-4) unchunk_chunks [of ?xs "[]", unfolded append_Nil2] show ?thesis by blast
qed

text \<open>C1: A worker to whose connection a GET request arrives, with a query string or without, in one
  read or in several that cut its head nowhere before or inside the name of a field and its body
  anywhere, reads it, and answers it when its host and path lead to a file of the cache with a handler for plain files or
  for images, be it the file itself, the index of a directory, or one behind a token, and the file has less than
  \<open>2 ^ 31\<close> bytes: with a status
  line of 200, the fields of the server, the type of the file and the fields of an image, a blank line
  and a chunked body which the peer decodes to exactly the bytes of the file, all of it or the part
  before the write that failed.  Then the worker exits.\<close>

theorem serve_get:
  assumes "whole_writes (ekw e)" "sbuf sc = None" "\<not> sclosed sc"
    "wf_fields kvs" "plain_length kvs" "comes_in jas (request_line ''GET'' p vs) kvs body"
    "map_of kvs ''Host'' = Some field" "CHR '':'' \<notin> set host"
    "field = host \<or> (\<exists>port. field = host @ CHR '':'' # port \<and> port \<noteq> [] \<and> \<not> isspace (hd port))"
    "word_bytes p" "p \<noteq> []" "CHR ''?'' \<notin> set p"
    "leads_to e (length kvs) host p (Some fc)"
    "wf_form vs" "length vs \<le> 250" "word_bytes (form_bytes vs)"
    "0 \<le> fsize fc" "fsize fc \<le> int (length (fdata fc))" "fmime fc = Some m" "NUL \<notin> set (mtype m)"
    "mhandler m = Script_Handler \<or> mhandler m = Img_Handler \<and> map_of kvs ''Range'' = None
      \<and> NUL \<notin> set (edate e) \<and> NUL \<notin> set (eexpires e)" "fsize fc < 2 ^ 31"
  shows "\<exists>cl cl' s. handle sc = Some cl \<and> run_loop e self (jas @ [(j2, as)]) cl = Some cl'
    \<and> reachable e self sc cl' \<and> cexit cl'
    \<and> delivers (ekw e) (sc, \<lparr>sent = [], writes = 0\<rparr>) (''HTTP/1.1 200 OK'' @ CRLF @ header_lines (file_fields e m) @ CRLF @ s)
        (csocket cl')
    \<and> unchunk s = Some (take (nat (fsize fc)) (fdata fc), [])"
  by (rule get_served [OF assms])

text \<open>The index of a directory, asked for with a token.\<close>

definition sample_page :: file_cache where
  "sample_page = sample_file\<lparr>fname := ''/srv/a.org/index.html'' @ [NUL],
     fmime := Some \<lparr>ending = ''html'', mtype = ''text/html'', mhandler = Script_Handler\<rparr>\<rparr>"

definition index_env :: env where
  "index_env = sample_env\<lparr>efiles := [Some sample_page], estat := (\<lambda>n. if n = ''/srv/a.org/'' then Some S_IFDIR else None)\<rparr>"

lemma index_env_leads: "leads_to index_env 1 ''a.org'' ''/secret/'' (Some sample_page)"
  unfolding leads_to_def
  by (intro exI [of _ "''/srv''"] exI [of _ "[NUL]"] exI [of _ "[sample_page]"])
    (simp add: index_env_def sample_env_def site_def token_field_def site_token_def site_path_def site_file_def site_names_def
      is_dir_def is_reg_def S_IFDIR_def indexes_def sample_page_def file_name_def)

theorem serve_get_witness:
  "\<exists>cl cl' s. handle (create_socket 5 False \<lparr>sin_addr = 1, sin_port = 80\<rparr>) = Some cl
    \<and> run_loop index_env 0 ([(0, [Data (request_line ''GET'' ''/secret/'' [] @ CRLF @ header_lines [(''Host'', ''a.org:8080'')]), Again]),
        (0, [Data CRLF, Again])] @ [(0, [])]) cl = Some cl'
    \<and> cexit cl' \<and> sent (snd (csocket cl')) = ''HTTP/1.1 200 OK'' @ CRLF
        @ header_lines (response_fields @ [(''Content-Type'', ''text/html'')]) @ CRLF @ s
    \<and> unchunk s = Some (''hello'', [])"
proof -
  let ?sc = "create_socket 5 False \<lparr>sin_addr = 1, sin_port = 80\<rparr>"
  let ?line = "request_line ''GET'' ''/secret/'' []" and ?kvs = "[(''Host'', ''a.org:8080'')]"
  let ?jas = "[(0, [Data (?line @ CRLF @ header_lines ?kvs), Again]), (0, [Data CRLF, Again])]"
  have l: "leads_to index_env (length [(''Host'', ''a.org:8080'')]) ''a.org'' ''/secret/'' (Some sample_page)"
    using index_env_leads by simp
  have "length (?line @ CRLF @ header_lines ?kvs) \<le> 4000"
    by (simp add: request_line_def target_def header_lines_def header_line_def)
  note a = arrives_Data [OF this] arrives_Data [of CRLF]
  have "may_pause ?line ?kvs (?line @ CRLF @ header_lines ?kvs)"
    unfolding may_pause_def partial_head_def by (intro disjI1 exI [of _ 1] exI [of _ "[]"]) simp
  then have come: "comes_in ?jas ?line ?kvs []" using a unfolding comes_in_def
    by (intro exI [of _ "[?line @ CRLF @ header_lines ?kvs, CRLF]"]) (auto simp: announced_def less_Suc_eq)
  have "\<exists>cl cl' s. handle ?sc = Some cl \<and> run_loop index_env 0 (?jas @ [(0, [])]) cl = Some cl'
    \<and> reachable index_env 0 ?sc cl' \<and> cexit cl'
    \<and> delivers (ekw index_env) (?sc, \<lparr>sent = [], writes = 0\<rparr>)
        (''HTTP/1.1 200 OK'' @ CRLF @ header_lines (file_fields index_env (the (fmime sample_page))) @ CRLF @ s) (csocket cl')
    \<and> unchunk s = Some (take (nat (fsize sample_page)) (fdata sample_page), [])"
    by (rule serve_get [OF _ _ _ _ _ come _ _ _ _ _ _ l, where field = "''a.org:8080''"])
      (simp_all add: create_socket_def resume_socket_def sample_page_def sample_file_def wf_fields_def wf_key_def
        wf_value_def plain_length_def announced_def word_bytes_def
        isspace_def whole_writes_def index_env_def sample_env_def wf_form_def)
  then obtain cl cl' s where w: "handle ?sc = Some cl" "run_loop index_env 0 (?jas @ [(0, [])]) cl = Some cl'" "cexit cl'"
    "delivers (ekw index_env) (?sc, \<lparr>sent = [], writes = 0\<rparr>)
        (''HTTP/1.1 200 OK'' @ CRLF @ header_lines (file_fields index_env (the (fmime sample_page))) @ CRLF @ s) (csocket cl')"
    "unchunk s = Some (take (nat (fsize sample_page)) (fdata sample_page), [])" by blast
  have "complete (ekw index_env)" "\<not> sclosed ?sc" by (simp_all add: index_env_def create_socket_def resume_socket_def)
  from delivers_complete [OF this w(4)] obtain n where "csocket cl' = (?sc, \<lparr>sent = []
    @ ''HTTP/1.1 200 OK'' @ CRLF @ header_lines (file_fields index_env (the (fmime sample_page))) @ CRLF @ s, writes = n\<rparr>)"
    unfolding wire.simps .
  moreover have "take (nat (fsize sample_page)) (fdata sample_page) = ''hello''"
    "file_fields index_env (the (fmime sample_page)) = response_fields @ [(''Content-Type'', ''text/html'')]"
    by (simp_all add: sample_page_def sample_file_def file_fields_def)
  ultimately show ?thesis using w(1-3,5) by (intro exI [of _ cl] exI [of _ cl'] exI [of _ s]) simp
qed

end
