(* ===== verification/Json.thy ===== *)
theory Json
  imports Str_Parse
begin

section \<open>The JSON reader of the pages (lua_json.c)\<close>

text \<open>
  \<open>parse_json_string\<close> walks over a text and calls the Lua interpreter: it makes tables, pushes keys
  and values and stores them.  Its effect is the sequence of these calls; the interpreter is a
  parameter, of which the code asks only the height of its stack (\<open>lua_gettop\<close>), the function \<open>height\<close>
  of the calls made so far.  The two mutually recursive routines for arrays and objects are the two
  modes of one loop, which may not return on arbitrary input and is a partial function.
\<close>

datatype lua_call = New_Table | Push_Str string | Push_Nil | Push_Number int | Set_Table int

type_synonym calls = "lua_call list"

subsection \<open>Classes of bytes\<close>

definition space :: "char \<Rightarrow> bool" where
  "space c \<longleftrightarrow> c = CHR '' '' \<or> c = CR \<or> c = LF \<or> c = CHR 9"

definition bracket :: "char \<Rightarrow> bool" where
  "bracket c \<longleftrightarrow> c = CHR ''{'' \<or> c = CHR ''('' \<or> c = CHR ''['' \<or> c = CHR ''}'' \<or> c = CHR '']'' \<or> c = CHR '')''"

definition digit :: "char \<Rightarrow> bool" where
  "digit c \<longleftrightarrow> schar CHR ''0'' \<le> schar c \<and> schar c \<le> schar CHR ''9''"

definition extension :: "char \<Rightarrow> bool" where
  "extension c \<longleftrightarrow> c = CHR ''-'' \<or> c = CHR ''+'' \<or> c = CHR ''e'' \<or> c = CHR ''E'' \<or> c = CHR ''.''"

definition token_end :: "char \<Rightarrow> bool" where
  "token_end c \<longleftrightarrow> c = DQUOTE \<or> c = CHR '':'' \<or> space c \<or> bracket c \<or> c = CHR '',''"

subsection \<open>Words\<close>

definition str2lua :: "str \<Rightarrow> calls \<Rightarrow> calls option" where
  "str2lua s cs = (case s of None \<Rightarrow> Some (cs @ [Push_Nil])
     | Some v \<Rightarrow> do { x \<leftarrow> fetch_bytes (sdata v) (slen v); Some (cs @ [Push_Str x]) })"

text \<open>The end of the routines below: \<open>i\<close> bytes were read behind \<open>p\<close>, up to a byte that ends the
  word or to the end of the text.\<close>

definition end_word :: "bool \<Rightarrow> int \<Rightarrow> int \<Rightarrow> str_struct \<Rightarrow> calls \<Rightarrow> (str \<times> int \<times> calls) option" where
  "end_word found p i r cs = do {
     cs \<leftarrow> str2lua (if i > 0 then Some r else None) cs;
     Some (if i > 0 \<or> \<not> found then Some r else None, if i > 0 then p + i else p, cs) }"

function word_loop :: "(char \<Rightarrow> bool) \<Rightarrow> str \<Rightarrow> int \<Rightarrow> int \<Rightarrow> str_struct \<Rightarrow> (bool \<times> int \<times> str_struct) option" where
  "word_loop stop s p i r =
     (if i + p < len s
      then do {
        c \<leftarrow> at s (i + p);
        (if stop c then Some (True, i, r)
         else do { d \<leftarrow> poke (sdata r) i c; word_loop stop s p (i + 1) (r\<lparr>sdata := d, slen := i + 1\<rparr>) }) }
      else Some (False, i, r))"
  by pat_completeness auto
termination
  by (relation "measure (\<lambda>(stop, s, p, i, r). nat (len s - (i + p)))") auto

declare word_loop.simps [simp del]

definition token :: "str \<Rightarrow> int \<Rightarrow> calls \<Rightarrow> (str \<times> int \<times> calls) option" where
  "token s p cs = (case blank (len s - p) of None \<Rightarrow> None
     | Some b \<Rightarrow> do { (found, i, r) \<leftarrow> word_loop token_end s p 0 b; end_word found p i r cs })"

text \<open>\<open>number\<close>, which nothing calls.\<close>

definition number :: "str \<Rightarrow> int \<Rightarrow> calls \<Rightarrow> (str \<times> int \<times> calls) option" where
  "number s p cs = (case blank (len s - p) of None \<Rightarrow> None
     | Some b \<Rightarrow> do { (found, i, r) \<leftarrow> word_loop (\<lambda>c. \<not> digit c \<and> \<not> extension c) s p 0 b; end_word found p i r cs })"

text \<open>A backslash is skipped in the text, and in the copy as well: the copy keeps a byte that is
  never written, which \<open>blank\<close> leaves at 0.\<close>

function quoted_loop :: "str \<Rightarrow> int \<Rightarrow> int \<Rightarrow> str_struct \<Rightarrow> (bool \<times> int \<times> str_struct) option" where
  "quoted_loop s p i r =
     (if i + p < len s
      then do {
        c \<leftarrow> at s (p + i);
        (if c = DQUOTE then Some (True, i, r)
         else (let i = (if c = BACKSLASH then i + 1 else i) in
           if i + p < len s
           then do { c \<leftarrow> at s (i + p); d \<leftarrow> poke (sdata r) i c;
                     quoted_loop s p (i + 1) (r\<lparr>sdata := d, slen := i + 1\<rparr>) }
           else quoted_loop s p (i + 1) r)) }
      else Some (False, i, r))"
  by pat_completeness auto
termination
  by (relation "measure (\<lambda>(s, p, i, r). nat (len s - (i + p)))") auto

declare quoted_loop.simps [simp del]

definition quoted_string :: "str \<Rightarrow> int \<Rightarrow> calls \<Rightarrow> (str \<times> int \<times> calls) option" where
  "quoted_string s p cs = (case blank (len s - p) of None \<Rightarrow> None
     | Some b \<Rightarrow> do {
         q \<leftarrow> at s p;
         let p = (if q = DQUOTE then p + 1 else p);
         (found, i, r) \<leftarrow> quoted_loop s p 0 b;
         end_word found p i r cs })"

definition word :: "str \<Rightarrow> int \<Rightarrow> calls \<Rightarrow> (int \<times> calls) option" where
  "word s p cs = do {
     c \<leftarrow> at s p;
     (_, p, cs) \<leftarrow> (if c = DQUOTE then quoted_string s p cs else token s p cs);
     Some (p, cs) }"

subsection \<open>Arrays and objects\<close>

definition closing :: "bool \<Rightarrow> char" where
  "closing arr = (if arr then CHR '']'' else CHR ''}'')"

text \<open>What comes before a value: its number in an array, its key in an object.\<close>

definition before_value :: "str \<Rightarrow> bool \<Rightarrow> int \<Rightarrow> int \<Rightarrow> calls \<Rightarrow> (int \<times> calls) option" where
  "before_value s arr p j cs =
     (if arr then Some (p, cs @ [Push_Number (j + 1)])
      else do {
        (q, cs) \<leftarrow> word s p cs;
        q \<leftarrow> scan_to (\<lambda>c. c \<noteq> CHR '':'') (at s) q (len s);
        q \<leftarrow> scan_to space (at s) (q + 1) (len s);
        Some (q, cs) })"

text \<open>The loop of \<open>parse_array\<close> (\<open>arr\<close>) and \<open>parse_json_object\<close>: \<open>p\<close> is the position in the text,
  \<open>j\<close> the number of elements so far and \<open>n\<close> the place of the table on the stack.\<close>

partial_function (option) json_loop :: "(calls \<Rightarrow> int) \<Rightarrow> str \<Rightarrow> bool \<Rightarrow> int \<Rightarrow> int \<Rightarrow> int \<Rightarrow> calls
    \<Rightarrow> (int \<times> calls) option" where
  "json_loop height s arr p j n cs =
     (if p < len s
      then do {
        c \<leftarrow> at s p;
        (if space c then json_loop height s arr (p + 1) j n cs
         else if c = closing arr then Some (p + 1, cs)
         else do {
           (q, cs) \<leftarrow> before_value s arr p j cs;
           b \<leftarrow> at s q;
           (q, cs) \<leftarrow> (if bracket b
              then json_loop height s (b = CHR ''['') (q + 1) 0 (height (cs @ [New_Table])) (cs @ [New_Table])
              else word s q cs);
           q \<leftarrow> scan_to (\<lambda>c. c \<noteq> closing arr \<and> c \<noteq> CHR '','') (at s) q (len s);
           e \<leftarrow> at s q;
           (if e = closing arr then Some (q + 1, cs @ [Set_Table n])
            else json_loop height s arr (q + 1) (j + 1) n (cs @ [Set_Table n])) }) }
      else Some (p, cs))"

definition parse_json_object :: "(calls \<Rightarrow> int) \<Rightarrow> str \<Rightarrow> int \<Rightarrow> calls \<Rightarrow> (str \<times> int \<times> calls) option" where
  "parse_json_object height s p cs = do {
     b \<leftarrow> at s p;
     (q, cs) \<leftarrow> json_loop height s (b = CHR ''['') (p + 1) 0 (height (cs @ [New_Table])) (cs @ [New_Table]);
     r \<leftarrow> from_str s p (q - p);
     Some (r, q, cs) }"

definition parse_json_string :: "(calls \<Rightarrow> int) \<Rightarrow> str \<Rightarrow> calls \<Rightarrow> (str \<times> calls) option" where
  "parse_json_string height s cs = do {
     p \<leftarrow> scan_to (\<lambda>c. space c \<or> \<not> bracket c) (at s) 0 (len s);
     (if p < len s then do { (r, q, cs) \<leftarrow> parse_json_object height s p cs; Some (r, cs) }
      else Some (None, cs)) }"

end
