(* ===== verification/Database.thy ===== *)
theory Database
  imports Headers
begin

section \<open>The database (database.c, database.h, lua_db.c)\<close>

text \<open>
  The program talks to PostgreSQL through libpq.  What libpq answers is the record \<open>libpq\<close>, an
  oracle over a state \<open>'d\<close> of its own (the server and the connection) and an opaque type \<open>'r\<close>
  of results; the C strings it returns are given by their bytes before the NUL, and a NULL
  pointer by \<open>None\<close>.  The program's own state is \<open>pgstate\<close>: the global \<open>db\<close>, and whether
  \<open>lins_database\<close> is set, which then points to the same structure, because a page calls
  \<open>new_database\<close> only to set it.
\<close>

datatype exec_status = PGRES_EMPTY_QUERY | PGRES_COMMAND_OK | PGRES_TUPLES_OK
  | PGRES_BAD_RESPONSE | PGRES_NONFATAL_ERROR | PGRES_FATAL_ERROR | PGRES_OTHER

record ('d, 'r) libpq =
  PQconnectdb :: "'d \<Rightarrow> string \<Rightarrow> bool \<times> 'd"
  PQexec :: "'d \<Rightarrow> string \<Rightarrow> 'r option \<times> 'd"
  PQstatus_of :: "'r \<Rightarrow> exec_status"
  PQntuples :: "'r \<Rightarrow> int"
  PQnfields :: "'r \<Rightarrow> int"
  PQfname :: "'r \<Rightarrow> int \<Rightarrow> string option"
  PQgetvalue :: "'r \<Rightarrow> int \<Rightarrow> int \<Rightarrow> string option"
  PQmessage_of :: "'r \<Rightarrow> string"
  PQescapeStringConn :: "'d \<Rightarrow> string \<Rightarrow> string \<times> bool"

abbreviation SQUOTE :: char where "SQUOTE \<equiv> CHR 0x27"

text \<open>A NULL result is a fatal error without a message.\<close>

definition PQresultStatus :: "('d, 'r) libpq \<Rightarrow> 'r option \<Rightarrow> exec_status" where
  "PQresultStatus pq r = (case r of None \<Rightarrow> PGRES_FATAL_ERROR | Some x \<Rightarrow> PQstatus_of pq x)"

definition PQresultErrorMessage :: "('d, 'r) libpq \<Rightarrow> 'r option \<Rightarrow> string" where
  "PQresultErrorMessage pq r = (case r of None \<Rightarrow> [] | Some x \<Rightarrow> PQmessage_of pq x)"

record 'r database =
  is_open :: bool
  res :: "'r option"

record ('d, 'r) pgstate =
  db :: "'r database option"
  lins_database :: bool
  pgworld :: 'd

definition dblog :: "string \<Rightarrow> fmt_arg list \<Rightarrow> unit option" where
  "dblog = log_msg 1"

definition DB_CONNECT_STRING :: string where
  "DB_CONNECT_STRING = ''dbname=jawas user=jawas''"

text \<open>A C string of libpq as a \<open>str\<close>: \<^verbatim>\<open>_("%c", p)\<close>.\<close>

definition chars_str :: "string option \<Rightarrow> str option" where
  "chars_str p = (case p of None \<Rightarrow> None | Some x \<Rightarrow> fmt ''%c'' [AChars (x @ [NUL])])"

subsection \<open>database.c\<close>

definition reset :: "('d, 'r) pgstate \<Rightarrow> ('d, 'r) pgstate option" where
  "reset st = (case db st of None \<Rightarrow> None | Some d \<Rightarrow> Some (st\<lparr>db := Some (d\<lparr>res := None\<rparr>)\<rparr>))"

definition set_database :: "'r database \<Rightarrow> ('d, 'r) pgstate \<Rightarrow> ('d, 'r) pgstate" where
  "set_database d st = st\<lparr>db := Some d\<rparr>"

definition new_database :: "('d, 'r) libpq \<Rightarrow> ('d, 'r) pgstate \<Rightarrow> ('d, 'r) pgstate option" where
  "new_database pq st = do {
     _ \<leftarrow> debug_log DB_CONNECT_STRING [];
     let (ok, w) = PQconnectdb pq (pgworld st) DB_CONNECT_STRING;
     _ \<leftarrow> (if \<not> ok then dblog ''Failed to connect to database %c'' [AChars (DB_CONNECT_STRING @ [NUL])] else Some ());
     Some (set_database \<lparr>is_open = True, res = None\<rparr> (st\<lparr>pgworld := w\<rparr>)) }"

text \<open>\<open>close_database\<close> on the structure that \<open>db\<close> points to, which all of its callers pass.\<close>

definition close_database :: "('d, 'r) pgstate \<Rightarrow> ('d, 'r) pgstate option" where
  "close_database st = (case db st of None \<Rightarrow> None
     | Some d \<Rightarrow> Some (st\<lparr>db := Some \<lparr>is_open = False, res = None\<rparr>\<rparr>))"

text \<open>\<open>PQexec\<close> gets a copy of the query with a NUL behind it, so the query ends at its first NUL.
  On a closed connection it answers NULL.\<close>

definition query_switch :: "('d, 'r) libpq \<Rightarrow> str \<Rightarrow> 'r database \<Rightarrow> 'r option \<Rightarrow> ('d, 'r) pgstate
    \<Rightarrow> (int \<times> ('d, 'r) pgstate) option" where
  "query_switch pq q d r st = (case PQresultStatus pq r of
     PGRES_EMPTY_QUERY \<Rightarrow> Some (0, st\<lparr>db := Some (d\<lparr>res := None\<rparr>)\<rparr>)
   | PGRES_COMMAND_OK \<Rightarrow> Some (0, st\<lparr>db := Some (d\<lparr>res := None\<rparr>)\<rparr>)
   | PGRES_TUPLES_OK \<Rightarrow> do { t \<leftarrow> r; Some (PQntuples pq t, st\<lparr>db := Some (d\<lparr>res := r\<rparr>)\<rparr>) }
   | _ \<Rightarrow> do {
       _ \<leftarrow> dblog ''%s failed %c'' [AStr q, AChars (PQresultErrorMessage pq r @ [NUL])];
       Some (- 1, st\<lparr>db := Some (d\<lparr>res := None\<rparr>)\<rparr>) })"

definition query :: "('d, 'r) libpq \<Rightarrow> str \<Rightarrow> ('d, 'r) pgstate \<Rightarrow> (int \<times> ('d, 'r) pgstate) option" where
  "query pq q st = do {
     d \<leftarrow> db st;
     st \<leftarrow> (if res d \<noteq> None then reset st else Some st);
     _ \<leftarrow> dblog ''%s'' [AStr q];
     v \<leftarrow> q;
     x \<leftarrow> fetch_bytes (sdata v) (slen v);
     sql \<leftarrow> cstr (x @ [NUL]);
     let (r, w) = (if is_open d then PQexec pq (pgworld st) sql else (None, pgworld st));
     query_switch pq q d r (st\<lparr>pgworld := w\<rparr>) }"

definition fields :: "('d, 'r) libpq \<Rightarrow> ('d, 'r) pgstate \<Rightarrow> int option" where
  "fields pq st = (case db st of None \<Rightarrow> None
     | Some d \<Rightarrow> (case res d of None \<Rightarrow> Some 0 | Some r \<Rightarrow> Some (PQnfields pq r)))"

definition field :: "('d, 'r) libpq \<Rightarrow> int \<Rightarrow> ('d, 'r) pgstate \<Rightarrow> str option" where
  "field pq i st = (case db st of None \<Rightarrow> None
     | Some d \<Rightarrow> (case res d of None \<Rightarrow> Some None | Some r \<Rightarrow> chars_str (PQfname pq r i)))"

definition db_error :: "('d, 'r) libpq \<Rightarrow> ('d, 'r) pgstate \<Rightarrow> str option" where
  "db_error pq st = (case db st of None \<Rightarrow> None
     | Some d \<Rightarrow> (case res d of None \<Rightarrow> Some None | Some r \<Rightarrow> chars_str (Some (PQmessage_of pq r))))"

definition fetch :: "('d, 'r) libpq \<Rightarrow> int \<Rightarrow> int \<Rightarrow> ('d, 'r) pgstate \<Rightarrow> str option" where
  "fetch pq row col st = (case db st of None \<Rightarrow> None
     | Some d \<Rightarrow> (case res d of None \<Rightarrow> Some None | Some r \<Rightarrow> chars_str (PQgetvalue pq r row col)))"

text \<open>\<open>singlequote\<close>: the buffer has twice the length of the string.  libpq also writes a NUL behind
  its text; when the text fills the buffer, that byte falls into memory that is not reserved
  yet and is zero already.  A longer text would overwrite what follows and has no result here.\<close>

definition singlequote :: "('d, 'r) libpq \<Rightarrow> str \<Rightarrow> ('d, 'r) pgstate \<Rightarrow> str option" where
  "singlequote pq s st = (if len s = 0 then Some s
     else do {
       d \<leftarrow> db st;
       v \<leftarrow> s;
       x \<leftarrow> fetch_bytes (sdata v) (slen v);
       let (y, err) = PQescapeStringConn pq (pgworld st) x;
       _ \<leftarrow> (if err then dblog ''Failed to escape string %s'' [AStr s] else Some ());
       (if int (length y) \<le> 2 * slen v
        then Some (view y (replicate (nat (2 * slen v) - length y) NUL)) else None) })"

subsection \<open>Stored procedures (lua_db.c)\<close>

text \<open>The names in the first column, up to \<open>MAX_HEADERS\<close> of them, with the beginnings of their
  calls.\<close>

function proc_loop :: "('d, 'r) libpq \<Rightarrow> ('d, 'r) pgstate \<Rightarrow> int \<Rightarrow> int \<Rightarrow> headers \<Rightarrow> headers option" where
  "proc_loop pq st n i procs =
     (if i < n \<and> i < MAX_HEADERS
      then do {
        p \<leftarrow> fetch pq i 0 st;
        base \<leftarrow> fmt ''SELECT * FROM %s('' [AStr p];
        procs \<leftarrow> append_header procs p base;
        proc_loop pq st n (i + 1) procs }
      else Some procs)"
  by pat_completeness auto
termination
  by (relation "measure (\<lambda>(pq, st, n, i, procs). nat (n - i))") auto

declare proc_loop.simps [simp del]

definition PrepareProcedures :: "('d, 'r) libpq \<Rightarrow> string \<Rightarrow> ('d, 'r) pgstate \<Rightarrow> headers
    \<Rightarrow> (int \<times> headers \<times> ('d, 'r) pgstate) option" where
  "PrepareProcedures pq schema st procs = do {
     st \<leftarrow> new_database pq st;
     sql \<leftarrow> fmt (''SELECT * from functions_in('' @ [SQUOTE] @ ''%c'' @ [SQUOTE] @ '');'') [AChars (schema @ [NUL])];
     (n, st) \<leftarrow> query pq sql st;
     (if n < 0 then do {
        e \<leftarrow> db_error pq st;
        _ \<leftarrow> dblog ''%s'' [AStr e];
        st \<leftarrow> close_database st;
        Some (1, procs, st) }
      else do {
        procs \<leftarrow> proc_loop pq st n 0 new_headers;
        st \<leftarrow> close_database st;
        Some (0, procs, st) }) }"

subsection \<open>What the server is asked, and what is left of its answer\<close>

lemma bind_view [simp]: "Option.bind (view xs ys) f = f \<lparr>slen = int (length xs), sdata = xs @ ys\<rparr>"
  by (simp add: view_def)

lemma dblog_str [simp]: "dblog ''%s'' [AStr (view xs ys)] = Some ()"
  by (simp add: dblog_def new_str_def)

lemma dblog_failed [simp]:
  "NUL \<notin> set m \<Longrightarrow> dblog ''%s failed %c'' [AStr (view xs ys), AChars (m @ [NUL])] = Some ()"
  by (simp add: dblog_def new_str_def)

lemma dblog_NULL: "dblog ''%s'' [AStr None] = None"
  by (simp add: dblog_def new_str_def)

definition good_status :: "exec_status \<Rightarrow> bool" where
  "good_status s \<longleftrightarrow> s = PGRES_EMPTY_QUERY \<or> s = PGRES_COMMAND_OK \<or> s = PGRES_TUPLES_OK"

text \<open>The text that reaches the server.\<close>

definition sent_sql :: "string \<Rightarrow> string" where
  "sent_sql xs = takeWhile (\<lambda>c. c \<noteq> NUL) xs"

lemma sent_sql_plain [simp]: "NUL \<notin> set xs \<Longrightarrow> sent_sql xs = xs"
  by (auto simp: sent_sql_def)

lemma cstr_sent: "cstr (xs @ [NUL]) = Some (sent_sql xs)"
proof (cases "NUL \<in> set xs")
  case True
  then have "takeWhile (\<lambda>c. c \<noteq> NUL) (xs @ [NUL]) = takeWhile (\<lambda>c. c \<noteq> NUL) xs" by (intro takeWhile_append1) auto
  then show ?thesis by (simp add: cstr_def sent_sql_def)
qed simp

lemma reset_if:
  assumes "db st = Some d"
  shows "(if res d \<noteq> None then reset st else Some st) = Some (st\<lparr>db := Some (d\<lparr>res := None\<rparr>)\<rparr>)"
proof (cases "res d")
  case None
  then have "d\<lparr>res := None\<rparr> = d\<lparr>res := res d\<rparr>" by (simp only:)
  then have "st\<lparr>db := Some (d\<lparr>res := None\<rparr>)\<rparr> = st\<lparr>db := db st\<rparr>" by (simp add: assms)
  with None show ?thesis by simp
qed (use assms in \<open>simp add: reset_def\<close>)

text \<open>What the switch leaves in \<open>res\<close>, and a connected \<open>query\<close> in one equation.\<close>

lemma query_switch_eq:
  assumes "NUL \<notin> set (PQresultErrorMessage pq r)"
  shows "query_switch pq (view xs ys) d r st =
    Some (if PQresultStatus pq r = PGRES_TUPLES_OK then PQntuples pq (the r)
          else if good_status (PQresultStatus pq r) then 0 else - 1,
          st\<lparr>db := Some (d\<lparr>res := (if PQresultStatus pq r = PGRES_TUPLES_OK then r else None)\<rparr>)\<rparr>)"
proof -
  have "PQresultStatus pq r = PGRES_TUPLES_OK \<Longrightarrow> \<exists>t. r = Some t"
    by (cases r) (simp_all add: PQresultStatus_def)
  then show ?thesis
    using assms by (auto simp: query_switch_def good_status_def split: exec_status.split)
qed

lemma query_eq:
  assumes "db st = Some d" "is_open d" "PQexec pq (pgworld st) (sent_sql xs) = (r, w)"
    "NUL \<notin> set (PQresultErrorMessage pq r)"
  shows "query pq (view xs ys) st =
    Some (if PQresultStatus pq r = PGRES_TUPLES_OK then PQntuples pq (the r)
          else if good_status (PQresultStatus pq r) then 0 else - 1,
          st\<lparr>pgworld := w,
            db := Some (d\<lparr>res := (if PQresultStatus pq r = PGRES_TUPLES_OK then r else None)\<rparr>)\<rparr>)"
  unfolding query_def assms(1) bind.bind_lunit reset_if [OF assms(1)]
  using assms(2,3) by (simp add: cstr_sent query_switch_eq [OF assms(4)])

text \<open>After a failure there is no result left to ask for the reason.\<close>

lemma query_switch_failed:
  "query_switch pq q d r st = Some (n, st') \<Longrightarrow> n < 0 \<Longrightarrow> \<forall>t. 0 \<le> PQntuples pq t \<Longrightarrow> db_error pq st' = Some None"
  by (auto simp: query_switch_def bind_Some_iff db_error_def not_less [symmetric] split: exec_status.splits)

lemma query_failed:
  "query pq q st = Some (n, st') \<Longrightarrow> n < 0 \<Longrightarrow> \<forall>t. 0 \<le> PQntuples pq t \<Longrightarrow> db_error pq st' = Some None"
  unfolding query_def by (auto simp: bind_Some_iff Let_def case_prod_beta dest: query_switch_failed)

end
