(* ===== verification/Lua_Api.thy ===== *)
theory Lua_Api
  imports Client Json Auth Database
begin

section \<open>What a page can call (lws.c, lua_db.c)\<close>

text \<open>
  The C functions that \<open>init_lua\<close> registers in the interpreter of a page.  A function finds its
  arguments on the stack, of which it sees the values \<open>args\<close>, and answers how many results it
  leaves there; the calls it makes to push them are the list of \<open>lua_call\<close> of the JSON reader.  A
  Lua value is seen only through \<open>lua_tostring\<close>, \<open>lua_toboolean\<close> and \<open>lua_topointer\<close>, so a number
  is given by the text that \<open>lua_tostring\<close> makes of it and any other value by its address.
\<close>

datatype lua_val = LNil | LBoolean bool | LNumber string | LString string | LPointer reg

text \<open>An index above the top of the stack is answered like nil.\<close>

definition lua_arg :: "lua_val list \<Rightarrow> int \<Rightarrow> lua_val" where
  "lua_arg args i = (if 1 \<le> i \<and> i \<le> int (length args) then args ! nat (i - 1) else LNil)"

text \<open>\<open>lua_isstring\<close> holds of numbers as well, so the branch for numbers is never taken; the
  address of nil is NULL.\<close>

definition lua2str :: "lua_val \<Rightarrow> str option" where
  "lua2str v = (case v of
     LString s \<Rightarrow> Some (ref (s @ [NUL]) (int (length s)))
   | LNumber s \<Rightarrow> Some (ref (s @ [NUL]) (int (length s)))
   | LBoolean b \<Rightarrow> (if b then fmt ''true'' [] else fmt ''false'' [])
   | LNil \<Rightarrow> fmt ''%p'' [AReg 0]
   | LPointer p \<Rightarrow> fmt ''%p'' [AReg p])"

subsection \<open>Output and messages\<close>

fun print_loop :: "env \<Rightarrow> lua_val list \<Rightarrow> client \<Rightarrow> client option" where
  "print_loop e [] cl = Some cl"
| "print_loop e (v # vs) cl = do {
     out \<leftarrow> lua2str v;
     (_, s) \<leftarrow> write_chunked_socket (ekw e) out (Some (csocket cl));
     c \<leftarrow> s;
     print_loop e vs (cl\<lparr>csocket := c\<rparr>) }"

definition PrintLua :: "env \<Rightarrow> lua_val list \<Rightarrow> client \<Rightarrow> (int \<times> client) option" where
  "PrintLua e args cl = do { cl \<leftarrow> print_loop e args cl; Some (0, cl) }"

fun log_loop :: "(string \<Rightarrow> fmt_arg list \<Rightarrow> unit option) \<Rightarrow> lua_val list \<Rightarrow> unit option" where
  "log_loop lg [] = Some ()"
| "log_loop lg (v # vs) = do { s \<leftarrow> lua2str v; _ \<leftarrow> lg ''%s'' [AStr s]; log_loop lg vs }"

definition DebugLua :: "lua_val list \<Rightarrow> int option" where
  "DebugLua args = do { _ \<leftarrow> log_loop debug_log args; Some 0 }"

definition ErrorLua :: "lua_val list \<Rightarrow> int option" where
  "ErrorLua args = do { _ \<leftarrow> log_loop error_log args; Some 0 }"

text \<open>\<open>exit\<close> jumps back to \<open>run_lua_script\<close>, which goes on behind the page.\<close>

definition ExitLua :: "client \<Rightarrow> outcome \<times> client" where
  "ExitLua cl = (Jumped, cl)"

text \<open>The page of another file, from the cache.\<close>

definition IncludeLua :: "env \<Rightarrow> lua_val list \<Rightarrow> client \<Rightarrow> (int \<times> client) option" where
  "IncludeLua e args cl = do {
     a \<leftarrow> lua2str (lua_arg args 1);
     p \<leftarrow> fmt ''/%s'' [AStr a];
     filename \<leftarrow> file_path (ecwd e) (qhost (crequest cl)) p;
     fc \<leftarrow> load (efiles e) filename;
     (case fc of
        None \<Rightarrow> do { _ \<leftarrow> error_log ''Failed to open file %s'' [AStr filename]; Some (0, cl) }
      | Some f \<Rightarrow> do { cl \<leftarrow> EvalLuaFile e f cl; Some (0, cl) }) }"

subsection \<open>The request\<close>

definition CWDLua :: "client \<Rightarrow> calls \<Rightarrow> (int \<times> calls) option" where
  "CWDLua cl cs = do { cs \<leftarrow> str2lua (qpath (crequest cl)) cs; Some (1, cs) }"

definition HeaderLua :: "lua_val list \<Rightarrow> client \<Rightarrow> calls \<Rightarrow> (int \<times> calls) option" where
  "HeaderLua args cl cs = do {
     s \<leftarrow> lua2str (lua_arg args 1);
     v \<leftarrow> find_header (qheaders (crequest cl)) s;
     cs \<leftarrow> str2lua v cs;
     Some (1, cs) }"

definition ParamLua :: "lua_val list \<Rightarrow> client \<Rightarrow> calls \<Rightarrow> (int \<times> calls) option" where
  "ParamLua args cl cs = do {
     s \<leftarrow> lua2str (lua_arg args 1);
     v \<leftarrow> find_header (qvars (crequest cl)) s;
     cs \<leftarrow> str2lua v cs;
     Some (1, cs) }"

definition NowLua :: "reg \<Rightarrow> calls \<Rightarrow> (int \<times> calls) option" where
  "NowLua now cs = do { t \<leftarrow> fmt ''%i'' [AReg now]; cs \<leftarrow> str2lua t cs; Some (1, cs) }"

subsection \<open>Encodings\<close>

text \<open>The functions of one string argument and one string result.\<close>

definition string_function :: "(str \<Rightarrow> str option) \<Rightarrow> lua_val list \<Rightarrow> calls \<Rightarrow> (int \<times> calls) option" where
  "string_function f args cs = do {
     s \<leftarrow> lua2str (lua_arg args 1);
     r \<leftarrow> f s;
     cs \<leftarrow> str2lua r cs;
     Some (1, cs) }"

definition EncodeLua :: "lua_val list \<Rightarrow> calls \<Rightarrow> (int \<times> calls) option" where
  "EncodeLua = string_function uri_encode"

definition DecodeLua :: "lua_val list \<Rightarrow> calls \<Rightarrow> (int \<times> calls) option" where
  "DecodeLua = string_function uri_decode"

definition HexLua :: "lua_val list \<Rightarrow> calls \<Rightarrow> (int \<times> calls) option" where
  "HexLua = string_function hex"

definition MD5SumLua :: "(string \<Rightarrow> string) \<Rightarrow> lua_val list \<Rightarrow> calls \<Rightarrow> (int \<times> calls) option" where
  "MD5SumLua MD5 = string_function (\<lambda>s. case s of None \<Rightarrow> None | Some v \<Rightarrow> md5sum MD5 (sdata v) (slen v))"

definition Base64Lua :: "(string \<Rightarrow> string option) \<Rightarrow> lua_val list \<Rightarrow> calls \<Rightarrow> (int \<times> calls) option" where
  "Base64Lua BIO = string_function (base64 BIO)"

definition Hmac1Lua :: "(string \<Rightarrow> string \<Rightarrow> string) \<Rightarrow> lua_val list \<Rightarrow> calls \<Rightarrow> (int \<times> calls) option" where
  "Hmac1Lua HMAC args cs = do {
     secret \<leftarrow> lua2str (lua_arg args 1);
     data \<leftarrow> lua2str (lua_arg args 2);
     r \<leftarrow> hmac1 HMAC secret data;
     cs \<leftarrow> str2lua r cs;
     Some (1, cs) }"

text \<open>Twelve bytes of \<open>/dev/random\<close>; a failed or short read leaves zeros in the buffer, and the
  failed one is only reported.\<close>

definition RandomLua :: "string option \<Rightarrow> calls \<Rightarrow> (int \<times> calls) option" where
  "RandomLua got cs = do {
     data \<leftarrow> (case got of
        None \<Rightarrow> do { _ \<leftarrow> error_log ''Failed to read from /dev/random'' []; Some (blank 12) }
      | Some xs \<Rightarrow> (if length xs \<le> 12 then Some (view (xs @ replicate (12 - length xs) NUL) []) else None));
     r \<leftarrow> hex data;
     cs \<leftarrow> str2lua r cs;
     Some (1, cs) }"

text \<open>The text that the reader returns is printed, and is NULL when there is no bracket.\<close>

definition JSONLua :: "(calls \<Rightarrow> int) \<Rightarrow> lua_val list \<Rightarrow> calls \<Rightarrow> (int \<times> calls) option" where
  "JSONLua height args cs = do {
     json \<leftarrow> lua2str (lua_arg args 1);
     _ \<leftarrow> debug_log ''[LUA JSON] [%s]'' [AStr json];
     (r, cs) \<leftarrow> parse_json_string height json cs;
     _ \<leftarrow> debug_log ''Parsed json %s'' [AStr r];
     Some (1, cs) }"

subsection \<open>Queries\<close>

text \<open>The first query of a page opens the connection.\<close>

definition open_lins_database :: "('d, 'r) libpq \<Rightarrow> ('d, 'r) pgstate \<Rightarrow> ('d, 'r) pgstate option" where
  "open_lins_database pq st =
     (if lins_database st then Some st
      else do { st \<leftarrow> new_database pq st; Some (st\<lparr>lins_database := True\<rparr>) })"

text \<open>One row of a result as the table at the place \<open>k\<close> of the stack, and all rows as the table
  at the place \<open>n\<close>.\<close>

function row_loop :: "('d, 'r) libpq \<Rightarrow> ('d, 'r) pgstate \<Rightarrow> int \<Rightarrow> int \<Rightarrow> int \<Rightarrow> int \<Rightarrow> calls \<Rightarrow> calls option" where
  "row_loop pq st i m j k cs =
     (if j < m
      then do {
        f \<leftarrow> field pq j st;
        cs \<leftarrow> str2lua f cs;
        v \<leftarrow> fetch pq i j st;
        cs \<leftarrow> str2lua v cs;
        row_loop pq st i m (j + 1) k (cs @ [Set_Table k]) }
      else Some cs)"
  by pat_completeness auto
termination
  by (relation "measure (\<lambda>(pq, st, i, m, j, k, cs). nat (m - j))") auto

declare row_loop.simps [simp del]

function rows_loop :: "('d, 'r) libpq \<Rightarrow> ('d, 'r) pgstate \<Rightarrow> int \<Rightarrow> int \<Rightarrow> int \<Rightarrow> calls \<Rightarrow> calls option" where
  "rows_loop pq st i n k cs =
     (if i < n
      then do {
        m \<leftarrow> fields pq st;
        cs \<leftarrow> row_loop pq st i m 0 (k + 2) (cs @ [Push_Number (i + 1), New_Table]);
        rows_loop pq st (i + 1) n k (cs @ [Set_Table k]) }
      else Some cs)"
  by pat_completeness auto
termination
  by (relation "measure (\<lambda>(pq, st, i, n, k, cs). nat (n - i))") auto

declare rows_loop.simps [simp del]

text \<open>The end of \<open>QueryLua\<close> and of \<open>DBClosureLua\<close>: the query is sent, and its rows or what
  \<open>db_error\<close> answers is the result.\<close>

definition push_query :: "('d, 'r) libpq \<Rightarrow> (calls \<Rightarrow> int) \<Rightarrow> str \<Rightarrow> ('d, 'r) pgstate \<Rightarrow> calls
    \<Rightarrow> (int \<times> ('d, 'r) pgstate \<times> calls) option" where
  "push_query pq height qry st cs = do {
     (n, st) \<leftarrow> query pq qry st;
     (if n < 0 then do {
        e \<leftarrow> db_error pq st;
        cs \<leftarrow> str2lua e cs;
        Some (1, st, cs) }
      else do {
        cs \<leftarrow> rows_loop pq st 0 n (height (cs @ [New_Table])) (cs @ [New_Table]);
        Some (1, st, cs) }) }"

text \<open>The loop over the placeholders: \<open>i\<close> is the position in the query, \<open>j\<close> the number of the last
  argument used, \<open>off\<close> the end of what has been copied to \<open>qry\<close>.  It starts at the second byte.\<close>

function query_loop :: "('d, 'r) libpq \<Rightarrow> ('d, 'r) pgstate \<Rightarrow> lua_val list \<Rightarrow> str \<Rightarrow> int \<Rightarrow> int \<Rightarrow> int \<Rightarrow> str
    \<Rightarrow> (int \<times> str) option" where
  "query_loop pq st args qstr i j off qry =
     (if i < len qstr \<and> j \<le> int (length args)
      then do {
        c \<leftarrow> at qstr i;
        (if c = CHR ''?''
         then do {
           val \<leftarrow> lua2str (lua_arg args (j + 1));
           val \<leftarrow> singlequote pq val st;
           pre \<leftarrow> from_str qstr off (i - off);
           x \<leftarrow> append_str pre val;
           qry \<leftarrow> append_str qry x;
           query_loop pq st args qstr (i + 1) (j + 1) (i + 1) qry }
         else query_loop pq st args qstr (i + 1) j off qry) }
      else Some (off, qry))"
  by pat_completeness auto
termination
  by (relation "measure (\<lambda>(pq, st, args, qstr, i, j, off, qry). nat (len qstr - i))") auto

declare query_loop.simps [simp del]

text \<open>The last piece is reserved right behind what has been built so far; before each of the others the
  loop reserves the value or its \<open>str\<close>.\<close>

definition query_text :: "('d, 'r) libpq \<Rightarrow> ('d, 'r) pgstate \<Rightarrow> lua_val list \<Rightarrow> str option" where
  "query_text pq st args = do {
     qstr \<leftarrow> lua2str (lua_arg args 1);
     (off, qry) \<leftarrow> query_loop pq st args qstr 1 1 0 None;
     rest \<leftarrow> from_str qstr off (len qstr - off);
     append_in True qry rest }"

definition QueryLua :: "('d, 'r) libpq \<Rightarrow> (calls \<Rightarrow> int) \<Rightarrow> lua_val list \<Rightarrow> ('d, 'r) pgstate \<Rightarrow> calls
    \<Rightarrow> (int \<times> ('d, 'r) pgstate \<times> calls) option" where
  "QueryLua pq height args st cs = do {
     st \<leftarrow> open_lins_database pq st;
     qry \<leftarrow> query_text pq st args;
     push_query pq height qry st cs }"

text \<open>A stored procedure as a Lua function: its upvalue is the beginning of the call, and the
  arguments are put between quotes as they are.\<close>

fun closure_loop :: "lua_val list \<Rightarrow> str \<Rightarrow> str option" where
  "closure_loop [] qry = Some qry"
| "closure_loop (v # vs) qry = do {
     s \<leftarrow> lua2str v;
     sep \<leftarrow> (if vs \<noteq> [] then fmt '','' [] else fmt [] []);
     a \<leftarrow> fmt ([SQUOTE] @ ''%s'' @ [SQUOTE] @ ''%s'') [AStr s, AStr sep];
     qry \<leftarrow> append_str qry a;
     closure_loop vs qry }"

text \<open>The bracket is reserved right behind the last argument.\<close>

definition closure_text :: "lua_val \<Rightarrow> lua_val list \<Rightarrow> str option" where
  "closure_text upvalue args = do {
     qry \<leftarrow> lua2str upvalue;
     qry \<leftarrow> closure_loop args qry;
     e \<leftarrow> fmt '')'' [];
     append_in (args \<noteq> []) qry e }"

definition DBClosureLua :: "('d, 'r) libpq \<Rightarrow> (calls \<Rightarrow> int) \<Rightarrow> lua_val \<Rightarrow> lua_val list \<Rightarrow> ('d, 'r) pgstate \<Rightarrow> calls
    \<Rightarrow> (int \<times> ('d, 'r) pgstate \<times> calls) option" where
  "DBClosureLua pq height upvalue args st cs = do {
     st \<leftarrow> open_lins_database pq st;
     qry \<leftarrow> closure_text upvalue args;
     push_query pq height qry st cs }"

text \<open>\<open>ProceduresLua\<close> binds each name to a closure over the beginning of its call: the bindings it
  makes, in order, and \<open>end_lua\<close> closes the connection of the page.\<close>

definition ProceduresLua :: "headers \<Rightarrow> (string \<times> string) list option" where
  "ProceduresLua procs = (case procs of None \<Rightarrow> None
     | Some h \<Rightarrow> those (map (\<lambda>s. do {
         k \<leftarrow> hkey s; v \<leftarrow> hvalue s;
         x \<leftarrow> fetch_bytes (sdata k) (slen k); y \<leftarrow> fetch_bytes (sdata v) (slen v);
         Some (x, y) }) (live_slots h)))"

definition end_lua :: "('d, 'r) pgstate \<Rightarrow> ('d, 'r) pgstate option" where
  "end_lua st = (if lins_database st then close_database st else Some st)"

end
