(* ===== verification/Lua_Query.thy ===== *)
theory Lua_Query
  imports Lua_Api
begin

section \<open>The queries of a page\<close>

text \<open>
  What text \<open>QueryLua\<close> and a stored procedure send to the server.  The placeholders of a query are
  replaced by the escaped values, which the server reads back as they were; the arguments of a
  procedure are not escaped, and the server cannot tell one argument from two.
\<close>

subsection \<open>Values as strings\<close>

text \<open>The bytes that \<open>lua2str\<close> makes of a value.\<close>

definition lua_text :: "lua_val \<Rightarrow> string" where
  "lua_text v = (case v of
     LString s \<Rightarrow> s | LNumber s \<Rightarrow> s | LBoolean b \<Rightarrow> (if b then ''true'' else ''false'')
   | LNil \<Rightarrow> ''0'' | LPointer p \<Rightarrow> chars_of (hex_str p))"

lemma hex_str_0: "chars_of (hex_str 0) = ''0''"
proof -
  have "char_of_int 48 = CHR ''0''"
    by (rule byte_eqI) (simp only: byte_char_of_int, simp add: byte_def)
  then show ?thesis using hex_one [of 0] by (simp add: hex_digit_def between_def)
qed

lemma lua2str_eq [simp]: "lua2str v = Some (lit (lua_text v))"
  by (cases v) (simp_all add: lua2str_def lua_text_def fmt_plain fmt_def new_str_def hex_str_0)

lemma lua_text_LString [simp]: "lua_text (LString s) = s"
  by (simp add: lua_text_def)

lemma lua_text_LNil [simp]: "lua_text LNil = ''0''"
  by (simp add: lua_text_def)

lemma lua_arg_1 [simp]: "lua_arg (v # vs) 1 = v"
  by (simp add: lua_arg_def)

text \<open>The value behind the last argument is nil.\<close>

lemma lua_arg_drop:
  assumes "1 \<le> j" "j \<le> int (length args)"
  shows "drop (nat j) (args @ [LNil]) = lua_arg args (j + 1) # drop (nat (j + 1)) (args @ [LNil])"
proof -
  have l: "nat j < length (args @ [LNil])" using assms by auto
  have "lua_arg args (j + 1) = (args @ [LNil]) ! nat j"
    using assms by (auto simp: lua_arg_def nth_append nat_less_iff)
  then show ?thesis using Cons_nth_drop_Suc [OF l] assms by (simp add: nat_add_distrib)
qed

subsection \<open>Placeholders\<close>

text \<open>The reference: every question mark is replaced by the next value, as long as there is one.\<close>

fun subst_marks :: "string \<Rightarrow> string list \<Rightarrow> string" where
  "subst_marks [] vs = []"
| "subst_marks (c # cs) [] = c # cs"
| "subst_marks (c # cs) (v # vs) =
     (if c = CHR ''?'' then v @ subst_marks cs vs else c # subst_marks cs (v # vs))"

lemma subst_marks_none [simp]: "subst_marks cs [] = cs"
  by (cases cs) simp_all

lemma subst_marks_plain: "CHR ''?'' \<notin> set cs \<Longrightarrow> subst_marks (cs @ ds) vs = cs @ subst_marks ds vs"
  by (induction cs arbitrary: ds vs) (auto simp: neq_Nil_conv, case_tac vs, auto)

text \<open>What follows the last question mark that is replaced, if one is.\<close>

fun marks_tail :: "string \<Rightarrow> string list \<Rightarrow> string option" where
  "marks_tail [] vs = None"
| "marks_tail (c # cs) [] = None"
| "marks_tail (c # cs) (v # vs) =
     (if c = CHR ''?'' then Some (case marks_tail cs vs of None \<Rightarrow> cs | Some t \<Rightarrow> t) else marks_tail cs (v # vs))"

lemma marks_tail_none [simp]: "marks_tail cs [] = None"
  by (cases cs) simp_all

lemma marks_tail_plain: "CHR ''?'' \<notin> set cs \<Longrightarrow> marks_tail (cs @ ds) vs = marks_tail ds vs"
  by (induction cs arbitrary: ds vs) (auto simp: neq_Nil_conv, case_tac vs, auto)

text \<open>That text is copied in place, which works for 16 bytes and not for more.\<close>

definition tail_fits :: "string \<Rightarrow> string list \<Rightarrow> bool" where
  "tail_fits cs vs \<longleftrightarrow> (case marks_tail cs vs of None \<Rightarrow> True | Some t \<Rightarrow> length t \<le> 16)"

definition escaped :: "('d, 'r) libpq \<Rightarrow> 'd \<Rightarrow> string \<Rightarrow> string" where
  "escaped pq w v = (if v = [] then [] else fst (PQescapeStringConn pq w v))"

text \<open>The bound that libpq documents for an escaped string.\<close>

definition escape_fits :: "('d, 'r) libpq \<Rightarrow> 'd \<Rightarrow> bool" where
  "escape_fits pq w \<longleftrightarrow> (\<forall>v. length (fst (PQescapeStringConn pq w v)) \<le> 2 * length v)"

lemma singlequote_eq:
  assumes "db st \<noteq> None" "escape_fits pq (pgworld st)"
  shows "\<exists>zs. singlequote pq (view v ys) st = Some (view (escaped pq (pgworld st) v) zs)"
proof (cases "v = []")
  case False
  obtain y err where y: "PQescapeStringConn pq (pgworld st) v = (y, err)" by force
  have "length y \<le> 2 * length v" using assms(2) y unfolding escape_fits_def by (metis fst_conv)
  then have "int (length y) \<le> 2 * int (length v)" by linarith
  moreover have "dblog ''Failed to escape string %s'' [AStr (view v ys)] = Some ()"
    by (simp add: dblog_def new_str_def)
  ultimately show ?thesis
    using assms(1) False y by (auto simp: singlequote_def escaped_def)
qed (simp add: singlequote_def escaped_def)

text \<open>A query under construction: NULL or a string.\<close>

definition buildup :: "str \<Rightarrow> bool" where
  "buildup s \<longleftrightarrow> s = None \<or> (\<exists>xs ys. s = view xs ys)"

lemma buildup_simps [simp]: "buildup None" "buildup (view xs ys)"
  by (auto simp: buildup_def)

lemma append_buildup:
  "buildup s \<Longrightarrow> \<exists>zs. append_str s (view xs ys) = Some (view (chars_of s @ xs) zs)"
  by (auto simp: buildup_def append_view)

text \<open>The loop behind \<open>a\<close>, which has been dealt with, and \<open>b\<close>, which has only been passed.\<close>

lemma query_loop_eq:
  assumes "db st \<noteq> None" "escape_fits pq (pgworld st)" "1 \<le> j" "buildup qry"
  shows "\<exists>a' r' qry'. query_loop pq st args (view (a @ b @ r) ys) (int (length (a @ b))) j (int (length a)) qry
      = Some (int (length a'), qry')
    \<and> a @ b @ r = a' @ r' \<and> buildup qry'
    \<and> (let t = marks_tail r (map (escaped pq (pgworld st) \<circ> lua_text) (drop (nat j) (args @ [LNil]))) in
        (qry' = None \<longleftrightarrow> qry = None \<and> t = None) \<and> r' = (case t of None \<Rightarrow> b @ r | Some x \<Rightarrow> x))
    \<and> chars_of qry' @ r' = chars_of qry @ b
        @ subst_marks r (map (escaped pq (pgworld st) \<circ> lua_text) (drop (nat j) (args @ [LNil])))"
  using assms(3,4)
proof (induction r arbitrary: a b j qry)
  case Nil
  then show ?case by (subst query_loop.simps) auto
next
  case (Cons c r)
  let ?qs = "view (a @ b @ c # r) ys" and ?i = "int (length (a @ b))"
  let ?vs = "\<lambda>j. map (escaped pq (pgworld st) \<circ> lua_text) (drop (nat j) (args @ [LNil]))"
  show ?case
  proof (cases "j \<le> int (length args)")
    case False
    then have "?vs j = []" by simp
    moreover have "query_loop pq st args ?qs ?i j (int (length a)) qry = Some (int (length a), qry)"
      using False by (subst query_loop.simps) simp
    ultimately show ?thesis using Cons.prems by auto
  next
    case True
    have at: "at ?qs ?i = Some c" using at_middle [of "a @ b" c r ys] by simp
    define v where "v = escaped pq (pgworld st) (lua_text (lua_arg args (j + 1)))"
    have vs: "?vs j = v # ?vs (j + 1)"
      unfolding lua_arg_drop [OF Cons.prems(1) True] v_def by simp
    show ?thesis
    proof (cases "c = CHR ''?''")
      case False
      have "query_loop pq st args ?qs ?i j (int (length a)) qry
        = query_loop pq st args (view (a @ (b @ [c]) @ r) ys) (int (length (a @ b @ [c]))) j (int (length a)) qry"
        using True False at by (subst query_loop.simps) (simp add: add.commute)
      with Cons.IH [OF Cons.prems, of a "b @ [c]"] show ?thesis
        unfolding vs append_assoc append.simps using False by simp
    next
      case q: True
      obtain zs where sq: "singlequote pq (lit (lua_text (lua_arg args (j + 1)))) st = Some (view v zs)"
        using singlequote_eq [OF assms(1,2)] unfolding v_def by blast
      obtain zs' where ap: "append_str qry (view (b @ v) []) = Some (view (chars_of qry @ b @ v) zs')"
        using append_buildup [OF Cons.prems(2)] by blast
      have "query_loop pq st args ?qs ?i j (int (length a)) qry
        = query_loop pq st args (view ((a @ b @ [c]) @ [] @ r) ys) (int (length ((a @ b @ [c]) @ []))) (j + 1)
            (int (length (a @ b @ [c]))) (view (chars_of qry @ b @ v) zs')"
        using True at q sq ap by (subst query_loop.simps) (simp add: from_str_pieces append_view add.commute)
      moreover have "view (chars_of qry @ b @ v) zs' \<noteq> None" by (simp add: view_def)
      moreover have "1 \<le> j + 1" using Cons.prems(1) by simp
      ultimately show ?thesis
        using Cons.IH [of "j + 1" "view (chars_of qry @ b @ v) zs'" "a @ b @ [c]" "[]"] unfolding vs
        using q by (auto simp: comp_def Let_def split: option.splits)
    qed
  qed
qed

lemma query_text_eq:
  assumes "db st \<noteq> None" "escape_fits pq (pgworld st)"
    "vs = map (escaped pq (pgworld st) \<circ> lua_text) (args @ [LNil])"
  shows "if tail_fits (drop 1 (lua_text v)) vs
    then \<exists>zs. query_text pq st (v # args) = Some (view (take 1 (lua_text v) @ subst_marks (drop 1 (lua_text v)) vs) zs)
    else query_text pq st (v # args) = None"
proof (cases "lua_text v")
  case Nil
  then have "query_loop pq st (v # args) (lit []) 1 1 0 None = Some (0, None)"
    by (subst query_loop.simps) simp
  then show ?thesis using Nil by (simp add: query_text_def from_str_view tail_fits_def)
next
  case (Cons c r)
  obtain a' r' qry' where l: "query_loop pq st (v # args) (lit (c # r)) 1 1 0 None = Some (int (length a'), qry')"
    and split: "c # r = a' @ r'" and b: "buildup qry'"
    and none: "qry' = None \<longleftrightarrow> marks_tail r vs = None"
    and tail: "r' = (case marks_tail r vs of None \<Rightarrow> c # r | Some x \<Rightarrow> x)"
    and t: "chars_of qry' @ r' = c # subst_marks r vs"
  proof -
    have vs: "map (escaped pq (pgworld st) \<circ> lua_text) (drop (nat 1) (v # args @ [LNil])) = vs"
      by (simp add: assms(3))
    from query_loop_eq [OF assms(1,2) order.refl buildup_simps(1), of "v # args" "[]" "[c]" r "[NUL]"]
    obtain a' r' qry' where "query_loop pq st (v # args) (view (c # r) [NUL]) (int (length [c])) 1
        (int (length ([] :: string))) None = Some (int (length a'), qry')"
      "c # r = a' @ r'" "buildup qry'" "qry' = None \<longleftrightarrow> None = None \<and> marks_tail r vs = None"
      "r' = (case marks_tail r vs of None \<Rightarrow> c # r | Some x \<Rightarrow> x)"
      "chars_of qry' @ r' = chars_of None @ c # subst_marks r vs"
      unfolding append.simps vs Let_def by blast
    then show ?thesis by (intro that) (assumption | simp)+
  qed
  have f: "from_str (lit (c # r)) (int (length a')) (len (lit (c # r)) - int (length a')) = Some (view r' [NUL])"
    unfolding split using from_str_pieces [of a' r' "[]" "[NUL]"] by simp
  with l have q: "query_text pq st (v # args) = append_in True qry' (view r' [NUL])"
    by (simp add: query_text_def Cons)
  show ?thesis
  proof (cases "marks_tail r vs")
    case None
    then have "qry' = None" using none by simp
    with t have "r' = c # subst_marks r vs" by (simp add: chars_of_def)
    then show ?thesis using q None \<open>qry' = None\<close> by (auto simp: Cons tail_fits_def)
  next
    case (Some x)
    then obtain xs ys where "qry' = view xs ys" using none b by (auto simp: buildup_def)
    then show ?thesis using q Some t tail by (simp add: Cons tail_fits_def append_in_view)
  qed
qed

subsection \<open>What the server reads\<close>

text \<open>A string literal of SQL, with standard conforming strings: two quotes stand for one.  The
  result is the value of the literal and what follows it.\<close>

fun read_quoted :: "string \<Rightarrow> (string \<times> string) option" where
  "read_quoted [] = None"
| "read_quoted (c # cs) =
     (if c \<noteq> SQUOTE then map_option (\<lambda>(v, r). (c # v, r)) (read_quoted cs)
      else (case cs of
          d # ds \<Rightarrow> if d = SQUOTE then map_option (\<lambda>(v, r). (SQUOTE # v, r)) (read_quoted ds) else Some ([], cs)
        | [] \<Rightarrow> Some ([], [])))"

fun sql_literal :: "string \<Rightarrow> (string \<times> string) option" where
  "sql_literal (c # cs) = (if c = SQUOTE then read_quoted cs else None)"
| "sql_literal [] = None"

text \<open>What libpq documents for such a connection: in a value without a NUL, quotes are doubled and
  nothing else changes.\<close>

definition double_quotes :: "string \<Rightarrow> string" where
  "double_quotes v = concat (map (\<lambda>c. if c = SQUOTE then [SQUOTE, SQUOTE] else [c]) v)"

definition doubles_quotes :: "('d, 'r) libpq \<Rightarrow> 'd \<Rightarrow> bool" where
  "doubles_quotes pq w \<longleftrightarrow> escape_fits pq w
    \<and> (\<forall>v. NUL \<notin> set v \<longrightarrow> PQescapeStringConn pq w v = (double_quotes v, False))"

lemma length_double_quotes: "length (double_quotes v) \<le> 2 * length v"
  by (induction v) (auto simp: double_quotes_def)

lemma doubles_escapes:
  "doubles_quotes pq w \<Longrightarrow> escape_fits pq w \<and> (\<forall>v. NUL \<notin> set v \<longrightarrow> escaped pq w v = double_quotes v)"
  by (auto simp: doubles_quotes_def escaped_def double_quotes_def)

lemma read_double_quotes:
  "(\<forall>c cs. rest = c # cs \<longrightarrow> c \<noteq> SQUOTE) \<Longrightarrow> read_quoted (double_quotes v @ SQUOTE # rest) = Some (v, rest)"
  by (induction v) (auto simp: double_quotes_def split: list.split)

text \<open>A query text has its question marks behind the first byte replaced by the escaped values
  of the arguments, in order; one question mark more is replaced by the text of a NULL pointer,
  and any further one is kept.  But when more than 16 bytes follow the last one that is replaced,
  they are copied to memory that is not reserved, and the next message of the log overwrites them
  before the server gets them.\<close>

theorem placeholders_substituted:
  assumes "db st \<noteq> None" "escape_fits pq (pgworld st)"
    "vs = map (escaped pq (pgworld st)) (map lua_text args @ [''0''])"
  shows "if tail_fits cs vs
    then \<exists>zs. query_text pq st (LString (c # cs) # args) = Some (view (c # subst_marks cs vs) zs)
    else query_text pq st (LString (c # cs) # args) = None"
  using query_text_eq [OF assms(1,2), of vs args "LString (c # cs)"] by (simp add: assms(3) cong: if_cong)

text \<open>A connection that has sent the queries of its state, and answers each with no rows.\<close>

definition sample_libpq :: "(string list, string list list) libpq" where
  "sample_libpq = \<lparr>PQconnectdb = (\<lambda>w s. (True, w)), PQexec = (\<lambda>w q. (Some [], w @ [q])),
     PQstatus_of = (\<lambda>r. PGRES_TUPLES_OK), PQntuples = (\<lambda>r. int (length r)), PQnfields = (\<lambda>r. 1),
     PQfname = (\<lambda>r i. Some ''name''),
     PQgetvalue = (\<lambda>r i j. if nat i < length r \<and> nat j < length (r ! nat i) then Some (r ! nat i ! nat j) else None),
     PQmessage_of = (\<lambda>r. []), PQescapeStringConn = (\<lambda>w v. (double_quotes v, False))\<rparr>"

definition sample_state :: "(string list, string list list) pgstate" where
  "sample_state = \<lparr>db = Some \<lparr>is_open = True, res = None\<rparr>, lins_database = True, pgworld = []\<rparr>"

lemma sample_doubles: "doubles_quotes sample_libpq w"
  by (simp add: doubles_quotes_def escape_fits_def sample_libpq_def length_double_quotes)

lemma sample_db [simp]: "db sample_state \<noteq> None"
  by (simp add: sample_state_def)

theorem placeholders_substituted_witness:
  "\<exists>zs. query_text sample_libpq sample_state [LString ''f(?,?)'', LString ''x''] = Some (view ''f(x,0)'' zs)"
  using placeholders_substituted [OF sample_db, of sample_libpq _ "[LString ''x'']" "''(?,?)''" "CHR ''f''"]
    doubles_escapes [OF sample_doubles]
  by (simp add: double_quotes_def tail_fits_def)

text \<open>A query of a page whose end is lost.\<close>

theorem query_end_lost:
  "query_text sample_libpq sample_state [LString ''select a from t where b=? order by a limit 10'', LString ''1''] = None"
  using placeholders_substituted [OF sample_db, of sample_libpq _ "[LString ''1'']"
      "''elect a from t where b=? order by a limit 10''" "CHR ''s''"]
    doubles_escapes [OF sample_doubles]
  by (simp add: double_quotes_def tail_fits_def)

text \<open>C20: A value for a placeholder between quotes reaches the server as the literal it was, when the
  query ends within 15 bytes behind it: the server reads the value, whatever quotes it has, and then
  the rest of the query.  With a longer rest no value is safe: the text is copied to memory that
  \<open>append\<close> has not reserved, and there is no saying what the server gets.\<close>

theorem placeholder_is_safe:
  assumes "db st \<noteq> None" "doubles_quotes pq (pgworld st)" "CHR ''?'' \<notin> set pre"
    "CHR ''?'' \<notin> set post" "\<forall>d ds. post = d # ds \<longrightarrow> d \<noteq> SQUOTE" "NUL \<notin> set (lua_text v)"
  shows "if length post < 16
    then \<exists>zs lit. query_text pq st [LString (c # pre @ SQUOTE # CHR ''?'' # SQUOTE # post), v]
        = Some (view (c # pre @ lit @ post) zs)
      \<and> sql_literal (lit @ post) = Some (lua_text v, post)
    else query_text pq st [LString (c # pre @ SQUOTE # CHR ''?'' # SQUOTE # post), v] = None"
proof -
  note esc = doubles_escapes [OF assms(2)]
  have post: "subst_marks (SQUOTE # post) vs = SQUOTE # post" "marks_tail (SQUOTE # post) vs = None" for vs
    using subst_marks_plain [of "SQUOTE # post" "[]" vs] marks_tail_plain [of "SQUOTE # post" "[]" vs] assms(4) by simp_all
  let ?q = "pre @ SQUOTE # CHR ''?'' # SQUOTE # post"
  have "subst_marks ?q (w # vs) = pre @ SQUOTE # w @ SQUOTE # post" "tail_fits ?q (w # vs) \<longleftrightarrow> length post < 16" for w vs
    using subst_marks_plain [OF assms(3)] marks_tail_plain [OF assms(3)] post by (auto simp: tail_fits_def)
  with query_text_eq [OF assms(1) _ refl, of pq "LString (c # ?q)" "[v]"] esc assms(6)
  have "if length post < 16
    then \<exists>zs. query_text pq st [LString (c # ?q), v]
        = Some (view (c # pre @ (SQUOTE # double_quotes (lua_text v) @ [SQUOTE]) @ post) zs)
    else query_text pq st [LString (c # ?q), v] = None"
    by (simp cong: if_cong)
  moreover have "sql_literal ((SQUOTE # double_quotes (lua_text v) @ [SQUOTE]) @ post) = Some (lua_text v, post)"
    using read_double_quotes [OF assms(5)] by simp
  ultimately show ?thesis by (auto split: if_splits)
qed

theorem placeholder_is_safe_witness:
  "\<exists>zs lit. query_text sample_libpq sample_state [LString (''f('' @ SQUOTE # CHR ''?'' # SQUOTE # '')''), LString ''it's'']
      = Some (view (''f('' @ lit @ '')'') zs)
    \<and> sql_literal (lit @ '')'') = Some (''it's'', '')'')"
  using placeholder_is_safe [OF sample_db sample_doubles, of "''(''" "'')''" "LString ''it's''" "CHR ''f''"] by simp

subsection \<open>Stored procedures\<close>

fun quoted_args :: "string list \<Rightarrow> string" where
  "quoted_args [] = []"
| "quoted_args [v] = SQUOTE # v @ [SQUOTE]"
| "quoted_args (v # vs) = SQUOTE # v @ SQUOTE # CHR '','' # quoted_args vs"

lemma quoted_args_Cons:
  "quoted_args (v # vs) = SQUOTE # v @ SQUOTE # (if vs = [] then [] else CHR '','' # quoted_args vs)"
  by (cases vs) simp_all

lemma closure_step:
  "closure_loop (v # vs) (view xs ys) =
    closure_loop vs (view (xs @ SQUOTE # lua_text v @ SQUOTE # (if vs = [] then [] else '','')) [])"
  by (simp add: fmt_plain append_view fmt_def new_str_def)

lemma closure_loop_eq:
  "closure_loop args (view xs ys) = Some (view (xs @ quoted_args (map lua_text args)) (if args = [] then ys else []))"
proof (induction args arbitrary: xs ys)
  case (Cons v vs)
  show ?case by (simp add: closure_step Cons.IH quoted_args_Cons del: closure_loop.simps quoted_args.simps(2,3))
qed simp

lemma closure_text_eq:
  "closure_text u args = Some (view (lua_text u @ quoted_args (map lua_text args) @ '')'') [])"
  using append_in_view [of "lua_text u @ quoted_args (map lua_text args)" "[]" "'')''" "[NUL]"]
  by (cases "args = []") (simp_all add: closure_text_def closure_loop_eq fmt_plain append_view append_in_False)

text \<open>A stored procedure called with one argument that contains a quote, a comma and a quote
  sends exactly the query of a call with two arguments: what a page got from a request can change
  the call.\<close>

theorem procedure_arguments_escape:
  "DBClosureLua pq height u [LString (x @ SQUOTE # CHR '','' # SQUOTE # y)] st cs
    = DBClosureLua pq height u [LString x, LString y] st cs"
  by (simp add: DBClosureLua_def closure_text_eq)

end
