(* ===== verification/Page_Props.thy ===== *)
theory Page_Props
  imports Lua_Query Files_Props Responses_Props
begin

section \<open>What a page sends\<close>

text \<open>
  A page whose scripts only print is sent as the texts of its template and what the scripts print,
  in order.  The scripts are given by the values that they print; the rest of Lua plays no part.
\<close>

subsection \<open>Chunked content\<close>

text \<open>\<open>b\<close> is a sequence of chunks of the bytes \<open>x\<close>, none of them empty.\<close>

definition encodes :: "string \<Rightarrow> string \<Rightarrow> bool" where
  "encodes b x \<longleftrightarrow> (\<forall>rest. unchunk (b @ rest) = do { (p, r) \<leftarrow> unchunk rest; Some (x @ p, r) })"

lemma encodes_Nil: "encodes [] []"
proof -
  have "do { (p, r) \<leftarrow> u; Some (p, r) } = u" for u :: "(string \<times> string) option" by (cases u) auto
  then show ?thesis by (simp add: encodes_def)
qed

lemma encodes_append: "encodes a x \<Longrightarrow> encodes b y \<Longrightarrow> encodes (a @ b) (x @ y)"
  unfolding encodes_def append_assoc by (auto split: bind_split)

lemma encodes_chunk: "d \<noteq> [] \<Longrightarrow> length d < 2 ^ 64 \<Longrightarrow> encodes (chunk d) d"
  by (simp add: encodes_def unchunk_chunk)

lemma encodes_chunks: "encodes (chunks xs) xs"
proof (induction xs rule: chunks.induct)
  case (1 xs)
  show ?case
  proof (cases "xs = []")
    case False
    have "encodes (chunk (take 1460 xs) @ chunks (drop 1460 xs)) (take 1460 xs @ drop 1460 xs)"
      using False "1.IH" by (intro encodes_append encodes_chunk) simp_all
    then show ?thesis using False by (subst chunks.simps) (simp only: if_False append_take_drop_id)
  qed (subst chunks.simps, simp add: encodes_Nil)
qed

lemma encodes_end: "encodes b x \<Longrightarrow> unchunk (b @ chunk [] @ rest) = Some (x, rest)"
  by (simp add: encodes_def unchunk_last)

subsection \<open>Scripts that print\<close>

text \<open>The script \<open>code\<close> prints the values \<open>pr code\<close> and does nothing else.\<close>

definition only_prints :: "env \<Rightarrow> (string \<Rightarrow> lua_val list) \<Rightarrow> bool" where
  "only_prints e pr \<longleftrightarrow> (\<forall>code cl. escript e code cl = do { (_, cl) \<leftarrow> PrintLua e (pr code) cl; Some (Done, cl) })"

lemma print_delivers:
  assumes "whole_writes (ekw e)"
  shows "\<exists>b c'. print_loop e vs cl = Some (cl\<lparr>csocket := c'\<rparr>) \<and> delivers (ekw e) (csocket cl) b c'
    \<and> encodes b (concat (map lua_text vs))"
proof (induction vs arbitrary: cl)
  case Nil
  have "cl = cl\<lparr>csocket := csocket cl\<rparr>" by simp
  then show ?case using encodes_Nil by (intro exI [of _ "[]"] exI [of _ "csocket cl"]) simp
next
  case (Cons v vs)
  obtain r c1 where 1: "write_chunked_socket (ekw e) (lit (lua_text v)) (Some (csocket cl)) = Some (r, Some c1)"
    "delivers (ekw e) (csocket cl) (chunks (lua_text v)) c1" using write_chunked_delivers [OF assms] .
  obtain b c2 where 2: "print_loop e vs (cl\<lparr>csocket := c1\<rparr>) = Some (cl\<lparr>csocket := c2\<rparr>)" "delivers (ekw e) c1 b c2"
    "encodes b (concat (map lua_text vs))" using Cons.IH [of "cl\<lparr>csocket := c1\<rparr>"] by auto
  have "print_loop e (v # vs) cl = Some (cl\<lparr>csocket := c2\<rparr>)" using 1(1) 2(1) by simp
  with delivers_append [OF 1(2) 2(2)] encodes_append [OF encodes_chunks 2(3), of "lua_text v"] show ?case
    by (intro exI [of _ "chunks (lua_text v) @ b"] exI [of _ c2]) simp
qed

lemma run_script:
  assumes "whole_writes (ekw e)" "only_prints e pr"
  obtains b c' where "escript e code cl = Some (Done, cl\<lparr>csocket := c'\<rparr>)" "delivers (ekw e) (csocket cl) b c'"
    "encodes b (concat (map lua_text (pr code)))"
proof -
  obtain b c' where b: "print_loop e (pr code) cl = Some (cl\<lparr>csocket := c'\<rparr>)" "delivers (ekw e) (csocket cl) b c'"
    "encodes b (concat (map lua_text (pr code)))" using print_delivers [OF assms(1)] by blast
  then have "escript e code cl = Some (Done, cl\<lparr>csocket := c'\<rparr>)" using assms(2) by (simp add: only_prints_def PrintLua_def)
  with b(2,3) show ?thesis by (intro that)
qed

subsection \<open>Segments\<close>

text \<open>What a part of a template contributes to the page.\<close>

definition part_text :: "(string \<Rightarrow> lua_val list) \<Rightarrow> kind \<times> string \<Rightarrow> string" where
  "part_text pr p = (if fst p = TEXT then snd p else concat (map lua_text (pr (snd p))))"

definition page_text :: "(string \<Rightarrow> lua_val list) \<Rightarrow> template \<Rightarrow> string \<Rightarrow> string" where
  "page_text pr parts t = concat (map (part_text pr) (template_parts parts t))"

text \<open>The last text is sent even when it is empty, which ends the body.\<close>

definition early_end :: "string \<Rightarrow> string" where
  "early_end t = (if t = [] then chunk [] else [])"

lemma encodes_page_end: "encodes b x \<Longrightarrow> unchunk (b @ early_end t @ chunk []) = Some (x, early_end t)"
  using encodes_end [of b x "[]"] encodes_end [of b x "chunk []"] by (simp add: early_end_def)

lemma text_segment:
  assumes "whole_writes (ekw e)" "fdata fc = ps @ s @ zs"
  obtains c' where "eval_segments e fc (\<lparr>pkind = TEXT, poffset = int (length ps), plength = int (length s)\<rparr> # rst) cl
    = eval_segments e fc rst (cl\<lparr>csocket := c'\<rparr>)" "delivers (ekw e) (csocket cl) (chunk s) c'"
proof -
  obtain r c' where "write_chunk (ekw e) (Some (s @ zs)) (int (length s)) (csocket cl) = Some (r, c')"
    "delivers (ekw e) (csocket cl) (chunk s) c'" using write_chunk_delivers [OF assms(1)] .
  then show ?thesis using that by (simp add: assms(2))
qed

lemma optional_text:
  assumes "whole_writes (ekw e)" "fdata fc = ps @ s @ zs"
  obtains c' where "eval_segments e fc ((if s = [] then [] else [\<lparr>pkind = TEXT, poffset = int (length ps), plength = int (length s)\<rparr>]) @ rst) cl
    = eval_segments e fc rst (cl\<lparr>csocket := c'\<rparr>)" "delivers (ekw e) (csocket cl) (if s = [] then [] else chunk s) c'"
proof (cases "s = []")
  case True
  have "cl\<lparr>csocket := csocket cl\<rparr> = cl" by simp
  then show ?thesis using that [of "csocket cl"] True by (simp del: eval_segments.simps)
next
  case False
  obtain c' where "eval_segments e fc (\<lparr>pkind = TEXT, poffset = int (length ps), plength = int (length s)\<rparr> # rst) cl
    = eval_segments e fc rst (cl\<lparr>csocket := c'\<rparr>)" "delivers (ekw e) (csocket cl) (chunk s) c'"
    using text_segment [OF assms] .
  with False show ?thesis using that [of c'] by (simp del: eval_segments.simps)
qed

lemma script_segment:
  assumes "whole_writes (ekw e)" "only_prints e pr" "fdata fc = ps @ p @ zs"
  obtains b c' where "eval_segments e fc (\<lparr>pkind = SCRIPT, poffset = int (length ps), plength = int (length p)\<rparr> # rst) cl
    = eval_segments e fc rst (cl\<lparr>csocket := c'\<rparr>)" "delivers (ekw e) (csocket cl) b c'" "encodes b (concat (map lua_text (pr p)))"
proof -
  obtain b c' where "escript e p cl = Some (Done, cl\<lparr>csocket := c'\<rparr>)" "delivers (ekw e) (csocket cl) b c'"
    "encodes b (concat (map lua_text (pr p)))" using run_script [OF assms(1,2)] .
  then show ?thesis using that by (simp add: assms(3))
qed

lemma eval_template:
  assumes "whole_writes (ekw e)" "only_prints e pr" "fdata fc = ps @ render parts t @ zs"
    "length (render parts t) < 2 ^ 64"
  shows "\<exists>b c'. eval_segments e fc (tsegs (int (length ps)) parts t @ zero_parsed # rst) cl = Some (cl\<lparr>csocket := c'\<rparr>)
    \<and> delivers (ekw e) (csocket cl) (b @ early_end t) c' \<and> encodes b (page_text pr parts t)"
  using assms(3,4)
proof (induction parts arbitrary: ps cl)
  case Nil
  let ?b = "if t = [] then [] else chunk t"
  have "fdata fc = ps @ t @ zs" using Nil by simp
  then obtain c' where c': "eval_segments e fc (\<lparr>pkind = TEXT, poffset = int (length ps), plength = int (length t)\<rparr> # zero_parsed # rst) cl
      = eval_segments e fc (zero_parsed # rst) (cl\<lparr>csocket := c'\<rparr>)" "delivers (ekw e) (csocket cl) (chunk t) c'"
    using text_segment [OF assms(1)] by blast
  then have "eval_segments e fc (tsegs (int (length ps)) [] t @ zero_parsed # rst) cl = Some (cl\<lparr>csocket := c'\<rparr>)" by simp
  moreover have "encodes ?b (page_text pr [] t)"
    using Nil(2) encodes_Nil encodes_chunk by (simp add: page_text_def part_text_def)
  moreover have "?b @ early_end t = chunk t" by (simp add: early_end_def)
  ultimately show ?case using c'(2) by metis
next
  case (Cons part parts)
  obtain s c p where part: "part = (s, c, p)" by (cases part) auto
  let ?ps = "ps @ s @ ''<?'' @ c # p @ ''?>''"
  have d: "fdata fc = ps @ s @ ''<?'' @ c # p @ ''?>'' @ render parts t @ zs"
    "fdata fc = (ps @ s @ ''<?'' @ [c]) @ p @ ''?>'' @ render parts t @ zs"
    "fdata fc = ?ps @ render parts t @ zs" "length (render parts t) < 2 ^ 64" "length s < 2 ^ 64"
    using Cons.prems by (simp_all add: part)
  define rst1 where "rst1 = tsegs (int (length ?ps)) parts t @ zero_parsed # rst"
  define sg where "sg = \<lparr>pkind = SCRIPT, poffset = int (length (ps @ s @ ''<?'' @ [c])), plength = int (length p)\<rparr>"
  have sgs: "tsegs (int (length ps)) (part # parts) t @ zero_parsed # rst
      = (if s = [] then [] else [\<lparr>pkind = TEXT, poffset = int (length ps), plength = int (length s)\<rparr>]) @ sg # rst1"
    by (simp add: part segs_of_def sg_def rst1_def ac_simps)
  let ?b1 = "if s = [] then [] else chunk s"
  obtain c1 where 1: "eval_segments e fc (tsegs (int (length ps)) (part # parts) t @ zero_parsed # rst) cl
      = eval_segments e fc (sg # rst1) (cl\<lparr>csocket := c1\<rparr>)" "delivers (ekw e) (csocket cl) ?b1 c1"
    using optional_text [OF assms(1) d(1)] unfolding sgs .
  obtain b2 c2 where 2: "eval_segments e fc (sg # rst1) (cl\<lparr>csocket := c1\<rparr>) = eval_segments e fc rst1 (cl\<lparr>csocket := c1, csocket := c2\<rparr>)"
    "delivers (ekw e) (csocket (cl\<lparr>csocket := c1\<rparr>)) b2 c2" "encodes b2 (concat (map lua_text (pr p)))"
    using script_segment [OF assms(1,2) d(2)] unfolding sg_def .
  obtain b3 c3 where 3: "eval_segments e fc rst1 (cl\<lparr>csocket := c2\<rparr>) = Some (cl\<lparr>csocket := c3\<rparr>)"
    "delivers (ekw e) c2 (b3 @ early_end t) c3" "encodes b3 (page_text pr parts t)"
    using Cons.IH [OF d(3,4), of "cl\<lparr>csocket := c2\<rparr>"] unfolding rst1_def by auto
  have c2: "delivers (ekw e) c1 b2 c2" using 2(2) by simp
  have "encodes (?b1 @ b2 @ b3) (s @ concat (map lua_text (pr p)) @ page_text pr parts t)"
    using 2(3) 3(3) d(5) encodes_chunk encodes_Nil by (intro encodes_append) auto
  moreover have "page_text pr (part # parts) t = s @ concat (map lua_text (pr p)) @ page_text pr parts t"
    by (simp add: page_text_def part_text_def part)
  moreover have "delivers (ekw e) (csocket cl) ((?b1 @ b2 @ b3) @ early_end t) c3"
    using delivers_append [OF delivers_append [OF 1(2) c2] 3(2)] by simp
  ultimately show ?case using 1(1) 2(1) 3(1)
    by (intro exI [of _ "?b1 @ b2 @ b3"] exI [of _ c3]) simp
qed

text \<open>C10: A page of fewer than 341 parts, in a file that ends below \<open>2 ^ 31 - 4\<close>, whose scripts only
  print, arrives as the texts of its template and what the scripts print, in order: the peer decodes the body to exactly that, or gets the part of it before the
  write that failed, if one does.  A template that ends with a script
  has an empty last text, which is sent as a chunk of its own and ends the body early, so that the
  end of the response follows as a stray chunk.\<close>

theorem page_sent:
  assumes "wf_template parts" "wf_text t" "fdata fc = render parts t @ NUL # zs"
    "fsize fc = int (length (render parts t))" "fparsed fc = None" "fsize fc + 4 < 2 ^ 31"
    "length (template_parts parts t) < page_size div sizeof_parsed"
    "whole_writes (ekw e)" "only_prints e pr" "cresponse cl \<noteq> None"
  shows "\<exists>fc' cl1 cl2 s. parse_file fc = Some fc' \<and> EvalLuaFile e fc' cl = Some cl1
    \<and> end_response e cl1 = Some cl2 \<and> delivers (ekw e) (csocket cl) s (csocket cl2)
    \<and> unchunk s = Some (page_text pr parts t, early_end t)"
proof -
  obtain k where k: "length (template_parts parts t) + Suc k = page_size div sizeof_parsed"
    using assms(7) by (metis add_Suc_right less_iff_Suc_add)
  define fc' where "fc' = fc\<lparr>fparsed := Some (tsegs 0 parts t @ replicate (Suc k) zero_parsed)\<rparr>"
  have p: "parse_file fc = Some fc'" unfolding fc'_def using parse_template [OF assms(1-6) k] .
  have d: "fdata fc' = [] @ render parts t @ NUL # zs" using assms(3) by (simp add: fc'_def)
  have len: "length (render parts t) < 2 ^ 64" using assms(4,6) by simp
  obtain b c1 where b: "eval_segments e fc' (tsegs 0 parts t @ zero_parsed # replicate k zero_parsed) cl = Some (cl\<lparr>csocket := c1\<rparr>)"
    "delivers (ekw e) (csocket cl) (b @ early_end t) c1" "encodes b (page_text pr parts t)"
    using eval_template [OF assms(8,9) d len, where rst = "replicate k zero_parsed" and cl = cl] by auto
  have e1: "EvalLuaFile e fc' cl = Some (cl\<lparr>csocket := c1\<rparr>)" using b(1) by (simp add: EvalLuaFile_def fc'_def)
  obtain c2 where c2: "write_chunk (ekw e) None 0 c1 = Some (0, c2)" "delivers (ekw e) c1 (chunk []) c2"
    using write_last_chunk [OF assms(8)] .
  have e2: "end_response e (cl\<lparr>csocket := c1\<rparr>) = Some (cl\<lparr>csocket := c2\<rparr>)"
    using assms(10) c2(1) by (auto simp: end_response_def)
  have "delivers (ekw e) (csocket cl) (b @ early_end t @ chunk []) (csocket (cl\<lparr>csocket := c2\<rparr>))"
    using delivers_append [OF b(2) c2(2)] by simp
  with p e1 e2 encodes_page_end [OF b(3), of t] show ?thesis by blast
qed

text \<open>A page \<^verbatim>\<open><h1><? print(1) ?></h1>\<close> whose script prints 42.\<close>

definition sample_template :: file_cache where
  "sample_template = \<lparr>ffd = 3, fname = ''/a.lws'' @ [NUL], fsize = 23, fdata = ''<h1><? print(1) ?></h1>'' @ NUL # [],
     fparsed = None, fmime = None\<rparr>"

definition page_env :: env where
  "page_env = sample_env\<lparr>escript := (\<lambda>code cl. do { (_, cl) \<leftarrow> PrintLua sample_env [LNumber ''42''] cl; Some (Done, cl) })\<rparr>"

theorem page_sent_witness:
  "\<exists>fc' cl1 cl2 s w'. parse_file sample_template = Some fc' \<and> EvalLuaFile page_env fc' (sample_client None) = Some cl1
    \<and> end_response page_env cl1 = Some cl2 \<and> csocket cl2 = (create_socket 5 False \<lparr>sin_addr = 1, sin_port = 80\<rparr>, w')
    \<and> sent w' = s \<and> unchunk s = Some (''<h1>42</h1>'', [])"
proof -
  let ?sc = "create_socket 5 False \<lparr>sin_addr = 1, sin_port = 80\<rparr>"
  have k: "ekw page_env = ekw sample_env" by (simp add: page_env_def)
  have loop: "print_loop page_env vs cl = print_loop sample_env vs cl" for vs cl
    by (induction vs arbitrary: cl) (simp_all add: k)
  have "\<exists>fc' cl1 cl2 s. parse_file sample_template = Some fc' \<and> EvalLuaFile page_env fc' (sample_client None) = Some cl1
    \<and> end_response page_env cl1 = Some cl2 \<and> delivers (ekw page_env) (csocket (sample_client None)) s (csocket cl2)
    \<and> unchunk s = Some (page_text (\<lambda>_. [LNumber ''42'']) [(''<h1>'', CHR '' '', ''print(1) '')] ''</h1>'', early_end ''</h1>'')"
  proof (rule page_sent)
    show "whole_writes (ekw page_env)" by (simp add: k)
    show "only_prints page_env (\<lambda>_. [LNumber ''42''])"
      by (simp add: only_prints_def PrintLua_def loop) (simp add: page_env_def PrintLua_def)
  qed (simp_all add: sample_template_def wf_template_def wf_text_def isspace_def sublist_Cons_right page_size_def
      sizeof_parsed_def sample_client_def)
  then obtain fc' cl1 cl2 s where p: "parse_file sample_template = Some fc'" "EvalLuaFile page_env fc' (sample_client None) = Some cl1"
    "end_response page_env cl1 = Some cl2" "delivers (ekw page_env) (?sc, \<lparr>sent = [], writes = 0\<rparr>) s (csocket cl2)"
    "unchunk s = Some (''<h1>42</h1>'', [])"
    by (auto simp: page_text_def part_text_def early_end_def lua_text_def sample_client_def)
  have "complete (ekw page_env)" "\<not> sclosed ?sc" by (simp_all add: k create_socket_def resume_socket_def)
  from delivers_complete [OF this p(4)] obtain n where "csocket cl2 = (?sc, \<lparr>sent = [] @ s, writes = n\<rparr>)" by auto
  with p show ?thesis by (intro exI [of _ fc'] exI [of _ cl1] exI [of _ cl2] exI [of _ s] exI [of _ "snd (csocket cl2)"]) simp
qed

end
