(* ===== verification/Serve_Page.thy ===== *)
theory Serve_Page
  imports Get_Props Page_Props
begin

section \<open>The answer to a form\<close>

text \<open>
  The whole path of a page, from the bytes of a request to the exit of the worker: the request line
  and its query string, the body of a POST request as more form variables, the variables as the
  globals of the interpreter, the head of a page and the chunked body that the texts and the scripts
  of the page make.
\<close>

subsection \<open>The interpreter gets the form variables\<close>

text \<open>The interpreter starts, without sending anything, when its globals are these.\<close>

definition starts_with :: "env \<Rightarrow> (string \<times> string) list \<Rightarrow> bool" where
  "starts_with e vars \<longleftrightarrow> (\<forall>g cl. map (\<lambda>(k, v). (chars_of k, chars_of v)) g = vars \<longrightarrow> estart e g cl = Some cl)"

lemma globals_eq:
  assumes "holds_vars t vars"
  shows "map (\<lambda>(k, v). (chars_of k, chars_of v)) (case t of None \<Rightarrow> []
     | Some h \<Rightarrow> map (\<lambda>s. (hkey s, hvalue s)) (filter (\<lambda>s. hkey s \<noteq> None) (live_slots h))) = vars"
proof (cases t)
  case (Some h)
  have "filter (\<lambda>s. hkey s \<noteq> None) (live_slots h) = live_slots h"
    using assms Some by (auto simp: holds_vars_def wf_headers_def wf_slot_def intro: filter_True)
  then show ?thesis using assms Some by (simp add: holds_vars_def entries_def entry_def [abs_def] o_def)
qed (use assms in \<open>simp add: holds_vars_def\<close>)

text \<open>A cached page whose segments are those of a template.\<close>

definition holds_page :: "file_cache \<Rightarrow> template \<Rightarrow> string \<Rightarrow> bool" where
  "holds_page fc parts t \<longleftrightarrow> length (render parts t) < 2 ^ 64 \<and> (\<exists>zs k. fdata fc = render parts t @ zs
     \<and> fparsed fc = Some (tsegs 0 parts t @ replicate (Suc k) zero_parsed))"

lemma run_page:
  assumes "whole_writes (ekw e)" "cresponse cl \<noteq> None"
    "only_prints e pr" "starts_with e vars" "holds_vars (qvars (crequest cl)) vars" "holds_page fc parts t"
  obtains b c' where "run_lua_script e fc cl = Some (0, cl\<lparr>csocket := c'\<rparr>)"
    "delivers (ekw e) (csocket cl) (b @ early_end t) c'" "encodes b (page_text pr parts t)"
proof -
  obtain zs k where fc: "length (render parts t) < 2 ^ 64" "fdata fc = render parts t @ zs"
    "fparsed fc = Some (tsegs 0 parts t @ replicate (Suc k) zero_parsed)"
    using assms(6) by (auto simp: holds_page_def)
  have d: "fdata fc = [] @ render parts t @ zs" by (simp add: fc(2))
  obtain b c' where b: "eval_segments e fc (tsegs 0 parts t @ zero_parsed # replicate k zero_parsed) cl = Some (cl\<lparr>csocket := c'\<rparr>)"
    "delivers (ekw e) (csocket cl) (b @ early_end t) c'" "encodes b (page_text pr parts t)"
    using eval_template [OF assms(1,3) d fc(1), where rst = "replicate k zero_parsed" and cl = cl] by auto
  define g where "g = (case qvars (crequest cl) of None \<Rightarrow> []
     | Some h \<Rightarrow> map (\<lambda>s. (hkey s, hvalue s)) (filter (\<lambda>s. hkey s \<noteq> None) (live_slots h)))"
  have "estart e g cl = Some cl"
    using assms(4) globals_eq [OF assms(5)] unfolding starts_with_def g_def by blast
  then have "run_lua_script e fc cl = Some (0, cl\<lparr>csocket := c'\<rparr>)"
    using assms(2) b(1) fc(3) by (auto simp: run_lua_script_def g_def EvalLuaFile_def)
  with b(2,3) show ?thesis by (intro that)
qed

subsection \<open>The head of a page\<close>

definition page_fields :: "env \<Rightarrow> mime \<Rightarrow> (string \<times> string) list" where
  "page_fields e m = response_fields @ [(''Content-Type'', mtype m), (''Cache-Control'', ''max-age=0, no-cache''), (''Date'', edate e)]"

definition page_head :: "env \<Rightarrow> mime \<Rightarrow> string" where
  "page_head e m = (''HTTP/1.1 '' @ reason (status_of 200)) @ header_lines (page_fields e m) @ CRLF"

lemma page_head_eq: "page_head e m = ''HTTP/1.1 200 OK'' @ CRLF @ header_lines (page_fields e m) @ CRLF"
  by (simp add: page_head_def status_of_def stati_def)

lemma mimetype_page:
  assumes "whole_writes (ekw e)" "cresponse cl = Some resp"
    "pheaders resp = Some h" "wf_headers h" "entries h = response_fields" "nslots h = 3"
    "only_prints e pr" "starts_with e vars" "holds_vars (qvars (crequest cl)) vars" "holds_page fc parts t"
    "fmime fc = Some m" "mhandler m = Lws_Handler" "NUL \<notin> set (mtype m)" "NUL \<notin> set (edate e)"
  shows "\<exists>b cl'. mimetype_handler e (Some fc) cl = Some (200, cl') \<and> cresponse cl' \<noteq> None
    \<and> delivers (ekw e) (csocket cl) (page_head e m @ b @ early_end t) (csocket cl')
    \<and> encodes b (page_text pr parts t)"
proof -
  obtain h1 where h1: "content_type (Some h) (mtype m @ [NUL]) = Some (Some h1)" "wf_headers h1"
    "entries h1 = entries h @ [(''Content-Type'', mtype m)]" "nslots h1 = nslots h + 1"
    unfolding content_type_def Content_Type_MSG_def
    using add_field [OF assms(4), of "''Content-Type''" "mtype m"] assms(6,13) by (auto simp: MAX_HEADERS_def)
  obtain h2 where h2: "cache_control (Some h1) (''max-age=0, no-cache'' @ [NUL]) = Some (Some h2)" "wf_headers h2"
    "entries h2 = entries h1 @ [(''Cache-Control'', ''max-age=0, no-cache'')]" "nslots h2 = nslots h1 + 1"
    unfolding cache_control_def Cache_Control_MSG_def
    using add_field [OF h1(2), of "''Cache-Control''" "''max-age=0, no-cache''"] h1(4) assms(6) by (auto simp: MAX_HEADERS_def)
  obtain h3 where h3: "date_field (Some h2) (edate e @ [NUL]) = Some (Some h3)" "wf_headers h3"
    "entries h3 = entries h2 @ [(''Date'', edate e)]"
    unfolding date_field_def Date_MSG_def
    using add_field [OF h2(2), of "''Date''" "edate e"] h1(4) h2(4) assms(6,14) by (auto simp: MAX_HEADERS_def)
  have en: "entries h3 = page_fields e m" using assms(5) h1(3) h2(3) h3(3) by (simp add: page_fields_def)
  let ?resp = "resp\<lparr>pheaders := Some h3\<rparr>" and ?fc = "fc\<lparr>fmime := Some m\<rparr>"
  let ?cl = "cl\<lparr>cresponse := Some ?resp\<rparr>"
  have s: "csocket ?cl = csocket cl" "cresponse ?cl = Some ?resp" "pheaders ?resp = Some h3" by simp_all
  obtain c1 where 1: "send_head e 200 ?cl = Some (?cl\<lparr>csocket := c1\<rparr>)" "delivers (ekw e) (csocket cl) (page_head e m) c1"
    using send_head_delivers [OF assms(1) s(2,3) h3(2), of 200] unfolding s(1) en page_head_def .
  let ?cl2 = "?cl\<lparr>csocket := c1\<rparr>"
  have hp: "holds_page ?fc parts t" using assms(10) by (simp add: holds_page_def)
  have s2: "cresponse ?cl2 \<noteq> None" "holds_vars (qvars (crequest ?cl2)) vars" using assms(9) by simp_all
  obtain b c2 where 2: "run_lua_script e ?fc ?cl2 = Some (0, ?cl2\<lparr>csocket := c2\<rparr>)"
    "delivers (ekw e) (csocket ?cl2) (b @ early_end t) c2" "encodes b (page_text pr parts t)"
    using run_page [OF assms(1) s2(1) assms(7,8) s2(2) hp] .
  have "mimetype_handler e (Some fc) cl = lws_handler e ?fc (cl\<lparr>cresponse := Some (resp\<lparr>pheaders := Some h1\<rparr>)\<rparr>)"
    using assms(2,3,11,12) h1(1) by (simp add: mimetype_handler_def)
  also have "\<dots> = Some (200, ?cl2\<lparr>csocket := c2\<rparr>)"
    using h2(1) h3(1) 1(1) 2(1) by (simp add: lws_handler_def)
  finally have "mimetype_handler e (Some fc) cl = Some (200, ?cl2\<lparr>csocket := c2\<rparr>)" .
  moreover have "delivers (ekw e) c1 (b @ early_end t) c2" using 2(2) by simp
  note delivers_append [OF 1(2) this]
  ultimately show ?thesis using 2(3) by (intro exI [of _ b] exI [of _ "?cl2\<lparr>csocket := c2\<rparr>"]) simp
qed

subsection \<open>The body of a form\<close>

lemma dispatch_POST:
  "dispatch_method e (view ''POST'' ys) cl = post_method e cl"
  by (simp add: dispatch_method_def view_def gdispatch_def method_test_def tolower_def byte_simps)

text \<open>Neither a multipart form nor JSON.\<close>

definition form_type :: "string \<Rightarrow> bool" where
  "form_type ct \<longleftrightarrow> 19 \<le> length ct \<and> take 19 ct \<noteq> ''multipart/form-data'' \<and> take 9 ct \<noteq> ''text/json''"

lemma post_form:
  assumes "asks sc host p kvs vs (pre @ form_bytes b) (int (length pre)) cl"
    "map_of kvs ''Content-Type'' = Some ct" "form_type ct"
    "wf_form b" "length vs + length b \<le> 250" "b = [] \<or> \<not> isspace (hd (form_bytes b))"
  shows "\<exists>v. post_method e cl = get_method e (cl\<lparr>crequest := (crequest cl)\<lparr>qvars := v\<rparr>\<rparr>) \<and> holds_vars v (vs @ b)"
proof -
  let ?req = "crequest cl"
  obtain ht pt rh q where a: "qhost ?req = view host ht" "qpath ?req = view p pt" "qheaders ?req = Some rh" "wf_headers rh"
    "entries rh = kvs @ [(''peer'', q)]" "qcontents ?req = view (pre @ form_bytes b) []" "qbody ?req = int (length pre)"
    "holds_vars (qvars ?req) vs"
    using assms(1) by (auto simp: asks_def)
  have ct: "map_of (entries rh) ''Content-Type'' = Some ct" using assms(2) by (simp add: a(5) map_add_def)
  obtain r where r: "find_header (qheaders ?req) (lit ''Content-Type'') = Some r" "wf_str r"
    "map_of (entries rh) ''Content-Type'' = (if r = None then None else Some (chars_of r))"
    using find_header_eq [OF a(4), of "lit ''Content-Type''"] a(3) by auto
  obtain tt where rv: "r = view ct tt" using r(2,3) ct by (auto simp: wf_str_view split: if_splits)
  obtain peer where peer: "socket_peer (fst (csocket cl)) = Some (lit peer)" using socket_peer_lit by blast
  have m: "ncmp r (lit ''multipart/form-data'') 19 = Some False"
    using assms(3) ncmp_prefix [of r "lit ''multipart/form-data''" 19] by (simp add: rv form_type_def)
  have j: "ncmp r (lit ''text/json'') 9 = Some False"
    using assms(3) ncmp_prefix [of r "lit ''text/json''" 9] by (simp add: rv form_type_def)
  obtain v where v: "parse_uri_encoded (qvars ?req) (view (pre @ form_bytes b) []) (int (length pre)) = Some v" "holds_vars v (vs @ b)"
    using parse_form_onto [OF a(8) assms(4,5) _ assms(6), of "[]" pre "[]"] by auto
  have n: "notice_log ''POST %s%s %s from %s'' [AStr (view host ht), AStr (view p pt), AStr (view ct tt), AStr (lit peer)] = Some ()"
    by (simp add: notice_log_def new_str_def)
  show ?thesis
    using a(1-3,6,7) r(1) peer m j v n rv by (auto simp: post_method_def Let_def fmt_plain fmt_def new_str_def)
qed

subsection \<open>From the connection to the exit\<close>

lemma opened_page:
  assumes "wf_template parts" "wf_text t" "fdata fc0 = render parts t @ NUL # zs" "fsize fc0 = int (length (render parts t))"
    "fparsed fc0 = None" "fsize fc0 + 4 < 2 ^ 31" "length (template_parts parts t) < page_size div sizeof_parsed"
    "parse_file fc0 = Some fc"
  shows "holds_page fc parts t" "fmime fc = fmime fc0"
proof -
  obtain k where k: "length (template_parts parts t) + Suc k = page_size div sizeof_parsed"
    using assms(7) by (metis add_Suc_right less_iff_Suc_add)
  have "fc = fc0\<lparr>fparsed := Some (tsegs 0 parts t @ replicate (Suc k) zero_parsed)\<rparr>"
    using parse_template [OF assms(1-6) k] assms(8) by simp
  moreover have "length (render parts t) < 2 ^ 64" using assms(4,6) by simp
  ultimately show "holds_page fc parts t" "fmime fc = fmime fc0" using assms(3) by (auto simp: holds_page_def)
qed

text \<open>What either method sends, whose variables are \<open>vs\<close>.\<close>

definition sends_page :: "env \<Rightarrow> mime \<Rightarrow> (string \<Rightarrow> lua_val list) \<Rightarrow> template \<Rightarrow> string \<Rightarrow> string \<Rightarrow> bool" where
  "sends_page e m pr parts t out \<longleftrightarrow> (\<exists>b. out = page_head e m @ b @ early_end t \<and> encodes b (page_text pr parts t))"

lemma get_page:
  assumes "asks sc host p kvs vs msg pos cl" "whole_writes (ekw e)" "leads_to e (length kvs) host p (Some fc)" "holds_page fc parts t"
    "fmime fc = Some m" "mhandler m = Lws_Handler" "NUL \<notin> set (mtype m)" "NUL \<notin> set (edate e)"
    "only_prints e pr" "starts_with e vs"
  shows "\<exists>cl' out. get_method e cl = Some (200, cl') \<and> cresponse cl' \<noteq> None
      \<and> delivers (ekw e) (csocket cl) out (csocket cl') \<and> sends_page e m pr parts t out"
proof -
  obtain resp h where a: "csocket cl = (sc, \<lparr>sent = [], writes = 0\<rparr>)" "cresponse cl = Some resp"
    "pheaders resp = Some h" "wf_headers h" "entries h = response_fields" "nslots h = 3" "holds_vars (qvars (crequest cl)) vs"
    using assms(1) by (auto simp: asks_def)
  obtain rh where g: "get_method e cl = mimetype_handler e (Some fc) (cl\<lparr>crequest := (crequest cl)\<lparr>qheaders := Some rh\<rparr>\<rparr>)"
    using get_method_leads [OF assms(1,3)] by blast
  let ?cl = "cl\<lparr>crequest := (crequest cl)\<lparr>qheaders := Some rh\<rparr>\<rparr>"
  have c: "csocket ?cl = csocket cl" "cresponse ?cl = Some resp" "holds_vars (qvars (crequest ?cl)) vs"
    using a(2,7) by simp_all
  from mimetype_page [OF assms(2) c(2) a(3-6) assms(9,10) c(3) assms(4-8)]
  show ?thesis unfolding g c(1) sends_page_def by blast
qed

lemma dispatch_page:
  assumes "asks sc host p kvs q (pre @ form_bytes b) (int (length pre)) cl"
    "m = ''GET'' \<and> b = [] \<or> m = ''POST'' \<and> (\<exists>ct. map_of kvs ''Content-Type'' = Some ct \<and> form_type ct)"
    "wf_form b" "length q + length b \<le> 250" "b = [] \<or> \<not> isspace (hd (form_bytes b))"
    "whole_writes (ekw e)" "leads_to e (length kvs) host p (Some fc)" "holds_page fc parts t"
    "fmime fc = Some mt" "mhandler mt = Lws_Handler" "NUL \<notin> set (mtype mt)" "NUL \<notin> set (edate e)"
    "only_prints e pr" "starts_with e (q @ b)"
  shows "\<exists>cl' out. dispatch_method e (view m y) cl = Some (200, cl') \<and> cresponse cl' \<noteq> None
      \<and> delivers (ekw e) (csocket cl) out (csocket cl') \<and> sends_page e mt pr parts t out"
proof (cases "m = ''POST''")
  case False
  then have "m = ''GET''" "starts_with e q" using assms(2,14) by auto
  then show ?thesis using get_page [OF assms(1,6-13)] by (simp add: dispatch_GET)
next
  case True
  then obtain ct where ct: "map_of kvs ''Content-Type'' = Some ct" "form_type ct" using assms(2) by auto
  from post_form [OF assms(1) ct assms(3-5)] obtain v where v: "holds_vars v (q @ b)"
    "post_method e cl = get_method e (cl\<lparr>crequest := (crequest cl)\<lparr>qvars := v\<rparr>\<rparr>)" by blast
  have "asks sc host p kvs (q @ b) (pre @ form_bytes b) (int (length pre)) (cl\<lparr>crequest := (crequest cl)\<lparr>qvars := v\<rparr>\<rparr>)"
    using assms(1) v(1) by (auto simp: asks_def)
  from get_page [OF this assms(6-14)] show ?thesis by (simp add: True dispatch_POST v(2))
qed

text \<open>C2: A worker to whose connection a request for a page of fewer than 341 parts arrives (more are
  written past the array of the scanner), in a file that ends below \<open>2 ^ 31 - 4\<close>, a GET or a POST with the body of a
  form, starts the interpreter with the variables of the query string and of the body, in this
  order, however the request is cut into reads that leave the names of its fields whole, and answers with the head
  of a page and with what the page makes of them: the peer decodes the body to the texts of the
  template and what its scripts print, all of it or the part before the write that failed.  Then the
  worker exits.\<close>

theorem serve_page:
  assumes "whole_writes (ekw e)" "sbuf sc = None" "\<not> sclosed sc"
    "wf_fields kvs" "plain_length kvs"
    "map_of kvs ''Host'' = Some hf" "CHR '':'' \<notin> set host"
    "hf = host \<or> (\<exists>port. hf = host @ CHR '':'' # port \<and> port \<noteq> [] \<and> \<not> isspace (hd port))"
    "m = ''GET'' \<and> b = [] \<or> m = ''POST'' \<and> (\<exists>ct. map_of kvs ''Content-Type'' = Some ct \<and> form_type ct)"
    "word_bytes p" "CHR ''?'' \<notin> set p" "p \<noteq> []" "wf_form q" "word_bytes (form_bytes q)"
    "wf_form b" "length q + length b \<le> 250" "b = [] \<or> \<not> isspace (hd (form_bytes b))"
    "comes_in jas (request_line m p q) kvs (form_bytes b)"
    "wf_template parts" "wf_text t" "fdata fc0 = render parts t @ NUL # zs" "fsize fc0 = int (length (render parts t))"
    "fparsed fc0 = None" "fsize fc0 + 4 < 2 ^ 31" "length (template_parts parts t) < page_size div sizeof_parsed"
    "parse_file fc0 = Some fc" "leads_to e (length kvs) host p (Some fc)"
    "fmime fc0 = Some mt" "mhandler mt = Lws_Handler" "NUL \<notin> set (mtype mt)" "NUL \<notin> set (edate e)"
    "only_prints e pr" "starts_with e (q @ b)"
  shows "\<exists>cl cl' s. handle sc = Some cl \<and> run_loop e self (jas @ [(j2, as)]) cl = Some cl'
    \<and> reachable e self sc cl' \<and> cexit cl'
    \<and> delivers (ekw e) (sc, \<lparr>sent = [], writes = 0\<rparr>) (''HTTP/1.1 200 OK'' @ CRLF @ header_lines (page_fields e mt) @ CRLF @ s)
        (csocket cl')
    \<and> unchunk s = Some (page_text pr parts t, early_end t)"
proof -
  note hp = opened_page [OF assms(19-26)]
  have fm: "fmime fc = Some mt" using hp(2) assms(28) by simp
  have room: "length kvs < 250" using assms(27) by (auto simp: leads_to_def)
  let ?head = "request_head m p q kvs"
  have "\<exists>cl cl' out. handle sc = Some cl \<and> run_loop e self (jas @ [(j2, as)]) cl = Some cl'
    \<and> reachable e self sc cl' \<and> cexit cl'
    \<and> delivers (ekw e) (sc, \<lparr>sent = [], writes = 0\<rparr>) (out @ chunk []) (csocket cl') \<and> sends_page e mt pr parts t out"
  proof (rule serve_request [OF assms(1-4) room assms(5-8) _ _ assms(10-13) _ assms(14,18)])
    fix cl y assume "asks sc host p kvs q (?head @ form_bytes b) (int (length ?head)) cl"
    from dispatch_page [OF this assms(9,15-17,1,27) hp(1) fm assms(29-33)]
    show "\<exists>cl' out. dispatch_method e (view m y) cl = Some (200, cl')
      \<and> cresponse cl' \<noteq> None \<and> delivers (ekw e) (csocket cl) out (csocket cl') \<and> sends_page e mt pr parts t out" .
  qed (use assms(9,16) in \<open>auto simp: word_bytes_def isspace_def\<close>)
  then obtain cl cl' bs where r: "handle sc = Some cl" "run_loop e self (jas @ [(j2, as)]) cl = Some cl'"
    "reachable e self sc cl'" "cexit cl'" "delivers (ekw e) (sc, \<lparr>sent = [], writes = 0\<rparr>) ((page_head e mt @ bs @ early_end t) @ chunk []) (csocket cl')"
    "encodes bs (page_text pr parts t)" unfolding sends_page_def by blast
  have "delivers (ekw e) (sc, \<lparr>sent = [], writes = 0\<rparr>) (''HTTP/1.1 200 OK'' @ CRLF @ header_lines (page_fields e mt) @ CRLF
      @ bs @ early_end t @ chunk []) (csocket cl')"
    using r(5) by (simp add: page_head_eq)
  with r(1-4) encodes_page_end [OF r(6), of t] show ?thesis by blast
qed

text \<open>A form that posts \<^verbatim>\<open>x=2\<close> to \<^verbatim>\<open>/a.lws?u=1\<close>, whose script prints the second variable.\<close>

definition form_page :: file_cache where
  "form_page = sample_template\<lparr>fname := ''/srv/a.org/a.lws'' @ [NUL],
     fmime := Some \<lparr>ending = ''lws'', mtype = ''text/html'', mhandler = Lws_Handler\<rparr>\<rparr>"

definition form_env :: "file_cache \<Rightarrow> env" where
  "form_env fc = sample_env\<lparr>efiles := [Some fc], estat := (\<lambda>n. Some S_IFREG),
     estart := (\<lambda>g cl. if map (\<lambda>(k, v). (chars_of k, chars_of v)) g = [(''u'', ''1''), (''x'', ''2'')] then Some cl else None),
     escript := (\<lambda>code cl. do { (_, cl) \<leftarrow> PrintLua sample_env [LString ''2''] cl; Some (Done, cl) })\<rparr>"

lemma form_env_simps [simp]:
  "ekw (form_env fc) = ekw sample_env" "ecwd (form_env fc) = lit ''/srv''" "edate (form_env fc) = ''now''"
  "efiles (form_env fc) = [Some fc]" "estat (form_env fc) n = Some S_IFREG"
  by (simp_all add: form_env_def sample_env_def)

lemma form_env_prints: "only_prints (form_env fc) (\<lambda>_. [LString ''2''])"
proof -
  have "print_loop (form_env fc) vs cl = print_loop sample_env vs cl" for vs cl
    by (induction vs arbitrary: cl) simp_all
  then show ?thesis by (simp add: only_prints_def PrintLua_def) (simp add: form_env_def PrintLua_def)
qed

abbreviation form_fields_sent :: "(string \<times> string) list" where
  "form_fields_sent \<equiv> [(''Host'', ''a.org''), (''Content-Type'', ''application/x-www-form-urlencoded''), (''Content-Length'', ''3'')]"

text \<open>The form comes in four reads: the first ends inside the value of a field, the second in the body.\<close>

definition form_line :: string where
  "form_line = request_line ''POST'' ''/a.lws'' [(''u'', ''1'')]"

definition form_pieces :: "string list" where
  "form_pieces = [form_line @ CRLF @ header_lines (take 1 form_fields_sent) @ ''Content-Type: application/x-www'',
     ''-form-urlencoded'' @ CRLF @ header_lines (drop 2 form_fields_sent) @ CRLF, ''x'', ''=2'']"

definition form_reads :: "(reg \<times> answer list) list" where
  "form_reads = [(0, [Data (form_pieces ! 0), Again]), (0, [Data (form_pieces ! 1), Again]), (0, [Data ''x'', Again]),
     (0, [Data ''=2'', Zero])]"

lemma form_comes: "comes_in form_reads form_line form_fields_sent (form_bytes [(''x'', ''2'')])"
proof -
  have a: "announced form_fields_sent = 3" by (simp add: announced_def is_digit_def byte_simps numeral_value_def)
  have "length (form_pieces ! 0) \<le> 4000" "length (form_pieces ! 1) \<le> 4000"
    by (simp_all add: form_pieces_def form_line_def request_line_def target_def header_lines_def header_line_def)
  note d = this [THEN arrives_Data]
  have "arrives [Data ''=2'', Zero] ''=2''"
    unfolding arrives_def by (intro exI [of _ "[''=2'']"]) simp
  with d have "list_all2 (\<lambda>ja x. arrives (snd ja) x) form_reads form_pieces"
    using arrives_Data [of "''x''"] by (simp add: form_reads_def) (simp add: form_pieces_def)
  moreover have "concat form_pieces = (form_line @ CRLF @ header_lines form_fields_sent @ CRLF) @ form_bytes [(''x'', ''2'')]"
    by (simp add: form_pieces_def header_lines_def header_line_def)
  moreover have "may_pause form_line form_fields_sent (concat (take i form_pieces))" if "0 < i" "i < 4" for i
  proof -
    consider "i = 1" | "i = 2" | "i = 3" using \<open>0 < i\<close> \<open>i < 4\<close> by linarith
    then show ?thesis
    proof cases
      case 1
      then show ?thesis unfolding may_pause_def partial_head_def by (intro disjI1 exI [of _ 1] exI [of _ "''Content-Type: application/x-www''"])
          (simp add: form_pieces_def)
    next
      case 2
      then show ?thesis unfolding may_pause_def a by (intro disjI2 exI [of _ "[]"]) (simp add: form_pieces_def header_lines_def header_line_def)
    next
      case 3
      then show ?thesis unfolding may_pause_def a
        by (intro disjI2 exI [of _ "''x''"]) (simp add: form_pieces_def header_lines_def header_line_def numeral_3_eq_3)
    qed
  qed
  moreover have "length form_pieces = 4" "form_pieces \<noteq> []" by (simp_all add: form_pieces_def)
  ultimately show ?thesis unfolding comes_in_def by (intro exI [of _ form_pieces]) (simp add: a)
qed

theorem serve_page_witness:
  "\<exists>fc cl cl' s. parse_file form_page = Some fc \<and> handle (create_socket 5 False \<lparr>sin_addr = 1, sin_port = 80\<rparr>) = Some cl
    \<and> run_loop (form_env fc) 0 (form_reads @ [(0, [])]) cl = Some cl' \<and> cexit cl'
    \<and> sent (snd (csocket cl')) = ''HTTP/1.1 200 OK'' @ CRLF
        @ header_lines (page_fields (form_env fc) \<lparr>ending = ''lws'', mtype = ''text/html'', mhandler = Lws_Handler\<rparr>) @ CRLF @ s
    \<and> unchunk s = Some (''<h1>2</h1>'', [])"
proof -
  let ?sc = "create_socket 5 False \<lparr>sin_addr = 1, sin_port = 80\<rparr>" and ?parts = "[(''<h1>'', CHR '' '', ''print(1) '')]"
  let ?m = "\<lparr>ending = ''lws'', mtype = ''text/html'', mhandler = Lws_Handler\<rparr>"
  have wf: "wf_template ?parts" "wf_text ''</h1>''"
    by (simp_all add: wf_template_def wf_text_def isspace_def sublist_Cons_right)
  have f: "fdata form_page = render ?parts ''</h1>'' @ NUL # []" "fsize form_page = int (length (render ?parts ''</h1>''))"
    "fparsed form_page = None" "fsize form_page + 4 < 2 ^ 31"
    "length (template_parts ?parts ''</h1>'') < page_size div sizeof_parsed" "fmime form_page = Some ?m"
    by (simp_all add: form_page_def sample_template_def page_size_def sizeof_parsed_def)
  have "length (template_parts ?parts ''</h1>'') + 338 = page_size div sizeof_parsed"
    by (simp add: page_size_def sizeof_parsed_def)
  from parse_template [OF wf f(1-4) this] obtain fc where fc: "parse_file form_page = Some fc"
    "fc = form_page\<lparr>fparsed := Some (tsegs 0 ?parts ''</h1>'' @ replicate 338 zero_parsed)\<rparr>" by blast
  have c: "leads_to (form_env fc) (length form_fields_sent) ''a.org'' ''/a.lws'' (Some fc)"
    unfolding leads_to_def
    by (intro exI [of _ "''/srv''"] exI [of _ "[NUL]"] exI [of _ "[fc]"])
      (simp add: site_def token_field_def site_token_def site_path_def site_file_def site_names_def is_dir_def is_reg_def
        S_IFDIR_def S_IFREG_def S_IFLNK_def fc(2) form_page_def file_name_def)
  have st: "starts_with (form_env fc) ([(''u'', ''1'')] @ [(''x'', ''2'')])"
    by (simp add: starts_with_def form_env_def)
  note come = form_comes [unfolded form_line_def]
  have "\<exists>cl cl' s. handle ?sc = Some cl \<and> run_loop (form_env fc) 0 (form_reads @ [(0, [])]) cl = Some cl'
    \<and> reachable (form_env fc) 0 ?sc cl' \<and> cexit cl'
    \<and> delivers (ekw (form_env fc)) (?sc, \<lparr>sent = [], writes = 0\<rparr>)
        (''HTTP/1.1 200 OK'' @ CRLF @ header_lines (page_fields (form_env fc) ?m) @ CRLF @ s) (csocket cl')
    \<and> unchunk s = Some (page_text (\<lambda>_. [LString ''2'']) ?parts ''</h1>'', early_end ''</h1>'')"
    by (rule serve_page [OF _ _ _ _ _ _ _ _ _ _ _ _ _ _ _ _ _ come wf f(1-5) fc(1) c f(6) _ _ _ form_env_prints st,
          where hf = "''a.org''"])
      (simp_all add: create_socket_def resume_socket_def wf_fields_def wf_key_def wf_value_def isspace_def plain_length_def
        is_digit_def byte_simps numeral_value_def form_type_def word_bytes_def wf_form_def)
  then obtain cl cl' s where w: "handle ?sc = Some cl" "run_loop (form_env fc) 0 (form_reads @ [(0, [])]) cl = Some cl'" "cexit cl'"
    "delivers (ekw (form_env fc)) (?sc, \<lparr>sent = [], writes = 0\<rparr>)
        (''HTTP/1.1 200 OK'' @ CRLF @ header_lines (page_fields (form_env fc) ?m) @ CRLF @ s) (csocket cl')"
    "unchunk s = Some (page_text (\<lambda>_. [LString ''2'']) ?parts ''</h1>'', early_end ''</h1>'')" by blast
  have "complete (ekw (form_env fc))" "\<not> sclosed ?sc" by (simp_all add: create_socket_def resume_socket_def)
  from delivers_complete [OF this w(4)] obtain n where "csocket cl' = (?sc, \<lparr>sent = []
    @ ''HTTP/1.1 200 OK'' @ CRLF @ header_lines (page_fields (form_env fc) ?m) @ CRLF @ s, writes = n\<rparr>)"
    unfolding wire.simps .
  moreover have "page_text (\<lambda>_. [LString ''2'']) ?parts ''</h1>'' = ''<h1>2</h1>''" "early_end ''</h1>'' = []"
    by (simp_all add: page_text_def part_text_def early_end_def)
  ultimately show ?thesis using w(1-3,5) fc(1)
    by (intro exI [of _ fc] exI [of _ cl] exI [of _ cl'] exI [of _ s]) simp
qed

end
