(* ===== verification/Serve_Error.thy ===== *)
theory Serve_Error
  imports Get_Props
begin

section \<open>The answer to a request that fails\<close>

text \<open>
  The dispatch of a method, whose name is compared without regard to case, and what a client gets
  that asks with a method that is not implemented, with one that does not exist, or for a file that
  is not there.
\<close>

subsection \<open>Methods\<close>

lemma strncase_eq_whole:
  "length m = length n \<Longrightarrow> NUL \<notin> set m \<Longrightarrow> strncase_eq (m @ ys) n = Some (map tolower n = map tolower m)"
  by (induction m n rule: list_induct2) auto

text \<open>The method that a name stands for.\<close>

definition named_method :: "string \<Rightarrow> http_method option" where
  "named_method m = map_option snd (List.find (\<lambda>(n, k). map tolower n = map tolower m) gdispatch)"

lemma find_method_eq:
  assumes "NUL \<notin> set m" "view m ys = Some v"
  shows "find_method v gdispatch = Some (List.find (\<lambda>(n, k). map tolower n = map tolower m) gdispatch)"
proof (rule method_search.look_find)
  fix x :: "string \<times> http_method"
  have "length (fst x) \<noteq> length m \<Longrightarrow> map tolower (fst x) \<noteq> map tolower m" by (metis length_map)
  then show "method_test v x = Some (case x of (n, k) \<Rightarrow> map tolower n = map tolower m)"
    using assms strncase_eq_whole [of m "fst x" ys] by (auto simp: method_test_def view_def)
qed

lemma log_bad_request: "error_log ''Bad request: %s'' [AStr (view m ys)] = Some ()"
  by (simp add: error_log_def new_str_def)

lemma dispatch_named:
  assumes "NUL \<notin> set m"
  shows "dispatch_method e (view m ys) cl = (case named_method m of
     None \<Rightarrow> error_handler e 400 cl
   | Some GET \<Rightarrow> get_method e cl
   | Some POST \<Rightarrow> post_method e cl
   | Some _ \<Rightarrow> error_handler e 405 cl)"
proof -
  obtain v where v: "view m ys = Some v" by (simp add: view_def)
  let ?f = "List.find (\<lambda>(n, k). map tolower n = map tolower m) gdispatch"
  have "dispatch_method e (view m ys) cl = (case ?f of
            Some (_, GET) \<Rightarrow> get_method e cl
          | Some (_, POST) \<Rightarrow> post_method e cl
          | Some _ \<Rightarrow> not_implemented e cl
          | None \<Rightarrow> error_handler e 400 cl)"
    using find_method_eq [OF assms v] log_bad_request [of m ys] by (simp add: dispatch_method_def v)
  also have "\<dots> = (case map_option snd ?f of None \<Rightarrow> error_handler e 400 cl | Some GET \<Rightarrow> get_method e cl
     | Some POST \<Rightarrow> post_method e cl | Some _ \<Rightarrow> error_handler e 405 cl)"
    by (cases ?f) (auto simp: not_implemented_def split: http_method.split)
  finally show ?thesis by (simp add: named_method_def)
qed

subsection \<open>Errors\<close>

text \<open>No file has the name of the directory of the error pages.\<close>

definition no_error_page :: "env \<Rightarrow> bool" where
  "no_error_page e \<longleftrightarrow> (\<exists>wd wt fcs. ecwd e = view wd wt \<and> efiles e = map Some fcs
     \<and> List.find (\<lambda>fc. file_name fc = wd @ ''/errors'') fcs = None)"

text \<open>How a request with \<open>n\<close> fields fails.\<close>

definition fails_with :: "env \<Rightarrow> nat \<Rightarrow> string \<Rightarrow> string \<Rightarrow> string \<Rightarrow> int \<Rightarrow> bool" where
  "fails_with e n host m p code \<longleftrightarrow> (case named_method m of
     None \<Rightarrow> code = 400
   | Some GET \<Rightarrow> code = 404 \<and> leads_to e n host p None
   | Some POST \<Rightarrow> False
   | Some _ \<Rightarrow> code = 405)"

definition error_answer :: "int \<Rightarrow> string" where
  "error_answer code = (if code = 405 then []
     else ''HTTP/1.1 '' @ (if code = 404 then ''404 Not Found'' else ''400 Bad Request'') @ CRLF
       @ header_lines response_fields @ CRLF)"

lemma error_handler_delivers:
  assumes "whole_writes (ekw e)" "cresponse cl = Some resp"
    "pheaders resp = Some h" "wf_headers h" "entries h = response_fields" "no_error_page e" "code \<in> {400, 404, 405}"
  shows "\<exists>cl'. error_handler e code cl = Some (code, cl') \<and> cresponse cl' \<noteq> None
    \<and> delivers (ekw e) (csocket cl) (error_answer code) (csocket cl')"
proof -
  obtain wd wt fcs where e: "ecwd e = view wd wt" "efiles e = map Some fcs"
    "List.find (\<lambda>fc. file_name fc = wd @ ''/errors'') fcs = None"
    using assms(6) by (auto simp: no_error_page_def)
  note eh = error_pages [OF e, of code cl, THEN conjunct1]
  obtain c' where s: "send_head e code cl = Some (cl\<lparr>csocket := c'\<rparr>)" "delivers (ekw e) (csocket cl)
      ((''HTTP/1.1 '' @ reason (status_of code)) @ header_lines response_fields @ CRLF) c'"
    using send_head_delivers [OF assms(1-4), of code] unfolding assms(5) .
  show ?thesis
  proof (cases "code = 405")
    case True
    then have "error_handler e code cl = Some (code, cl)" using error_pages [OF e, of code cl, THEN conjunct2] by simp
    then show ?thesis using assms(2) True by (simp add: error_answer_def)
  next
    case False
    with assms(7) have f: "sfilename (status_of code) \<noteq> None"
      and r: "(''HTTP/1.1 '' @ reason (status_of code)) @ header_lines response_fields @ CRLF = error_answer code"
      by (auto simp: status_of_def stati_def error_answer_def)
    have "error_handler e code cl = Some (code, cl\<lparr>csocket := c'\<rparr>)"
      using s(1) f unfolding eh by (simp only: if_False option.map)
    then show ?thesis using s(2) assms(2) unfolding r by simp
  qed
qed

lemma dispatch_fails:
  assumes "asks sc host p kvs vs msg pos cl" "whole_writes (ekw e)" "no_error_page e"
    "NUL \<notin> set m" "fails_with e (length kvs) host m p code"
  shows "\<exists>cl'. dispatch_method e (view m ys) cl = Some (code, cl') \<and> cresponse cl' \<noteq> None
    \<and> delivers (ekw e) (csocket cl) (error_answer code) (csocket cl')"
proof -
  obtain resp h where a: "cresponse cl = Some resp" "pheaders resp = Some h" "wf_headers h" "entries h = response_fields"
    using assms(1) by (auto simp: asks_def)
  have code: "code \<in> {400, 404, 405}"
    using assms(5) by (auto simp: fails_with_def split: option.splits http_method.splits)
  show ?thesis
  proof (cases "named_method m = Some GET")
    case True
    with assms(5) have l: "leads_to e (length kvs) host p None" "code = 404" by (auto simp: fails_with_def)
    obtain rh where g: "get_method e cl = mimetype_handler e None (cl\<lparr>crequest := (crequest cl)\<lparr>qheaders := Some rh\<rparr>\<rparr>)"
      using get_method_leads [OF assms(1) l(1)] by blast
    let ?cl = "cl\<lparr>crequest := (crequest cl)\<lparr>qheaders := Some rh\<rparr>\<rparr>"
    have c: "csocket ?cl = csocket cl" "cresponse ?cl = Some resp" using a(1) by simp_all
    have "dispatch_method e (view m ys) cl = error_handler e code ?cl"
      using True l(2) by (simp add: dispatch_named [OF assms(4)] g mimetype_handler_def error_log_def new_str_def)
    then show ?thesis using error_handler_delivers [OF assms(2) c(2) a(2-4) assms(3) code] unfolding c(1) by simp
  next
    case False
    with assms(5) have "dispatch_method e (view m ys) cl = error_handler e code cl"
      by (auto simp: fails_with_def dispatch_named [OF assms(4)] split: option.splits http_method.splits)
    then show ?thesis using error_handler_delivers [OF assms(2) a assms(3) code] by simp
  qed
qed

subsection \<open>From the connection to the exit\<close>

text \<open>C3: A client that asks for a file that is not there gets a head with the status 404 and an empty
  body, without the page that the status table names; one that uses a method that the server does
  not know gets the same with 400; and one that uses a method that is not implemented gets no head
  at all, only the end of a chunked body; or the part of it before the write that failed.  Then the
  worker exits.\<close>

theorem serve_error:
  assumes "whole_writes (ekw e)" "sbuf sc = None" "\<not> sclosed sc"
    "wf_fields kvs" "length kvs < 250" "plain_length kvs"
    "map_of kvs ''Host'' = Some field" "CHR '':'' \<notin> set host"
    "field = host \<or> (\<exists>port. field = host @ CHR '':'' # port \<and> port \<noteq> [] \<and> \<not> isspace (hd port))"
    "word_bytes m" "m \<noteq> []" "word_bytes p" "CHR ''?'' \<notin> set p" "p \<noteq> []"
    "wf_form vs" "length vs \<le> 250" "word_bytes (form_bytes vs)"
    "comes_in jas (request_line m p vs) kvs body"
    "no_error_page e" "fails_with e (length kvs) host m p code"
  shows "\<exists>cl cl'. handle sc = Some cl \<and> run_loop e self (jas @ [(j2, as)]) cl = Some cl'
    \<and> reachable e self sc cl' \<and> cexit cl'
    \<and> delivers (ekw e) (sc, \<lparr>sent = [], writes = 0\<rparr>) (error_answer code @ ''0'' @ CRLF @ CRLF) (csocket cl')"
proof -
  have m: "NUL \<notin> set m" using assms(10) by (auto simp: word_bytes_def)
  have "\<exists>cl cl' out. handle sc = Some cl \<and> run_loop e self (jas @ [(j2, as)]) cl = Some cl'
    \<and> reachable e self sc cl' \<and> cexit cl'
    \<and> delivers (ekw e) (sc, \<lparr>sent = [], writes = 0\<rparr>) (out @ chunk []) (csocket cl') \<and> out = error_answer code"
    by (rule serve_request [OF assms(1-18)]) (use dispatch_fails [OF _ assms(1,19) m assms(20)] in blast)
  moreover have "chunk [] = ''0'' @ CRLF @ CRLF" by code_simp
  ultimately show ?thesis by metis
qed

theorem serve_error_witness:
  "\<exists>cl cl'. handle (create_socket 5 False \<lparr>sin_addr = 1, sin_port = 80\<rparr>) = Some cl
    \<and> run_loop (sample_env\<lparr>efiles := []\<rparr>) 0 ([(0, [Data (request_line ''GET'' ''/x'' [] @ CRLF @ header_lines [(''Host'', ''a.org'')] @ CRLF @ []), Again])] @ [(0, [])]) cl = Some cl'
    \<and> cexit cl' \<and> sent (snd (csocket cl'))
      = ''HTTP/1.1 404 Not Found'' @ CRLF @ header_lines response_fields @ CRLF @ ''0'' @ CRLF @ CRLF"
proof -
  let ?e = "sample_env\<lparr>efiles := []\<rparr>" and ?sc = "create_socket 5 False \<lparr>sin_addr = 1, sin_port = 80\<rparr>"
  have w: "ecwd ?e = view ''/srv'' [NUL]" by (simp add: sample_env_def)
  have n: "no_error_page ?e"
    unfolding no_error_page_def using w by (intro exI [of _ "''/srv''"] exI [of _ "[NUL]"] exI [of _ "[]"]) simp
  have none: "site_file ?e ''/srv'' [] ''a.org'' ''/x'' = None"
  proof -
    have "first_cached [] ns = None" for ns by (induction ns) simp_all
    then show ?thesis by (simp add: site_file_def)
  qed
  have "length (token_field ?e wd host p) \<le> 1" for wd host p
    by (simp add: token_field_def split: option.split)
  from this [of "''/srv''" "''a.org''" "''/x''"] have "1 + length (token_field ?e ''/srv'' ''a.org'' ''/x'') < 250" by linarith
  then have l: "leads_to ?e 1 ''a.org'' ''/x'' None"
    unfolding leads_to_def using w none by (intro exI [of _ "''/srv''"] exI [of _ "[NUL]"] exI [of _ "[]"]) (simp add: site_def)
  have "named_method ''GET'' = Some GET" by (simp add: named_method_def gdispatch_def)
  with l have f: "fails_with ?e (length [(''Host'', ''a.org'')]) ''a.org'' ''GET'' ''/x'' 404" by (simp add: fails_with_def)
  let ?jas = "[(0, [Data (request_line ''GET'' ''/x'' [] @ CRLF @ header_lines [(''Host'', ''a.org'')] @ CRLF @ []), Again])]"
  have "length (request_line ''GET'' ''/x'' [] @ CRLF @ header_lines [(''Host'', ''a.org'')] @ CRLF @ []) \<le> 4000"
    by (simp add: request_line_def target_def header_lines_def header_line_def)
  from comes_at_once [OF arrives_Data [OF this]] have come:
    "comes_in ?jas (request_line ''GET'' ''/x'' []) [(''Host'', ''a.org'')] []"
    by (simp add: announced_def)
  have "\<exists>cl cl'. handle ?sc = Some cl
    \<and> run_loop ?e 0 (?jas @ [(0, [])]) cl = Some cl'
    \<and> reachable ?e 0 ?sc cl' \<and> cexit cl'
    \<and> delivers (ekw ?e) (?sc, \<lparr>sent = [], writes = 0\<rparr>) (error_answer 404 @ ''0'' @ CRLF @ CRLF) (csocket cl')"
    by (rule serve_error [OF _ _ _ _ _ _ _ _ _ _ _ _ _ _ _ _ _ come n f, where field = "''a.org''"])
      (simp_all add: create_socket_def resume_socket_def wf_fields_def wf_key_def wf_value_def plain_length_def
        word_bytes_def isspace_def whole_writes_def sample_env_def wf_form_def)
  then obtain cl cl' where w: "handle ?sc = Some cl" "run_loop ?e 0 (?jas @ [(0, [])]) cl = Some cl'" "cexit cl'"
    "delivers (ekw ?e) (?sc, \<lparr>sent = [], writes = 0\<rparr>) (error_answer 404 @ ''0'' @ CRLF @ CRLF) (csocket cl')" by blast
  have "complete (ekw ?e)" "\<not> sclosed ?sc" by (simp_all add: create_socket_def resume_socket_def)
  from delivers_complete [OF this w(4)] obtain n where
    "csocket cl' = (?sc, \<lparr>sent = [] @ error_answer 404 @ ''0'' @ CRLF @ CRLF, writes = n\<rparr>)" unfolding wire.simps .
  with w(1-3) show ?thesis by (intro exI [of _ cl] exI [of _ cl']) (simp add: error_answer_def)
qed

end
