(* ===== verification/Page_Safe.thy ===== *)
theory Page_Safe
  imports Page_Props
begin

section \<open>Any file can be a page\<close>

text \<open>
  The template scanner on arbitrary bytes, not only on what an author meant as a template: whatever
  a file without NUL bytes holds, its segments are texts and scripts inside the file and an entry of
  kind 0 ends them, so that the evaluation of the page reads nothing outside and comes to an end.
  The segments are typed as the evaluation needs them; the scanner keeps to the type, and a typed
  array makes progress.
\<close>

subsection \<open>Typed segments\<close>

definition seg_ok :: "int \<Rightarrow> parsed \<Rightarrow> bool" where
  "seg_ok sz p \<longleftrightarrow> (pkind p = TEXT \<or> pkind p = SCRIPT) \<and> 0 \<le> poffset p \<and> 0 \<le> plength p \<and> poffset p + plength p \<le> sz"

fun typed_segments :: "int \<Rightarrow> parsed list \<Rightarrow> bool" where
  "typed_segments sz [] = False"
| "typed_segments sz (p # ps) = (pkind p = END \<or> seg_ok sz p \<and> typed_segments sz ps)"

text \<open>The array while it is filled: \<open>i\<close> segments, and cleared entries behind them.\<close>

definition filling :: "int \<Rightarrow> int \<Rightarrow> parsed list \<Rightarrow> bool" where
  "filling sz i ps \<longleftrightarrow> 0 \<le> i \<and> length ps = page_size div sizeof_parsed
     \<and> list_all (seg_ok sz) (take (nat i) ps) \<and> list_all (\<lambda>p. pkind p = END) (drop (nat i) ps)"

lemma typed_append:
  "list_all (seg_ok sz) xs \<Longrightarrow> typed_segments sz (xs @ ps) \<longleftrightarrow> typed_segments sz ps"
  by (induction xs) (auto simp: seg_ok_def)

lemma filling_typed:
  assumes "filling sz i ps" "i < int (page_size div sizeof_parsed)"
  shows "typed_segments sz ps"
proof -
  have "nat i < length ps" using assms unfolding filling_def by linarith
  then obtain q qs where q: "drop (nat i) ps = q # qs" using Cons_nth_drop_Suc by metis
  then have "typed_segments sz (drop (nat i) ps)" using assms(1) by (simp add: filling_def)
  then show ?thesis
    using typed_append [of sz "take (nat i) ps" "drop (nat i) ps"] assms(1) by (simp add: filling_def)
qed

lemma mark_filling:
  assumes "filling sz i ps" "i < int (page_size div sizeof_parsed)" "seg_ok sz \<lparr>pkind = t, poffset = off, plength = l\<rparr>"
  shows "\<exists>qs. mark_file ps i t off l = Some (i + 1, qs) \<and> filling sz (i + 1) qs"
proof -
  let ?p = "\<lparr>pkind = t, poffset = off, plength = l\<rparr>"
  have i: "nat i < length ps" "0 \<le> i" "i < int (length ps)" "nat (i + 1) = Suc (nat i)" using assms(1,2) by (auto simp: filling_def)
  have "take (Suc (nat i)) (ps[nat i := ?p]) = take (nat i) ps @ [?p]"
    using i(1) by (simp add: take_Suc_conv_app_nth)
  moreover have "drop (Suc (nat i)) (ps[nat i := ?p]) = drop 1 (drop (nat i) ps)" by simp
  moreover have "list_all (\<lambda>p. pkind p = END) (drop 1 xs)" if "list_all (\<lambda>p. pkind p = END) xs" for xs :: "parsed list"
    using that by (cases xs) simp_all
  ultimately have "filling sz (i + 1) (ps[nat i := ?p])"
    using assms(1,3) i by (simp add: filling_def del: drop_drop)
  then show ?thesis using i(2,3) by (simp add: mark_file_def)
qed

subsection \<open>Reads stay in the file\<close>

text \<open>A mapping of \<open>sz\<close> bytes, none of them NUL, with a zero behind them.\<close>

definition nul_ended :: "string \<Rightarrow> int \<Rightarrow> bool" where
  "nul_ended d sz \<longleftrightarrow> 0 \<le> sz \<and> sz < int (length d) \<and> d ! nat sz = NUL \<and> NUL \<notin> set (take (nat sz) d)"

lemma nul_ended_peek:
  assumes "nul_ended d sz" "0 \<le> i" "i \<le> sz"
  shows "\<exists>c. peek d i = Some c \<and> (c = NUL \<longleftrightarrow> i = sz)"
proof (cases "i = sz")
  case False
  then have "nat i < length (take (nat sz) d)" "nat i < nat sz" using assms by (auto simp: nul_ended_def)
  then have "d ! nat i \<noteq> NUL" using assms(1) nth_mem [of "nat i" "take (nat sz) d"] by (auto simp: nul_ended_def)
  then show ?thesis using assms False by (simp add: nul_ended_def)
qed (use assms in \<open>simp add: nul_ended_def\<close>)

lemma nul_ended_strn_eq:
  assumes "nul_ended d sz" "0 \<le> i" "i \<le> sz" "NUL \<notin> set pat"
  shows "\<exists>b. strn_eq d i pat = Some b \<and> (b \<longrightarrow> i + int (length pat) \<le> sz)"
  using assms
proof (induction pat arbitrary: i)
  case (Cons c pat)
  obtain x where x: "peek d i = Some x" "x = NUL \<longleftrightarrow> i = sz" using nul_ended_peek [OF Cons.prems(1-3)] by blast
  show ?case
  proof (cases "x = c")
    case True
    then have "i + 1 \<le> sz" using x(2) Cons.prems by auto
    with Cons.IH [of "i + 1"] Cons.prems obtain b where "strn_eq d (i + 1) pat = Some b"
      "b \<longrightarrow> i + 1 + int (length pat) \<le> sz" by auto
    then show ?thesis using x(1) True by (simp add: add.assoc)
  qed (use x in auto)
qed auto

lemma nul_ended_seek:
  assumes "nul_ended d sz" "0 \<le> off" "0 \<le> l" "off + l + 3 < 2 ^ 31" "sz < 2 ^ 31"
  shows "\<exists>m. seek_end d sz off 0 l = Some m \<and> l \<le> m \<and> (m = l \<or> off + m + 3 \<le> sz)
    \<and> (off + m + 3 < sz \<longrightarrow> off + m + 5 \<le> sz)"
  using assms
proof (induction "nat (sz - (off + l + 3))" arbitrary: l rule: less_induct)
  case less
  show ?case
  proof (cases "off + l + 3 < sz")
    case True
    obtain b where b: "strn_eq d (off + l + 3) ''?>'' = Some b" "b \<longrightarrow> off + l + 3 + int (length ''?>'') \<le> sz"
      using nul_ended_strn_eq [OF less.prems(1), of "off + l + 3" "''?>''"] less.prems True by auto
    have s: "seek_end d sz off 0 l = (if b then Some l else seek_end d sz off 0 (l + 1))"
      using True b(1) less.prems by (subst seek_end_int) (simp_all del: strn_eq.simps)
    show ?thesis
    proof (cases b)
      case False
      obtain m where "seek_end d sz off 0 (l + 1) = Some m" "l + 1 \<le> m" "m = l + 1 \<or> off + m + 3 \<le> sz"
        "off + m + 3 < sz \<longrightarrow> off + m + 5 \<le> sz"
        using less.hyps [of "l + 1"] less.prems True by auto
      then show ?thesis using s False True by auto
    qed (use s b(2) in auto)
  qed (use less.prems in \<open>subst seek_end_int, simp_all\<close>)
qed

subsection \<open>The scanner keeps to the type\<close>

text \<open>The number of openings of a script.\<close>

fun script_marks :: "string \<Rightarrow> nat" where
  "script_marks [] = 0"
| "script_marks [c] = 0"
| "script_marks (c # b # s) = (if c = CHR ''<'' \<and> b = CHR ''?'' then 1 else 0) + script_marks (b # s)"

lemma script_marks_Cons: "script_marks s \<le> script_marks (c # s)"
  by (cases s) simp_all

lemma script_marks_drop: "m \<le> n \<Longrightarrow> script_marks (drop n s) \<le> script_marks (drop m s)"
proof (induction n arbitrary: m)
  case (Suc n)
  have "script_marks (drop (Suc n) s) \<le> script_marks (drop n s)"
    using script_marks_Cons [of "drop (Suc n) s" "s ! n"] by (cases "n < length s") (simp_all add: Cons_nth_drop_Suc)
  then show ?case using Suc by (cases "m = Suc n") (auto intro: order_trans)
qed simp

definition marks_at :: "string \<Rightarrow> int \<Rightarrow> int \<Rightarrow> int" where
  "marks_at d sz off = int (script_marks (drop (nat off) (take (nat sz) d)))"

lemma marks_at_mono: "off \<le> o2 \<Longrightarrow> marks_at d sz o2 \<le> marks_at d sz off"
  unfolding marks_at_def by (simp add: script_marks_drop nat_mono)

lemma marks_at_mark:
  assumes "nul_ended d sz" "0 \<le> off" "off + 2 \<le> sz" "strn_eq d off ''<?'' = Some True" "off < o2"
  shows "marks_at d sz o2 + 1 \<le> marks_at d sz off"
proof -
  let ?t = "take (nat sz) d"
  have l: "nat off + 1 < length ?t" "nat off + 1 < length d" "nat off + 1 < nat sz" using assms(1-3) by (auto simp: nul_ended_def)
  have c: "d ! nat off = CHR ''<''" "d ! (nat off + 1) = CHR ''?''"
    using assms(2,4) l by (auto simp: peek_def nat_add_distrib split: if_splits)
  have "drop (nat off) ?t = ?t ! nat off # drop (nat off + 1) ?t"
    "drop (nat off + 1) ?t = ?t ! (nat off + 1) # drop (nat off + 2) ?t"
    using l(1) Cons_nth_drop_Suc [of "nat off" ?t, symmetric] Cons_nth_drop_Suc [of "nat off + 1" ?t, symmetric]
    by (simp_all only: Suc_eq_plus1 add_lessD1 add.assoc one_add_one)
  then have "drop (nat off) ?t = CHR ''<'' # CHR ''?'' # drop (nat off + 2) ?t"
    using nth_take [OF Suc_lessD, of "nat off" "nat sz" d] nth_take [OF l(3), of d] l(3) c by simp
  moreover from this have "drop (nat (off + 1)) ?t = CHR ''?'' # drop (nat off + 2) ?t"
    using assms(2) by (metis Suc_eq_plus1 drop_Suc list.sel(3) nat_add_distrib nat_one_as_int tl_drop zero_le_one)
  ultimately have "marks_at d sz off = marks_at d sz (off + 1) + 1" by (simp add: marks_at_def)
  then show ?thesis using marks_at_mono [of "off + 1" o2 d sz] assms(5) by simp
qed

lemma step_keeps_type:
  assumes "nul_ended d sz" "0 \<le> off" "off < sz" "0 \<le> l" "l \<le> sz" "filling sz i ps"
    "i + 2 * marks_at d sz off + 1 < int (page_size div sizeof_parsed)" "sz + 4 < 2 ^ 31"
  shows "\<exists>o2 l2 i2 qs. parse_file_step d sz off l i ps = Some (o2, l2, i2, qs) \<and> off \<le> o2 \<and> o2 < sz \<and> 0 \<le> l2 \<and> l2 \<le> sz
    \<and> filling sz i2 qs \<and> i2 + 2 * marks_at d sz (o2 + 1) + 1 < int (page_size div sizeof_parsed)"
proof -
  obtain b where b: "strn_eq d off ''<?'' = Some b" "b \<longrightarrow> off + int (length ''<?'') \<le> sz"
    using nul_ended_strn_eq [OF assms(1,2), of "''<?''"] assms(3) by auto
  have plain: ?thesis if "parse_file_step d sz off l i ps = Some (off, l, i, ps)"
    using that assms marks_at_mono [of off "off + 1" d sz] by auto
  show ?thesis
  proof (cases b)
    case False
    then show ?thesis using b(1) by (intro plain) (simp add: parse_file_step_def del: strn_eq.simps)
  next
    case True
    then have o: "off + 2 \<le> sz" "strn_eq d off ''<?'' = Some True" using b by simp_all
    obtain c where c: "peek d (off + 2) = Some c" using nul_ended_peek [OF assms(1), of "off + 2"] assms(2) o(1) by auto
    show ?thesis
    proof (cases "isspace c")
      case False
      then show ?thesis using o(2) c
        by (intro plain, subst parse_file_step_int [OF assms(2,3,8)]) (simp del: strn_eq.simps)
    next
      case sp: True
      then have e: "(c = CHR ''='') = False" by (auto simp: isspace_def)
      have m: "marks_at d sz o2 + 1 \<le> marks_at d sz off" if "off < o2" for o2
        using marks_at_mark [OF assms(1,2) o that] .
      have m0: "0 \<le> marks_at d sz o2" for o2 by (simp add: marks_at_def)
      obtain i1 ps1 where t: "(if l < off then mark_file ps i TEXT l (off - l) else Some (i, ps)) = Some (i1, ps1)"
        "filling sz i1 ps1" "i1 \<le> i + 1"
      proof (cases "l < off")
        case True
        then show ?thesis
          using that mark_filling [OF assms(6), of TEXT l "off - l"] assms(3,4,7) m0 [of off] by (auto simp: seg_ok_def)
      qed (use that assms(6) in simp)
      obtain k where k: "seek_end d sz off 0 0 = Some k" "0 \<le> k" "k = 0 \<or> off + k + 3 \<le> sz"
        "off + k + 3 < sz \<longrightarrow> off + k + 5 \<le> sz"
        using nul_ended_seek [OF assms(1,2) order.refl] o(1) assms(8) by auto
      have step: "parse_file_step d sz off l i ps = (if off + k + 3 < sz
          then do { (i2, ps2) \<leftarrow> mark_file ps1 i1 SCRIPT (off + 3) k; Some (off + (k + 3), off + (k + 3) + 2, i2, ps2) }
          else Some (off, k, i1, ps1))"
        using o(2) c sp e t(1) k(1) by (subst parse_file_step_int [OF assms(2,3,8)]) (simp del: strn_eq.simps)
      show ?thesis
      proof (cases "off + k + 3 < sz")
        case False
        then show ?thesis using step t(2,3) k assms(2,3,7) m [of "off + 1"] by auto
      next
        case True
        have "i1 < int (page_size div sizeof_parsed)" using t(3) assms(7) m [of "off + 1"] m0 [of "off + 1"] by linarith
        from mark_filling [OF t(2) this, of SCRIPT "off + 3" k] True k(2) assms(2) obtain qs
          where q: "mark_file ps1 i1 SCRIPT (off + 3) k = Some (i1 + 1, qs)" "filling sz (i1 + 1) qs"
          by (auto simp: seg_ok_def)
        have "marks_at d sz (off + (k + 3) + 1) + 1 \<le> marks_at d sz off" using k(2) by (intro m) simp
        then show ?thesis using step True q t(3) k(2,4) assms(2,7) by auto
      qed
    qed
  qed
qed

lemma loop_keeps_type:
  assumes "nul_ended d sz" "0 \<le> off" "off \<le> sz" "0 \<le> l" "l \<le> sz" "filling sz i ps"
    "i + 2 * marks_at d sz off + 1 < int (page_size div sizeof_parsed)" "sz + 4 < 2 ^ 31"
  shows "\<exists>qs. parse_file_loop d sz off l i ps = Some qs \<and> typed_segments sz qs"
  using assms
proof (induction "nat (sz - off)" arbitrary: off l i ps rule: less_induct)
  case less
  obtain c where c: "peek d off = Some c" "c = NUL \<longleftrightarrow> off = sz" using nul_ended_peek [OF less.prems(1-3)] by blast
  show ?case
  proof (cases "off = sz")
    case True
    have i: "i + 1 < int (page_size div sizeof_parsed)" using less.prems(7) by (simp add: marks_at_def)
    then obtain qs where "mark_file ps i TEXT l (off - l) = Some (i + 1, qs)" "filling sz (i + 1) qs"
      using mark_filling [OF less.prems(6), of TEXT l "off - l"] less.prems(3-5) True by (auto simp: seg_ok_def)
    then show ?thesis using c True filling_typed [OF _ i] less.prems(2,8) by (subst parse_file_loop_int) simp_all
  next
    case False
    then have lt: "off < sz" using less.prems(3) by simp
    obtain o2 l2 i2 qs where s: "parse_file_step d sz off l i ps = Some (o2, l2, i2, qs)" "off \<le> o2" "o2 < sz" "0 \<le> l2" "l2 \<le> sz"
      "filling sz i2 qs" "i2 + 2 * marks_at d sz (o2 + 1) + 1 < int (page_size div sizeof_parsed)"
      using step_keeps_type [OF less.prems(1,2) lt less.prems(4-8)] by blast
    have "\<exists>rs. parse_file_loop d sz (o2 + 1) l2 i2 qs = Some rs \<and> typed_segments sz rs"
      using s less.prems(1,2,8) lt by (intro less.hyps) auto
    then show ?thesis using c False lt s(1) less.prems(2,8) by (subst parse_file_loop_int) simp_all
  qed
qed

subsection \<open>A typed page is evaluated\<close>

lemma write_chunk_total:
  assumes "0 \<le> l" "l \<le> int (length d)"
  shows "write_chunk kw (Some d) l c \<noteq> None"
proof -
  have w: "\<exists>r c'. write_to_socket kw x n c = Some (r, c')" if "0 \<le> n" "n \<le> int (length x)" for x n c
    using that by (cases c) (auto simp: write_to_socket_def Let_def)
  let ?h = "chars_of (hex_str (of_int l)) @ CRLF"
  obtain r1 c1 where 1: "write_to_socket kw (?h @ [NUL]) (int (length ?h)) c = Some (r1, c1)"
    using w [of "int (length ?h)" "?h @ [NUL]" c] by (simp only: length_append of_nat_add) auto
  obtain r2 c2 where 2: "write_to_socket kw d l c1 = Some (r2, c2)" using w [OF assms] by blast
  obtain r3 c3 where 3: "write_to_socket kw (CRLF @ [NUL]) 2 c2 = Some (r3, c3)" using w [of 2 "CRLF @ [NUL]" c2] by auto
  have "write_chunk kw (Some d) l c = Some (r2, c3)"
    unfolding write_chunk_def fmt_chunk_header view_def using 1 2 3 by (simp del: append_assoc append.simps)
  then show ?thesis by simp
qed

lemma typed_progress:
  assumes "typed_segments sz ps" "sz \<le> int (length (fdata fc))" "\<And>code cl. escript e code cl \<noteq> None"
  shows "eval_segments e fc ps cl \<noteq> None"
  using assms(1)
proof (induction ps arbitrary: cl)
  case (Cons p ps)
  show ?case
  proof (cases "pkind p = END")
    case False
    then have p: "pkind p = TEXT \<or> pkind p = SCRIPT" "0 \<le> poffset p" "0 \<le> plength p" "poffset p + plength p \<le> sz"
      "typed_segments sz ps" using Cons.prems by (auto simp: seg_ok_def)
    let ?d = "drop (nat (poffset p)) (fdata fc)"
    have l: "plength p \<le> int (length ?d)" using p(2-4) assms(2) by auto
    have log: "error_log ''Failed to evaluate [%s]'' [AStr (lit code)] = Some ()" for code
      by (simp add: error_log_def new_str_def)
    obtain r cl2 where s: "escript e (take (nat (plength p)) ?d) cl = Some (r, cl2)"
      using assms(3) by (metis option.exhaust surj_pair)
    obtain k c where w: "write_chunk (ekw e) (Some ?d) (plength p) (csocket cl) = Some (k, c)"
      using write_chunk_total [OF p(3) l] by fastforce
    note IH = Cons.IH [OF p(5)]
    from p(1) show ?thesis
    proof
      assume "pkind p = TEXT"
      then show ?thesis using p(2) w IH [of "cl\<lparr>csocket := c\<rparr>"] by simp
    next
      assume "pkind p = SCRIPT"
      then have "eval_segments e fc (p # ps) cl = (case r of Done \<Rightarrow> eval_segments e fc ps cl2
          | Failed \<Rightarrow> eval_segments e fc ps cl2 | Jumped \<Rightarrow> Some cl2)"
        using p(2,3) l s log by (cases r) simp_all
      then show ?thesis using IH [of cl2] by (cases r) simp_all
    qed
  qed simp
qed simp

text \<open>C11: Whatever bytes a file holds, except NUL, as long as it opens at most 169 scripts and ends
  below \<open>2 ^ 31 - 4\<close>: it can be opened as a page, its segments are texts and scripts inside the file up to an entry of kind
  0, and the evaluation of the page faults only if one of its scripts does.\<close>

theorem any_page_typed:
  assumes "NUL \<notin> set xs" "fdata fc = xs @ NUL # zs" "fsize fc = int (length xs)" "fparsed fc = None"
    "2 * script_marks xs + 1 < page_size div sizeof_parsed" "fsize fc + 4 < 2 ^ 31" "\<And>code cl. escript e code cl \<noteq> None"
  shows "\<exists>fc' ps. parse_file fc = Some fc' \<and> fparsed fc' = Some ps \<and> typed_segments (fsize fc) ps
    \<and> EvalLuaFile e fc' cl \<noteq> None"
proof -
  have n: "nul_ended (fdata fc) (fsize fc)" using assms(1-3) by (simp add: nul_ended_def)
  have f: "filling (fsize fc) 0 new_parsed" by (simp add: filling_def new_parsed_def list_all_iff)
  have m: "0 + 2 * marks_at (fdata fc) (fsize fc) 0 + 1 < int (page_size div sizeof_parsed)"
    using assms(2,3,5) by (simp add: marks_at_def)
  obtain ps where ps: "parse_file_loop (fdata fc) (fsize fc) 0 0 0 new_parsed = Some ps" "typed_segments (fsize fc) ps"
    using loop_keeps_type [OF n order.refl _ order.refl _ f m assms(6)] assms(3) by auto
  have "fsize fc \<le> int (length (fdata fc))" using assms(2,3) by simp
  then have "eval_segments e (fc\<lparr>fparsed := Some ps\<rparr>) ps cl \<noteq> None"
    using typed_progress [OF ps(2) _ assms(7), of "fc\<lparr>fparsed := Some ps\<rparr>"] by simp
  then show ?thesis
    using ps assms(4) by (intro exI [of _ "fc\<lparr>fparsed := Some ps\<rparr>"] exI [of _ ps]) (simp add: parse_file_def EvalLuaFile_def)
qed

text \<open>A file that is no template: a script is opened, and not ended, within another.\<close>

theorem any_page_typed_witness:
  "\<exists>fc' ps. parse_file \<lparr>ffd = 3, fname = ''/a.lws'' @ [NUL], fsize = 12, fdata = ''a<? b<? c?>?'' @ NUL # [],
      fparsed = None, fmime = None\<rparr> = Some fc' \<and> fparsed fc' = Some ps \<and> typed_segments 12 ps
    \<and> EvalLuaFile sample_env fc' (sample_client None) \<noteq> None"
  using any_page_typed [of "''a<? b<? c?>?''" "\<lparr>ffd = 3, fname = ''/a.lws'' @ [NUL], fsize = 12,
      fdata = ''a<? b<? c?>?'' @ NUL # [], fparsed = None, fmime = None\<rparr>" "[]" sample_env "sample_client None"]
  by (simp add: page_size_def sizeof_parsed_def) (simp add: sample_env_def)

text \<open>With a NUL byte behind a script that is not ended the last text has a negative length, and
  the page ends there: the system refuses to write it, and the connection is closed.\<close>

theorem nul_in_page_closes:
  "\<exists>fc' ps cl1. parse_file \<lparr>ffd = 3, fname = ''/a.lws'' @ [NUL], fsize = 8, fdata = ''<? '' @ NUL # ''abcd'' @ [NUL],
      fparsed = None, fmime = None\<rparr> = Some fc' \<and> fparsed fc' = Some ps
    \<and> ps ! 0 = \<lparr>pkind = TEXT, poffset = 5, plength = - 2\<rparr> \<and> EvalLuaFile sample_env fc' (sample_client None) = Some cl1
    \<and> sclosed (fst (csocket cl1)) \<and> sent (snd (csocket cl1)) = chars_of (hex_str (- 2)) @ CRLF"
proof -
  let ?d = "''<? '' @ NUL # ''abcd'' @ [NUL]" and ?p = "\<lparr>pkind = TEXT, poffset = 5, plength = - 2\<rparr>"
  have s: "seek_end ?d 8 0 0 0 = Some 5"
    by (simp add: seek_end.simps peek_def)
  have "parse_file_step ?d 8 0 0 0 new_parsed = Some (0, 5, 0, new_parsed)"
    using s by (simp add: parse_file_step_def isspace_def peek_def)
  moreover have "parse_file_step ?d 8 1 5 0 new_parsed = Some (1, 5, 0, new_parsed)"
    "parse_file_step ?d 8 2 5 0 new_parsed = Some (2, 5, 0, new_parsed)"
    by (simp_all add: parse_file_step_def peek_def)
  moreover have "mark_file new_parsed 0 TEXT 5 (- 2) = Some (1, new_parsed[0 := ?p])"
    by (simp add: mark_file_def new_parsed_def page_size_def sizeof_parsed_def)
  ultimately have "parse_file_loop ?d 8 0 0 0 new_parsed = Some (new_parsed[0 := ?p])"
    by (simp add: parse_file_loop.simps peek_def)
  moreover have "new_parsed[0 := ?p] = ?p # tl new_parsed"
    by (cases new_parsed) (simp_all add: new_parsed_def page_size_def sizeof_parsed_def)
  moreover obtain c where c: "write_chunk (ekw sample_env) (Some (''bcd'' @ [NUL])) (- 2) (csocket (sample_client None)) = Some (0, c)"
      "sclosed (fst c)" "sent (snd c) = chars_of (hex_str (- 2)) @ CRLF"
    using fmt_chunk_header [of "of_int (- 2)"] by (simp add: write_chunk_def view_def write_to_socket_def Let_def sample_client_def
        create_socket_def resume_socket_def sample_env_def nat_add_distrib)
  moreover have "eval_segments e fc (tl new_parsed) cl = Some cl" for e fc cl
  proof -
    have t: "tl new_parsed = replicate (Suc 339) zero_parsed"
      by (simp add: new_parsed_def page_size_def sizeof_parsed_def del: replicate.simps)
    show ?thesis unfolding t replicate_Suc by simp
  qed
  ultimately show ?thesis
    by (intro exI [of _ "\<lparr>ffd = 3, fname = ''/a.lws'' @ [NUL], fsize = 8, fdata = ?d, fparsed = Some (?p # tl new_parsed),
        fmime = None\<rparr>"] exI [of _ "?p # tl new_parsed"] exI [of _ "sample_client None\<lparr>csocket := c\<rparr>"])
      (simp add: parse_file_def EvalLuaFile_def)
qed

end
