(* ===== verification/Served.thy ===== *)
theory Served
  imports Get_Props
begin

section \<open>What can be served\<close>

text \<open>
  The path of a request is never opened: it is looked up in the cache that was filled at start-up.
  So whatever the request, the worker answers with an error page or with a file that was found in
  the working directory and whose name does not begin with a dot.
\<close>

subsection \<open>Filling the cache\<close>

definition visible :: "fts_entry \<Rightarrow> bool" where
  "visible fe \<longleftrightarrow> fts_is_file fe \<and> \<not> (fts_name fe \<noteq> [] \<and> hd (fts_name fe) = CHR ''.'')"

definition opens_as :: "fts_entry \<Rightarrow> File \<Rightarrow> bool" where
  "opens_as fe f \<longleftrightarrow> open_file (view (fts_accpath fe) [NUL]) (fts_open fe) = Some f"

lemma load_entries_eq:
  assumes "load_entries fes files = Some files'" "int (length files) \<le> MAX_FILES"
  shows "\<exists>gs. files' = files @ gs \<and> int (length files') \<le> MAX_FILES \<and> list_all2 opens_as (filter visible fes) gs"
  using assms
proof (induction fes arbitrary: files)
  case (Cons fe fes)
  show ?case
  proof (cases "visible fe")
    case True
    then obtain f where f: "opens_as fe f" "int (length files) < MAX_FILES" "load_entries fes (files @ [f]) = Some files'"
      using Cons.prems(1) by (auto simp: visible_def opens_as_def bind_Some_iff Let_def split: if_splits)
    from Cons.IH [OF f(3)] f(2) obtain gs where
      "files' = (files @ [f]) @ gs" "int (length files') \<le> MAX_FILES" "list_all2 opens_as (filter visible fes) gs" by auto
    then show ?thesis using True f(1) by (intro exI [of _ "f # gs"]) simp
  next
    case False
    then have "load_entries fes files = Some files'"
      using Cons.prems(1) by (auto simp: visible_def bind_Some_iff split: if_splits)
    from Cons.IH [OF this Cons.prems(2)] False show ?thesis by simp
  qed
qed simp

text \<open>A file keeps the name that it was opened by.\<close>

lemma open_file_name:
  assumes "open_file (view xs ys) w = Some (Some fc)"
  shows "file_name fc = xs"
proof -
  define f0 where "f0 = \<lparr>ffd = ofd w, fname = xs @ [NUL], fsize = osize w, fdata = mapped w, fparsed = None, fmime = None\<rparr>"
  obtain p f1 where f1: "parseable_file f0 = Some (p, f1)"
    "(if p then map_option Some (parse_file f1) else Some (Some f1)) = Some (Some fc)"
    using assms by (auto simp: open_file_def bind_Some_iff f0_def [symmetric] split: if_split_asm)
  have "fname f1 = xs @ [NUL]" using f1(1) by (auto simp: parseable_file_def bind_Some_iff f0_def)
  moreover have "parse_file f1 = Some fc \<Longrightarrow> fname fc = fname f1"
    by (auto simp: parse_file_def bind_Some_iff split: if_split_asm)
  ultimately have "fname fc = xs @ [NUL]" using f1(2) by (cases p) auto
  then show ?thesis by (simp add: file_name_def)
qed

subsection \<open>Looking up\<close>

lemma find_file_mem: "find_file n fs = Some (Some f) \<Longrightarrow> f \<in> set fs"
  by (induction fs) (auto simp: bind_Some_iff split: if_splits)

lemma load_mem: "load fs n = Some (Some fc) \<Longrightarrow> Some fc \<in> set fs"
  by (auto simp: load_def query_cache_def bind_Some_iff split: if_splits option.splits dest: find_file_mem)

lemma index_loop_mem: "index_loop e n xs = Some (Some fc) \<Longrightarrow> Some fc \<in> set (efiles e)"
  by (induction xs) (auto simp: bind_Some_iff split: if_splits dest: load_mem)

text \<open>The answer \<open>r\<close> to a request of \<open>cl\<close> is an error page or a file for which \<open>P\<close> holds.\<close>

definition answered :: "env \<Rightarrow> (file_cache \<Rightarrow> bool) \<Rightarrow> client \<Rightarrow> int \<times> client \<Rightarrow> bool" where
  "answered e P cl r \<longleftrightarrow>
     (\<exists>code req. code \<in> {400, 404, 405} \<and> error_handler e code (cl\<lparr>crequest := req\<rparr>) = Some r)
   \<or> (\<exists>fc req. P fc \<and> mimetype_handler e (Some fc) (cl\<lparr>crequest := req\<rparr>) = Some r)"

lemma answered_error:
  "error_handler e code cl = Some r \<Longrightarrow> code \<in> {400, 404, 405} \<Longrightarrow> answered e P cl r"
  unfolding answered_def by (intro disjI1 exI [of _ code] exI [of _ "crequest cl"]) simp

lemma answered_request: "answered e P (cl\<lparr>crequest := req\<rparr>) r \<Longrightarrow> answered e P cl r"
  by (auto simp: answered_def)

lemma bind_SomeE: "Option.bind x f = Some y \<Longrightarrow> (\<And>z. x = Some z \<Longrightarrow> f z = Some y \<Longrightarrow> thesis) \<Longrightarrow> thesis"
  by (auto simp: bind_Some_iff)

lemma answered_mono: "answered e P cl r \<Longrightarrow> (\<And>fc. P fc \<Longrightarrow> Q fc) \<Longrightarrow> answered e Q cl r"
  unfolding answered_def by blast

lemma get_method_rejects:
  "get_method e cl = Some r \<Longrightarrow> qhost (crequest cl) = None \<or> qpath (crequest cl) = None
    \<Longrightarrow> error_handler e 404 cl = Some r"
  unfolding get_method_def Let_def by (simp only: if_True)

lemma get_method_looks_up:
  "get_method e cl = Some r \<Longrightarrow> \<not> (qhost (crequest cl) = None \<or> qpath (crequest cl) = None)
    \<Longrightarrow> \<exists>n req d f. (if d then get_index e n else load (efiles e) n) = Some f
      \<and> mimetype_handler e f (cl\<lparr>crequest := req\<rparr>) = Some r"
  unfolding get_method_def Let_def
  by (simp only: if_False, (erule bind_SomeE)+, simp only: case_prod_beta, (erule bind_SomeE)+, blast)

lemma get_method_answered:
  assumes "get_method e cl = Some r"
  shows "answered e (\<lambda>fc. Some fc \<in> set (efiles e)) cl r"
proof (cases "qhost (crequest cl) = None \<or> qpath (crequest cl) = None")
  case True
  show ?thesis by (rule answered_error [OF get_method_rejects [OF assms True]]) simp
next
  case False
  obtain n req d f where f: "(if d then get_index e n else load (efiles e) n) = Some f"
    "mimetype_handler e f (cl\<lparr>crequest := req\<rparr>) = Some r"
    using get_method_looks_up [OF assms False] by blast
  show ?thesis
  proof (cases f)
    case None
    then have "error_handler e 404 (cl\<lparr>crequest := req\<rparr>) = Some r"
      using f(2) by (auto simp: mimetype_handler_def bind_Some_iff)
    then show ?thesis by (rule answered_request [OF answered_error]) simp
  next
    case (Some fc)
    then have "Some fc \<in> set (efiles e)"
      using f(1) by (auto simp: get_index_def split: if_splits dest: load_mem index_loop_mem)
    then show ?thesis using f(2) Some unfolding answered_def by blast
  qed
qed

lemma dispatch_answered:
  assumes "dispatch_method e m cl = Some r"
  shows "answered e (\<lambda>fc. Some fc \<in> set (efiles e)) cl r"
proof -
  have post: "answered e (\<lambda>fc. Some fc \<in> set (efiles e)) cl r" if p: "post_method e cl = Some r"
  proof -
    obtain v where "get_method e (cl\<lparr>crequest := (crequest cl)\<lparr>qvars := v\<rparr>\<rparr>) = Some r"
      using p unfolding post_method_def Let_def by - ((erule bind_SomeE)+, blast)
    then show ?thesis by (rule answered_request [OF get_method_answered])
  qed
  obtain v where v: "m = Some v" using assms by (cases m) (auto simp: dispatch_method_def)
  obtain x :: "(string \<times> http_method) option" where x: "(case x of Some (_, GET) \<Rightarrow> get_method e cl | Some (_, POST) \<Rightarrow> post_method e cl
      | Some _ \<Rightarrow> not_implemented e cl
      | None \<Rightarrow> do { _ \<leftarrow> error_log ''Bad request: %s'' [AStr m]; error_handler e 400 cl }) = Some r"
  proof (cases "find_method v gdispatch")
    case (Some a)
    then show thesis using assms by (intro that [of a]) (simp only: dispatch_method_def v option.case bind.bind_lunit)
  qed (use assms v in \<open>simp add: dispatch_method_def\<close>)
  show ?thesis
  proof (cases x)
    case None
    then show ?thesis using x by (intro answered_error [of e 400]) (auto simp: bind_Some_iff)
  next
    case (Some y)
    obtain n k where "x = Some (n, k)" using Some by (cases y) auto
    then show ?thesis
      using x get_method_answered post answered_error [of e 405] by (cases k) (auto simp: not_implemented_def)
  qed
qed

text \<open>What the cache holds after the traversal.\<close>

lemma loaded_entries:
  assumes "load_directory d fes [] = Some files"
  shows "length files \<le> 1024" "list_all2 opens_as (filter visible fes) files"
proof -
  have "load_entries fes [] = Some files"
    using assms by (auto simp: load_directory_def bind_Some_iff split: option.splits)
  from load_entries_eq [OF this] show "length files \<le> 1024" "list_all2 opens_as (filter visible fes) files"
    by (auto simp: MAX_FILES_def)
qed

lemma loaded_visible:
  assumes "load_directory d fes [] = Some files" "Some fc \<in> set files"
  shows "\<exists>fe. fe \<in> set fes \<and> visible fe \<and> opens_as fe (Some fc) \<and> file_name fc = fts_accpath fe"
proof -
  note l = loaded_entries(2) [OF assms(1)]
  obtain i where i: "i < length files" "files ! i = Some fc" using assms(2) by (auto simp: in_set_conv_nth)
  then have "opens_as (filter visible fes ! i) (Some fc)" "i < length (filter visible fes)"
    using list_all2_nthD2 [OF l i(1)] list_all2_lengthD [OF l] by simp_all
  moreover from this(2) have "filter visible fes ! i \<in> set (filter visible fes)" by (rule nth_mem)
  ultimately show ?thesis by (auto simp: opens_as_def dest: open_file_name)
qed

text \<open>Whatever the method, the host and the path of a request are, and whatever is on the disk, a
  worker answers it with an error page or with a file of the directory that the server loaded: one
  of at most 1024, opened by the path that the traversal gave, whose name does not begin with a
  dot.\<close>

theorem only_visible_files:
  assumes "load_directory d fes [] = Some (efiles e)" "dispatch_method e m cl = Some r"
  shows "length (efiles e) \<le> 1024
    \<and> answered e (\<lambda>fc. \<exists>fe. fe \<in> set fes \<and> visible fe \<and> opens_as fe (Some fc) \<and> file_name fc = fts_accpath fe) cl r"
  by (intro conjI loaded_entries(1) [OF assms(1)] answered_mono [OF dispatch_answered [OF assms(2)]]
      loaded_visible [OF assms(1)])

text \<open>A directory with a hidden file and a page, and a request for the page.\<close>

definition sample_entries :: "fts_entry list" where
  "sample_entries = map (\<lambda>n. \<lparr>fts_name = n, fts_accpath = ''/srv/a.org/'' @ n, fts_is_file = True,
     fts_open = \<lparr>ofd = 7, ostat_failed = False, osize = 5, omap = Some (''hello'' @ [NUL])\<rparr>\<rparr>)
     [''.key'', ''i.lws'']"

definition served_env :: env where
  "served_env = sample_env\<lparr>efiles := the (load_directory (lit ''.'') sample_entries []), estat := (\<lambda>n. Some S_IFREG)\<rparr>"

definition served_client :: client where
  "served_client = (sample_client new_headers)\<lparr>crequest := fresh_request\<lparr>qhost := lit ''a.org'', qpath := lit ''/i.lws''\<rparr>\<rparr>"

lemma sample_loads: "load_directory (lit ''.'') sample_entries [] \<noteq> None"
  by code_simp

lemma sample_serves: "map_option fst (dispatch_method served_env (lit ''GET'') served_client) = Some 200"
  by code_simp

theorem only_visible_files_witness:
  "\<exists>r. dispatch_method served_env (lit ''GET'') served_client = Some r \<and> fst r = 200 \<and> length (efiles served_env) \<le> 1024
    \<and> answered served_env (\<lambda>fc. file_name fc = ''/srv/a.org/i.lws'') served_client r"
proof -
  obtain r where r: "dispatch_method served_env (lit ''GET'') served_client = Some r" "fst r = 200"
    using sample_serves by auto
  have "load_directory (lit ''.'') sample_entries [] = Some (efiles served_env)"
    using sample_loads by (auto simp: served_env_def)
  note f = only_visible_files [OF this r(1)]
  then have "answered served_env (\<lambda>fc. file_name fc = ''/srv/a.org/i.lws'') served_client r"
    by (elim conjE answered_mono) (auto simp: sample_entries_def visible_def)
  with f r show ?thesis by blast
qed

end
