(* ===== verification/Server.thy ===== *)
theory Server
  imports Files Transitions
begin

section \<open>The server process (server.c, signals.c)\<close>

text \<open>
  The server forks a worker for each connection, reloads the files that change and counts its
  workers.  What it shares with the system is explicit: the answer of \<open>fork\<close>, and the children that
  have ended and wait to be collected, which are what \<open>waitpid\<close> answers.  A step relation lets
  connections, file events, ends of workers and signals come in every order.
\<close>

text \<open>\<open>MAX_PROCS\<close> of defines.h.\<close>

definition MAX_PROCS :: int where
  "MAX_PROCS = 200"

text \<open>The fields of \<open>struct server_struct\<close> that the event loop uses.\<close>

record server =
  http_sock :: int
  tls_sock :: int
  sfiles :: cache
  sdone :: bool
  srestart :: bool
  procs :: int

text \<open>What \<open>fork\<close> answers: the process is the child, there is a child, or there is none.\<close>

datatype forked = In_Child | Parent_of int | No_Fork

text \<open>How a handler of the server ends: it goes on, it is the worker from now on, or it exits.\<close>

datatype served = Go_On server | Worker server | Exited server

definition external_port :: "server \<Rightarrow> int \<Rightarrow> bool" where
  "external_port s fd \<longleftrightarrow> fd = http_sock s \<or> fd = tls_sock s"

definition incoming :: "forked \<Rightarrow> server \<Rightarrow> served" where
  "incoming f s =
     (if procs s \<ge> MAX_PROCS then Go_On s
      else let s = s\<lparr>procs := procs s + 1\<rparr> in
        (case f of In_Child \<Rightarrow> Worker s | No_Fork \<Rightarrow> Exited s | Parent_of pid \<Rightarrow> Go_On s))"

text \<open>A child is collected before \<open>server.done\<close> is tested, and is then not counted.\<close>

fun wait_proc :: "int list \<Rightarrow> server \<Rightarrow> int list \<times> server" where
  "wait_proc [] s = ([], s)"
| "wait_proc (z # zs) s = (if \<not> sdone s then wait_proc zs (s\<lparr>procs := procs s - 1\<rparr>) else (zs, s))"

text \<open>\<open>server_poll\<close>: the event is a descriptor and whether it is the end of a process; \<open>w\<close> is what
  the system answers when a changed file is opened again.\<close>

definition server_poll :: "int \<Rightarrow> bool \<Rightarrow> forked \<Rightarrow> opened \<Rightarrow> int list \<Rightarrow> server \<Rightarrow> (int list \<times> served) option" where
  "server_poll fd is_proc f w zs s = (let (zs, s) = wait_proc zs s in
     if external_port s fd then Some (zs, incoming f s)
     else if \<not> is_proc then do {
       (_, files) \<leftarrow> reload fd w (sfiles s);
       Some (zs, Go_On (s\<lparr>sfiles := files\<rparr>)) }
     else let (zs, s) = wait_proc zs s in Some (zs, Go_On s))"

subsection \<open>Signals (signals.c)\<close>

datatype sig = SIGHUP | SIGINT | SIGTERM

definition restart_signal_handler :: "server \<Rightarrow> served" where
  "restart_signal_handler s = Go_On (s\<lparr>sdone := True, srestart := True\<rparr>)"

definition gen_signal_handler :: "server \<Rightarrow> served" where
  "gen_signal_handler s = Exited (s\<lparr>sdone := True\<rparr>)"

fun general_signal_handlers :: "sig \<Rightarrow> server \<Rightarrow> served" where
  "general_signal_handlers SIGHUP = restart_signal_handler"
| "general_signal_handlers SIGINT = gen_signal_handler"
| "general_signal_handlers SIGTERM = gen_signal_handler"

text \<open>The end of \<open>serve\<close>: the signal that it sends to its group reaches the process itself before
  \<open>kill\<close> returns; only a handler that returns lets it restart.\<close>

definition serve_end :: "server \<Rightarrow> bool \<times> server" where
  "serve_end s = (case general_signal_handlers SIGTERM s of
     Go_On s \<Rightarrow> (srestart s, s) | Worker s \<Rightarrow> (srestart s, s) | Exited s \<Rightarrow> (False, s))"

subsection \<open>The server and its workers\<close>

text \<open>The state of the system: the server, whether its process still runs, the workers that run and
  those that have ended.\<close>

record pool =
  psrv :: server
  palive :: bool
  workers :: "int list"
  ended :: "int list"

definition after :: "served \<Rightarrow> server" where
  "after r = (case r of Go_On s \<Rightarrow> s | Worker s \<Rightarrow> s | Exited s \<Rightarrow> s)"

definition lives :: "served \<Rightarrow> bool" where
  "lives r = (case r of Exited s \<Rightarrow> False | _ \<Rightarrow> True)"

text \<open>\<open>watch\<close> and what happens around it.  The parent's view of a successful fork has a new worker.
  The loop tests \<open>server.done\<close> only between two batches of events, so a handler may also run after a
  signal has set it.\<close>

inductive pool_step :: "pool \<Rightarrow> pool \<Rightarrow> bool" where
  connect: "\<lbrakk> palive p; external_port (psrv p) fd; pid \<notin> set (workers p) \<union> set (ended p);
      server_poll fd is_proc (Parent_of pid) w (ended p) (psrv p) = Some (zs, Go_On s);
      ws = (if procs s > procs (snd (wait_proc (ended p) (psrv p))) then [pid] else []) \<rbrakk>
    \<Longrightarrow> pool_step p (p\<lparr>psrv := s, workers := ws @ workers p, ended := zs\<rparr>)"
| other: "\<lbrakk> palive p; \<not> external_port (psrv p) fd;
      server_poll fd is_proc f w (ended p) (psrv p) = Some (zs, r) \<rbrakk>
    \<Longrightarrow> pool_step p (p\<lparr>psrv := after r, palive := lives r, ended := zs\<rparr>)"
| no_fork: "\<lbrakk> palive p; external_port (psrv p) fd;
      server_poll fd is_proc No_Fork w (ended p) (psrv p) = Some (zs, r) \<rbrakk>
    \<Longrightarrow> pool_step p (p\<lparr>psrv := after r, palive := lives r, ended := zs\<rparr>)"
| finish: "workers p = ws1 @ pid # ws2 \<Longrightarrow>
    pool_step p (p\<lparr>workers := ws1 @ ws2, ended := ended p @ [pid]\<rparr>)"
| signal: "palive p \<Longrightarrow>
    pool_step p (p\<lparr>psrv := after (general_signal_handlers g (psrv p)), palive := lives (general_signal_handlers g (psrv p))\<rparr>)"
| leave: "\<lbrakk> palive p; sdone (psrv p) \<rbrakk> \<Longrightarrow>
    pool_step p (p\<lparr>psrv := snd (serve_end (psrv p)), palive := fst (serve_end (psrv p))\<rparr>)"

inductive_cases pool_stepE: "pool_step p p'"

definition start_pool :: "int \<Rightarrow> int \<Rightarrow> cache \<Rightarrow> pool" where
  "start_pool http tls files = \<lparr>psrv = \<lparr>http_sock = http, tls_sock = tls, sfiles = files, sdone = False,
     srestart = False, procs = 0\<rparr>, palive = True, workers = [], ended = []\<rparr>"

inductive pool_reachable :: "int \<Rightarrow> int \<Rightarrow> cache \<Rightarrow> pool \<Rightarrow> bool" for http tls files where
  start: "pool_reachable http tls files (start_pool http tls files)"
| step: "pool_reachable http tls files p \<Longrightarrow> pool_step p p' \<Longrightarrow> pool_reachable http tls files p'"

subsection \<open>How many workers there are\<close>

text \<open>The counter is the number of children not yet collected until a signal ends the loop, never
  less than that number, and at most 200.\<close>

definition pool_inv :: "pool \<Rightarrow> bool" where
  "pool_inv p \<longleftrightarrow> (palive p \<longrightarrow> int (length (workers p) + length (ended p)) \<le> procs (psrv p)
     \<and> (\<not> sdone (psrv p) \<longrightarrow> procs (psrv p) = int (length (workers p) + length (ended p))))
   \<and> procs (psrv p) \<le> MAX_PROCS \<and> int (length (workers p) + length (ended p)) \<le> MAX_PROCS"

lemma wait_proc_eq:
  "wait_proc zs s = (if sdone s then (tl zs, s) else ([], s\<lparr>procs := procs s - int (length zs)\<rparr>))"
  by (induction zs arbitrary: s) auto

lemma pool_step_inv: "pool_step p p' \<Longrightarrow> pool_inv p \<Longrightarrow> pool_inv p'"
proof (induction rule: pool_step.induct)
  case (connect p fd pid is_proc w zs s ws)
  then show ?case
    by (auto simp: pool_inv_def server_poll_def wait_proc_eq external_port_def incoming_def Let_def
        split: if_splits)
next
  case (other p fd is_proc f w zs r)
  then show ?case
    by (auto simp: pool_inv_def server_poll_def wait_proc_eq external_port_def Let_def bind_Some_iff
        after_def lives_def split: if_splits)
next
  case (no_fork p fd is_proc w zs r)
  then show ?case
    by (auto simp: pool_inv_def server_poll_def wait_proc_eq external_port_def incoming_def Let_def
        after_def lives_def split: if_splits)
next
  case (finish p ws1 pid ws2)
  then show ?case by (auto simp: pool_inv_def)
next
  case (signal p g)
  then show ?case
    by (cases g) (auto simp: pool_inv_def restart_signal_handler_def gen_signal_handler_def after_def lives_def)
next
  case (leave p)
  then show ?case by (auto simp: pool_inv_def serve_end_def gen_signal_handler_def)
qed

lemma pool_reachable_iff:
  "pool_reachable http tls files s \<longleftrightarrow> (\<exists>s0. s0 = start_pool http tls files \<and> pool_step\<^sup>*\<^sup>* s0 s)"
proof
  assume "pool_reachable http tls files s"
  then show "\<exists>s0. s0 = start_pool http tls files \<and> pool_step\<^sup>*\<^sup>* s0 s"
    by (induction rule: pool_reachable.induct) (blast intro: rtranclp.rtrancl_into_rtrancl)+
next
  assume "\<exists>s0. s0 = start_pool http tls files \<and> pool_step\<^sup>*\<^sup>* s0 s"
  then obtain s0 where "pool_step\<^sup>*\<^sup>* s0 s" "s0 = start_pool http tls files" by blast
  then show "pool_reachable http tls files s"
    by (induction rule: rtranclp_induct) (blast intro: pool_reachable.intros)+
qed

interpretation server_pool: invariant_system "\<lambda>s. s = start_pool http tls files" pool_step "pool_reachable http tls files" pool_inv
  for http tls files
proof
  show "pool_reachable http tls files s \<longleftrightarrow> (\<exists>s0. s0 = start_pool http tls files \<and> pool_step\<^sup>*\<^sup>* s0 s)" for s
    by (rule pool_reachable_iff)
  show "s = start_pool http tls files \<Longrightarrow> pool_inv s" for s
    by (simp add: start_pool_def pool_inv_def MAX_PROCS_def)
qed (rule pool_step_inv)

text \<open>C8: However connections, file events, ends of workers and signals interleave, there are never
  more than 200 workers that run or wait to be collected, and until a signal ends the loop the
  counter of the server is exactly their number.\<close>

theorem pool_bound:
  assumes "pool_reachable http tls files p"
  shows "length (workers p) + length (ended p) \<le> 200
    \<and> (palive p \<and> \<not> sdone (psrv p) \<longrightarrow> procs (psrv p) = int (length (workers p) + length (ended p)))"
  using server_pool.reach_inv [OF assms] by (auto simp: pool_inv_def MAX_PROCS_def)

lemma pool_first_worker:
  "pool_reachable 3 0 [] \<lparr>psrv = \<lparr>http_sock = 3, tls_sock = 0, sfiles = [], sdone = False, srestart = False,
     procs = 1\<rparr>, palive = True, workers = [41], ended = []\<rparr>" (is "pool_reachable _ _ _ ?p")
proof -
  have "pool_step (start_pool 3 0 []) (start_pool 3 0 []\<lparr>psrv := psrv (start_pool 3 0 [])\<lparr>procs := 1\<rparr>,
      workers := [41] @ workers (start_pool 3 0 []), ended := []\<rparr>)"
    by (rule pool_step.connect [where fd = 3 and pid = 41 and is_proc = False])
      (simp_all add: start_pool_def external_port_def server_poll_def incoming_def MAX_PROCS_def)
  from pool_reachable.step [OF pool_reachable.start this] show ?thesis by (simp add: start_pool_def)
qed

theorem pool_bound_witness:
  "\<exists>p. pool_reachable 3 0 [] p \<and> workers p = [41] \<and> length (workers p) + length (ended p) \<le> 200
    \<and> procs (psrv p) = int (length (workers p) + length (ended p))"
  using pool_bound [OF pool_first_worker] pool_first_worker by fastforce

text \<open>A server that a signal has told to stop or to restart never serves again: it sends SIGTERM
  to its own group, whose handler exits, so the restart that SIGHUP asks for does not happen.\<close>

theorem restart_unreachable:
  assumes "pool_step p p'" "sdone (psrv p)" "palive p'"
  shows "sdone (psrv p') \<and> fst (serve_end (psrv p')) = False"
  using assms
proof (induction rule: pool_step.induct)
  case (signal p g)
  then show ?case by (cases g) (auto simp: restart_signal_handler_def gen_signal_handler_def after_def serve_end_def)
qed (auto simp: server_poll_def wait_proc_eq incoming_def after_def Let_def serve_end_def gen_signal_handler_def
    bind_Some_iff split: if_splits)

theorem restart_unreachable_witness:
  "\<exists>p p'. pool_step p p' \<and> srestart (psrv p') \<and> palive p' \<and> sdone (psrv p') \<and> fst (serve_end (psrv p')) = False"
proof -
  let ?p = "start_pool 3 0 []\<lparr>psrv := (psrv (start_pool 3 0 []))\<lparr>sdone := True, srestart := True\<rparr>\<rparr>"
  have "palive ?p" "sdone (psrv ?p)" by (simp_all add: start_pool_def)
  from pool_step.signal [OF this(1), of SIGHUP]
  have s: "pool_step ?p (?p\<lparr>psrv := after (general_signal_handlers SIGHUP (psrv ?p)),
    palive := lives (general_signal_handlers SIGHUP (psrv ?p))\<rparr>)" .
  have "palive (?p\<lparr>psrv := after (general_signal_handlers SIGHUP (psrv ?p)),
    palive := lives (general_signal_handlers SIGHUP (psrv ?p))\<rparr>)"
    by (simp add: restart_signal_handler_def lives_def)
  from restart_unreachable [OF s \<open>sdone (psrv ?p)\<close> this] this s show ?thesis
    by (intro exI conjI) (assumption | simp add: restart_signal_handler_def after_def)+
qed

end
