(* ===== verification/Whole_System.thy ===== *)
theory Whole_System
  imports Served Server
begin

section \<open>The server with all its workers\<close>

text \<open>
  \<open>Server\<close> knows a worker by its process only, and \<open>Client\<close> knows one worker.  Here they are put
  together: the state is the pool of the server and the list of all connections that were ever
  accepted, each with the environment its worker was forked with and the state of that worker.  A
  step is one of the server or one of a worker, in every order.
\<close>

text \<open>A connection: the process of its worker, what that process inherited, the state of the worker
  (none when the connection could not be accepted: the worker dereferences it), and whether the
  process has ended.\<close>

record connection =
  cpid :: int
  cenv :: env
  cworker :: "client option"
  cended :: bool

record system =
  spool :: pool
  conns :: "connection list"

text \<open>\<open>fork\<close> gives two views of one event: the parent goes on, the child is the worker and handles the
  port, with the cache as it is in the server at that time.  A process may end at any time: its worker has exited or has
  faulted, or it was killed.\<close>

inductive system_step :: "reg \<Rightarrow> system \<Rightarrow> system \<Rightarrow> bool" for self where
  server: "\<lbrakk> pool_step (spool s) p; workers p = workers (spool s) \<rbrakk> \<Longrightarrow> system_step self s (s\<lparr>spool := p\<rparr>)"
| accept: "\<lbrakk> palive (spool s); external_port (psrv (spool s)) fd;
      pid \<notin> set (workers (spool s)) \<union> set (ended (spool s));
      server_poll fd is_proc (Parent_of pid) w (ended (spool s)) (psrv (spool s)) = Some (zs, Go_On srv);
      server_poll fd is_proc In_Child w (ended (spool s)) (psrv (spool s)) = Some (zs, Worker child);
      efiles e = sfiles child \<rbrakk>
    \<Longrightarrow> system_step self s (s\<lparr>spool := (spool s)\<lparr>psrv := srv, workers := pid # workers (spool s), ended := zs\<rparr>,
          conns := conns s @ [\<lparr>cpid = pid, cenv = e, cworker = handle_fd answer addr (fd \<noteq> http_sock child) hs, cended = False\<rparr>]\<rparr>)"
| work: "\<lbrakk> i < length (conns s); conns s ! i = c; \<not> cended c; cworker c = Some cl;
      worker_step (cenv c) self cl cl' \<rbrakk>
    \<Longrightarrow> system_step self s (s\<lparr>conns := (conns s)[i := c\<lparr>cworker := Some cl'\<rparr>]\<rparr>)"
| ends: "\<lbrakk> i < length (conns s); conns s ! i = c; \<not> cended c; workers (spool s) = ws1 @ cpid c # ws2 \<rbrakk>
    \<Longrightarrow> system_step self s (s\<lparr>spool := (spool s)\<lparr>workers := ws1 @ ws2, ended := ended (spool s) @ [cpid c]\<rparr>,
          conns := (conns s)[i := c\<lparr>cended := True\<rparr>]\<rparr>)"

definition start_system :: "int \<Rightarrow> int \<Rightarrow> cache \<Rightarrow> system" where
  "start_system http tls files = \<lparr>spool = start_pool http tls files, conns = []\<rparr>"

inductive system_reachable :: "reg \<Rightarrow> int \<Rightarrow> int \<Rightarrow> cache \<Rightarrow> system \<Rightarrow> bool" for self http tls files where
  start: "system_reachable self http tls files (start_system http tls files)"
| step: "system_reachable self http tls files s \<Longrightarrow> system_step self s s' \<Longrightarrow> system_reachable self http tls files s'"

subsection \<open>The cache keeps its names\<close>

text \<open>A file that has changed is mapped again, under its name; a file that has gone stays in the cache
  without its bytes.\<close>

definition cache_names :: "cache \<Rightarrow> string option list" where
  "cache_names files = map (map_option file_name) files"

lemma last_fd_range:
  "last_fd fd fs i r = Some (Some j) \<Longrightarrow> r = Some j \<or> i \<le> j \<and> j < i + int (length fs)"
  by (induction fd fs i r rule: last_fd.induct) (fastforce split: option.splits if_splits)+

lemma cache_names_update:
  assumes "i < length fs" "fs ! i = Some fc" "fname fc' = fname fc"
  shows "cache_names (fs[i := Some fc']) = cache_names fs"
proof (rule nth_equalityI)
  fix j assume "j < length (cache_names (fs[i := Some fc']))"
  then show "cache_names (fs[i := Some fc']) ! j = cache_names fs ! j"
    using assms by (cases "i = j") (simp_all add: cache_names_def file_name_def)
qed (simp add: cache_names_def)

lemma reload_names:
  assumes "reload fd w files = Some (f, files')"
  shows "cache_names files' = cache_names files"
proof -
  obtain r where r: "last_fd fd files 0 None = Some r" using assms by (auto simp: reload_def bind_Some_iff)
  show ?thesis
  proof (cases r)
    case (Some i)
    then have i: "nat i < length files" using last_fd_range [of fd files 0 None i] r by auto
    obtain fc where fc: "files ! nat i = Some fc" using assms r Some by (auto simp: reload_def split: option.splits)
    note u = cache_names_update [OF i fc]
    show ?thesis
      using assms r Some fc by (auto simp: reload_def Let_def bind_Some_iff split: if_splits intro!: u)
  qed (use assms r in \<open>simp add: reload_def\<close>)
qed

lemma wait_proc_files: "wait_proc zs s = (zs', s') \<Longrightarrow> sfiles s' = sfiles s"
  by (auto simp: wait_proc_eq split: if_splits)

lemma server_poll_names:
  assumes "server_poll fd is_proc f w zs s = Some (zs', r)"
  shows "cache_names (sfiles (after r)) = cache_names (sfiles s)"
  using assms
  by (auto simp: server_poll_def wait_proc_eq incoming_def after_def Let_def bind_Some_iff
      split: if_splits forked.splits dest: reload_names)

lemma pool_step_names: "pool_step p p' \<Longrightarrow> cache_names (sfiles (psrv p')) = cache_names (sfiles (psrv p))"
proof (induction rule: pool_step.induct)
  case (connect p fd pid is_proc w zs s ws)
  from server_poll_names [OF connect(4)] show ?case by (simp add: after_def)
next
  case (signal p g)
  then show ?case by (cases g) (simp_all add: restart_signal_handler_def gen_signal_handler_def after_def)
qed (auto dest: server_poll_names simp: serve_end_def gen_signal_handler_def)

subsection \<open>The invariant\<close>

text \<open>The children that are collected are the first ones that have ended.\<close>

lemma server_poll_collects:
  "server_poll fd is_proc f w zs s = Some (zs', r) \<Longrightarrow> \<exists>n. zs' = drop n zs"
  by (auto simp: server_poll_def wait_proc_eq Let_def bind_Some_iff drop_Suc intro: exI [of _ "length zs"] exI [of _ "Suc 0"] exI [of _ "Suc (Suc 0)"]
      split: if_splits)

lemma pool_step_pids:
  "pool_step p p' \<Longrightarrow> distinct (workers p @ ended p) \<Longrightarrow> distinct (workers p' @ ended p')"
proof (induction rule: pool_step.induct)
  case (connect p fd pid is_proc w zs s ws)
  then show ?case using server_poll_collects [OF connect(4)] by (auto dest: in_set_dropD)
next
  case (other p fd is_proc f w zs r)
  then show ?case using server_poll_collects [OF other(3)] by (auto dest: in_set_dropD)
next
  case (no_fork p fd is_proc w zs r)
  then show ?case using server_poll_collects [OF no_fork(3)] by (auto dest: in_set_dropD)
qed auto

lemma server_poll_fork:
  assumes "external_port s fd"
    "server_poll fd is_proc (Parent_of pid) w zs s = Some (zs1, Go_On srv)"
    "server_poll fd is_proc In_Child w zs s = Some (zs1, Worker child)"
  shows "srv = child" "procs srv > procs (snd (wait_proc zs s))"
  using assms
  by (auto simp: server_poll_def wait_proc_eq external_port_def incoming_def Let_def split: if_splits)

text \<open>Seen from the server, every step of the system is one of its own or nothing.\<close>

lemma system_step_pool: "system_step self s s' \<Longrightarrow> spool s' = spool s \<or> pool_step (spool s) (spool s')"
proof (induction rule: system_step.induct)
  case (accept s fd pid is_proc w zs srv child e answer addr hs)
  have "pool_step (spool s) ((spool s)\<lparr>psrv := srv, workers := [pid] @ workers (spool s), ended := zs\<rparr>)"
    using accept server_poll_fork(2) [OF accept(2,4,5)] by (intro pool_step.connect) simp_all
  then show ?case by simp
next
  case (ends i s c ws1 ws2)
  then show ?case by (auto intro: pool_step.finish)
qed auto

text \<open>The processes of the connections that have not ended are those the server counts as workers;
  every worker is one that its event loop can reach; every cache has the names that were loaded.\<close>

definition running :: "connection list \<Rightarrow> int list" where
  "running cs = map cpid (filter (\<lambda>c. \<not> cended c) cs)"

definition connection_ok :: "reg \<Rightarrow> cache \<Rightarrow> connection \<Rightarrow> bool" where
  "connection_ok self files c \<longleftrightarrow> cache_names (efiles (cenv c)) = cache_names files
     \<and> (\<forall>cl. cworker c = Some cl \<longrightarrow> (\<exists>sc. reachable (cenv c) self sc cl))"

definition system_inv :: "reg \<Rightarrow> cache \<Rightarrow> system \<Rightarrow> bool" where
  "system_inv self files s \<longleftrightarrow> pool_inv (spool s) \<and> cache_names (sfiles (psrv (spool s))) = cache_names files
     \<and> distinct (workers (spool s) @ ended (spool s)) \<and> mset (running (conns s)) = mset (workers (spool s))
     \<and> (\<forall>c \<in> set (conns s). connection_ok self files c)"

lemma running_update:
  assumes "i < length cs"
  shows "mset (running (cs[i := c])) + (if cended (cs ! i) then {#} else {# cpid (cs ! i) #})
    = mset (running cs) + (if cended c then {#} else {# cpid c #})"
  using assms
proof (induction cs arbitrary: i)
  case (Cons x cs)
  show ?case
  proof (cases i)
    case (Suc n)
    with Cons.prems Cons.IH [of n] show ?thesis by (simp add: running_def split: if_splits)
  qed (auto simp: running_def)
qed simp

lemma running_append: "running (cs @ [c]) = running cs @ (if cended c then [] else [cpid c])"
  by (simp add: running_def)

text \<open>What each step keeps.\<close>

lemma handle_fd_ok:
  assumes "cache_names (efiles e) = cache_names files"
  shows "connection_ok self files \<lparr>cpid = pid, cenv = e, cworker = handle_fd answer addr tls hs, cended = False\<rparr>"
  using assms by (auto simp: connection_ok_def handle_fd_def bind_Some_iff intro: reachable.start)

lemma connection_ok_step:
  assumes "connection_ok self files c" "cworker c = Some cl" "worker_step (cenv c) self cl cl'"
  shows "connection_ok self files (c\<lparr>cworker := Some cl'\<rparr>)"
  using assms by (auto simp: connection_ok_def intro: reachable.step)

lemma all_conns_update:
  "\<forall>c \<in> set cs. P c \<Longrightarrow> P c' \<Longrightarrow> \<forall>c \<in> set (cs[i := c']). P c"
  by (auto dest: set_update_subset_insert [THEN subsetD])

lemma system_step_pool_ok:
  assumes "system_step self s s'" "system_inv self files s"
  shows "pool_inv (spool s')" "cache_names (sfiles (psrv (spool s'))) = cache_names files"
    "distinct (workers (spool s') @ ended (spool s'))"
proof -
  have i: "pool_inv (spool s)" "cache_names (sfiles (psrv (spool s))) = cache_names files"
    "distinct (workers (spool s) @ ended (spool s))" using assms(2) by (simp_all add: system_inv_def)
  from system_step_pool [OF assms(1)] show "pool_inv (spool s')" "cache_names (sfiles (psrv (spool s'))) = cache_names files"
    "distinct (workers (spool s') @ ended (spool s'))"
    using i pool_step_inv [OF _ i(1)] pool_step_names pool_step_pids [OF _ i(3)] by metis+
qed

lemma system_step_running:
  assumes "system_step self s s'" "mset (running (conns s)) = mset (workers (spool s))"
  shows "mset (running (conns s')) = mset (workers (spool s'))"
  using assms
proof (induction rule: system_step.induct)
  case (work i s c cl cl')
  have "mset (running ((conns s)[i := c\<lparr>cworker := Some cl'\<rparr>])) = mset (running (conns s))"
    using running_update [OF work(1), of "c\<lparr>cworker := Some cl'\<rparr>"] work(2,3) by simp
  with work(6) show ?case by simp
next
  case (ends i s c ws1 ws2)
  have "add_mset (cpid c) (mset (running ((conns s)[i := c\<lparr>cended := True\<rparr>]))) = mset (running (conns s))"
    using running_update [OF ends(1), of "c\<lparr>cended := True\<rparr>"] ends(2,3) by simp
  also have "\<dots> = add_mset (cpid c) (mset (ws1 @ ws2))" using ends(4,5) by simp
  finally show ?case by simp
qed (simp_all add: running_append)

lemma system_step_conns:
  assumes "system_step self s s'" "cache_names (sfiles (psrv (spool s'))) = cache_names files"
    "\<forall>c \<in> set (conns s). connection_ok self files c"
  shows "\<forall>c \<in> set (conns s'). connection_ok self files c"
  using assms
proof (induction rule: system_step.induct)
  case (accept s fd pid is_proc w zs srv child e answer addr hs)
  have "cache_names (efiles e) = cache_names files"
    using accept(6,7) server_poll_fork(1) [OF accept(2,4,5)] by simp
  from handle_fd_ok [OF this, of self pid answer addr "fd \<noteq> http_sock child" hs] accept(8) show ?case by simp
next
  case (work i s c cl cl')
  have "connection_ok self files c" using work(1,2,7) nth_mem by blast
  from all_conns_update [OF work(7) connection_ok_step [OF this work(4,5)]] show ?case by simp
next
  case (ends i s c ws1 ws2)
  have "connection_ok self files c" using ends(1,2,6) nth_mem by blast
  then have "connection_ok self files (c\<lparr>cended := True\<rparr>)" by (simp add: connection_ok_def)
  from all_conns_update [OF ends(6) this] show ?case by simp
qed simp

lemma system_step_inv:
  assumes "system_step self s s'" "system_inv self files s"
  shows "system_inv self files s'"
proof -
  have i: "mset (running (conns s)) = mset (workers (spool s))" "\<forall>c \<in> set (conns s). connection_ok self files c"
    using assms(2) by (simp_all add: system_inv_def)
  note p = system_step_pool_ok [OF assms]
  show ?thesis
    unfolding system_inv_def
    using p system_step_running [OF assms(1) i(1)] system_step_conns [OF assms(1) p(2) i(2)] by blast
qed

lemma system_reachable_iff:
  "system_reachable self http tls files s
    \<longleftrightarrow> (\<exists>s0. s0 = start_system http tls files \<and> (system_step self)\<^sup>*\<^sup>* s0 s)"
proof
  assume "system_reachable self http tls files s"
  then show "\<exists>s0. s0 = start_system http tls files \<and> (system_step self)\<^sup>*\<^sup>* s0 s"
    by (induction rule: system_reachable.induct) (blast intro: rtranclp.rtrancl_into_rtrancl)+
next
  assume "\<exists>s0. s0 = start_system http tls files \<and> (system_step self)\<^sup>*\<^sup>* s0 s"
  then obtain s0 where "(system_step self)\<^sup>*\<^sup>* s0 s" "s0 = start_system http tls files" by blast
  then show "system_reachable self http tls files s"
    by (induction rule: rtranclp_induct) (blast intro: system_reachable.intros)+
qed

lemma start_system_inv: "system_inv self files (start_system http tls files)"
  by (simp add: system_inv_def start_system_def start_pool_def pool_inv_def MAX_PROCS_def running_def)

interpretation whole: invariant_system "\<lambda>s. s = start_system http tls files" "system_step self"
    "system_reachable self http tls files" "system_inv self files"
  for self http tls files
  by unfold_locales (auto simp: system_reachable_iff intro: start_system_inv system_step_inv)

interpretation server_view: simulation "\<lambda>s. s = start_system http tls files" "system_step self"
    "system_reachable self http tls files" spool pool_step
  for self http tls files
  by unfold_locales (rule system_step_pool)

text \<open>What is shown of the pool alone holds here too.\<close>

lemma system_pool_reachable:
  assumes "system_reachable self http tls files s"
  shows "pool_reachable http tls files (spool s)"
proof -
  let ?s0 = "start_system http tls files"
  have "(system_step self)\<^sup>*\<^sup>* ?s0 s" using assms by (simp add: system_reachable_iff)
  from server_view.run_arun [OF this system_reachable.start] have "pool_step\<^sup>*\<^sup>* (spool ?s0) (spool s)" .
  then show ?thesis by (simp add: pool_reachable_iff start_system_def)
qed

text \<open>C9: The server and its workers agree, in whatever order their steps come: the connections whose
  processes have not ended are exactly the workers the server has, one process for each, at most
  200 with those that wait to be collected; and whatever state a worker is in, it has sent nothing
  before the handler at whose end it exits.\<close>

theorem system_workers:
  assumes "system_reachable self http tls files s"
  shows "mset (map cpid (filter (\<lambda>c. \<not> cended c) (conns s))) = mset (workers (spool s))
    \<and> distinct (workers (spool s) @ ended (spool s)) \<and> length (workers (spool s) @ ended (spool s)) \<le> 200
    \<and> (\<forall>c \<in> set (conns s). \<forall>cl. cworker c = Some cl \<longrightarrow> cexit cl \<or> sent (snd (csocket cl)) = [])"
proof -
  have i: "system_inv self files s" using whole.reach_inv [OF assms] .
  have "cexit cl \<or> sent (snd (csocket cl)) = []" if "c \<in> set (conns s)" "cworker c = Some cl" for c cl
  proof -
    obtain sc where "reachable (cenv c) self sc cl" using i \<open>c \<in> _\<close> \<open>cworker c = _\<close> unfolding system_inv_def connection_ok_def by blast
    then show ?thesis using worker.reach_inv by (auto simp: worker_inv_def)
  qed
  then show ?thesis using i by (auto simp: system_inv_def pool_inv_def running_def MAX_PROCS_def)
qed

lemma cache_names_mem:
  assumes "cache_names fs = cache_names gs" "Some fc \<in> set fs"
  shows "\<exists>gc. Some gc \<in> set gs \<and> file_name gc = file_name fc"
proof -
  have "Some (file_name fc) \<in> set (cache_names fs)" using assms(2) by (force simp: cache_names_def)
  then have "Some (file_name fc) \<in> map_option file_name ` set gs" unfolding assms(1) by (simp add: cache_names_def)
  then obtain x where "x \<in> set gs" "Some (file_name fc) = map_option file_name x" by blast
  then obtain gc where "x = Some gc" "file_name gc = file_name fc" by (metis map_option_eq_Some)
  with \<open>x \<in> set gs\<close> show ?thesis by blast
qed

text \<open>C14: Whatever happens, and however often files are loaded again: every worker answers
  every request with an error page or with a file that was found in the directory at the start and
  whose name does not begin with a dot; the cache never has more than 1024 entries.\<close>

theorem system_serves_visible:
  assumes "load_directory d fes [] = Some files" "system_reachable self http tls files s" "c \<in> set (conns s)"
    "dispatch_method (cenv c) m cl = Some r"
  shows "length (efiles (cenv c)) \<le> 1024
    \<and> answered (cenv c) (\<lambda>fc. \<exists>fe. fe \<in> set fes \<and> visible fe \<and> file_name fc = fts_accpath fe) cl r"
proof
  have n: "cache_names (efiles (cenv c)) = cache_names files"
    using whole.reach_inv [OF assms(2)] assms(3) by (simp add: system_inv_def connection_ok_def)
  then have "length (efiles (cenv c)) = length files" unfolding cache_names_def by (rule map_eq_imp_length_eq)
  then show "length (efiles (cenv c)) \<le> 1024" using loaded_entries(1) [OF assms(1)] by simp
  have "\<exists>fe. fe \<in> set fes \<and> visible fe \<and> file_name fc = fts_accpath fe" if "Some fc \<in> set (efiles (cenv c))" for fc
  proof -
    obtain gc where "Some gc \<in> set files" "file_name gc = file_name fc" using cache_names_mem [OF n \<open>Some fc \<in> _\<close>] by blast
    then show ?thesis using loaded_visible [OF assms(1)] by fastforce
  qed
  then show "answered (cenv c) (\<lambda>fc. \<exists>fe. fe \<in> set fes \<and> visible fe \<and> file_name fc = fts_accpath fe) cl r"
    by (intro answered_mono [OF dispatch_answered [OF assms(4)]])
qed

subsection \<open>From the connection to the answer\<close>

lemma accept_step:
  assumes "pool_inv (spool s)" "palive (spool s)" "\<not> sdone (psrv (spool s))" "length (workers (spool s)) < 200"
    "external_port (psrv (spool s)) fd" "pid \<notin> set (workers (spool s)) \<union> set (ended (spool s))"
    "efiles e = sfiles (psrv (spool s))"
  shows "\<exists>srv. system_step self s (s\<lparr>spool := (spool s)\<lparr>psrv := srv, workers := pid # workers (spool s), ended := []\<rparr>,
    conns := conns s @ [\<lparr>cpid = pid, cenv = e, cworker = handle_fd answer addr (fd \<noteq> http_sock (psrv (spool s))) hs, cended = False\<rparr>]\<rparr>)"
proof -
  let ?n = "int (length (ended (spool s)))" and ?s = "psrv (spool s)"
  let ?srv = "?s\<lparr>procs := procs ?s - ?n + 1\<rparr>"
  have w: "wait_proc (ended (spool s)) ?s = ([], ?s\<lparr>procs := procs ?s - ?n\<rparr>)" using assms(3) by (simp add: wait_proc_eq)
  have n: "\<not> procs ?s - ?n \<ge> MAX_PROCS" using assms(1-4) by (simp add: pool_inv_def MAX_PROCS_def)
  have p: "server_poll fd False (Parent_of pid) w (ended (spool s)) ?s = Some ([], Go_On ?srv)"
    "server_poll fd False In_Child w (ended (spool s)) ?s = Some ([], Worker ?srv)" for w
    using assms(5) n by (simp_all add: server_poll_def w external_port_def incoming_def Let_def)
  have "efiles e = sfiles ?srv" "http_sock ?srv = http_sock ?s" using assms(7) by simp_all
  with system_step.accept [OF assms(2,5,6) p this(1), of self answer addr hs] show ?thesis by metis
qed

lemma worker_runs:
  assumes "(worker_step e self)\<^sup>*\<^sup>* cl cl'" "i < length (conns s)" "conns s ! i = c" "cworker c = Some cl" "\<not> cended c" "cenv c = e"
  shows "(system_step self)\<^sup>*\<^sup>* s (s\<lparr>conns := (conns s)[i := c\<lparr>cworker := Some cl'\<rparr>]\<rparr>)"
  using assms(1)
proof (induction rule: rtranclp_induct)
  case base
  have "c\<lparr>cworker := Some cl\<rparr> = c" using assms(4) by simp
  then show ?case using assms(3) by (metis list_update_id rtranclp.rtrancl_refl system.surjective system.update_convs(2))
next
  case (step u v)
  let ?s = "s\<lparr>conns := (conns s)[i := c\<lparr>cworker := Some u\<rparr>]\<rparr>"
  have "system_step self ?s (?s\<lparr>conns := (conns ?s)[i := (c\<lparr>cworker := Some u\<rparr>)\<lparr>cworker := Some v\<rparr>]\<rparr>)"
    using assms(2,5,6) step(2) by (intro system_step.work) auto
  with step(3) show ?case by (simp add: rtranclp.rtrancl_into_rtrancl)
qed

text \<open>A connection that is accepted, whose worker runs to its exit and ends.\<close>

lemma connection_runs:
  assumes "pool_inv (spool s)" "palive (spool s)" "\<not> sdone (psrv (spool s))" "length (workers (spool s)) < 200"
    "external_port (psrv (spool s)) fd" "pid \<notin> set (workers (spool s)) \<union> set (ended (spool s))"
    "efiles e = sfiles (psrv (spool s))" "handle_fd answer addr (fd \<noteq> http_sock (psrv (spool s))) hs = Some cl"
    "run_loop e self jas cl = Some cl'"
  shows "\<exists>s'. (system_step self)\<^sup>*\<^sup>* s s'
    \<and> conns s' = conns s @ [\<lparr>cpid = pid, cenv = e, cworker = Some cl', cended = True\<rparr>]
    \<and> workers (spool s') = workers (spool s) \<and> ended (spool s') = [pid]"
proof -
  let ?c = "\<lambda>cl d. \<lparr>cpid = pid, cenv = e, cworker = Some cl, cended = d\<rparr>" and ?n = "length (conns s)"
  obtain srv where a: "system_step self s (s\<lparr>spool := (spool s)\<lparr>psrv := srv, workers := pid # workers (spool s), ended := []\<rparr>,
    conns := conns s @ [?c cl False]\<rparr>)" (is "system_step self s ?s1")
    using accept_step [OF assms(1-7), of self answer addr hs] unfolding assms(8) by blast
  have r: "(system_step self)\<^sup>*\<^sup>* ?s1 (?s1\<lparr>conns := (conns ?s1)[?n := (?c cl False)\<lparr>cworker := Some cl'\<rparr>]\<rparr>)"
    by (rule worker_runs [OF run_loop_steps [OF assms(9)]]) simp_all
  let ?s2 = "?s1\<lparr>conns := (conns ?s1)[?n := (?c cl False)\<lparr>cworker := Some cl'\<rparr>]\<rparr>"
  have "system_step self ?s2 (?s2\<lparr>spool := (spool ?s2)\<lparr>workers := [] @ workers (spool s), ended := ended (spool ?s2) @ [cpid (?c cl' False)]\<rparr>,
    conns := (conns ?s2)[?n := (?c cl' False)\<lparr>cended := True\<rparr>]\<rparr>)" (is "system_step self ?s2 ?s3")
    by (rule system_step.ends) simp_all
  with a r have "(system_step self)\<^sup>*\<^sup>* s ?s3"
    by (meson converse_rtranclp_into_rtranclp rtranclp.rtrancl_into_rtrancl)
  then show ?thesis by (intro exI [of _ ?s3]) simp
qed

lemma accept_socket_fresh:
  assumes "accept_socket answer addr tls hs = Some (Some sc)"
  shows "sbuf sc = None" "\<not> sclosed sc"
  using assms by (auto simp: accept_socket_def create_socket_def resume_socket_def Let_def bind_Some_iff split: if_splits)

text \<open>C4: The server always can serve: in every state that it reaches, with its loop running and fewer
  than 200 workers, whatever its other workers are doing, a connection with a GET request for a file of
  the cache of less than \<open>2 ^ 31\<close> bytes has a run in which it is accepted, its worker writes the
  answer, exits and is left to be collected, while every other connection and worker is as it was.
  When every write succeeds the peer gets the whole answer, otherwise what precedes the first write
  that fails.\<close>

theorem system_answers:
  assumes "system_reachable self http tls files s" "palive (spool s)" "\<not> sdone (psrv (spool s))"
    "length (workers (spool s)) < 200" "pid \<notin> set (workers (spool s)) \<union> set (ended (spool s))"
    "external_port (psrv (spool s)) fd" "efiles e = sfiles (psrv (spool s))"
    "accept_socket answer addr (fd \<noteq> http_sock (psrv (spool s))) hs = Some (Some sc)"
    "whole_writes (ekw e)" "wf_fields kvs" "plain_length kvs" "comes_in jas (request_line ''GET'' p vs) kvs body"
    "map_of kvs ''Host'' = Some field" "CHR '':'' \<notin> set host"
    "field = host \<or> (\<exists>port. field = host @ CHR '':'' # port \<and> port \<noteq> [] \<and> \<not> isspace (hd port))"
    "word_bytes p" "p \<noteq> []" "CHR ''?'' \<notin> set p" "leads_to e (length kvs) host p (Some fc)"
    "wf_form vs" "length vs \<le> 250" "word_bytes (form_bytes vs)"
    "0 \<le> fsize fc" "fsize fc \<le> int (length (fdata fc))" "fmime fc = Some m" "NUL \<notin> set (mtype m)"
    "mhandler m = Script_Handler \<or> mhandler m = Img_Handler \<and> map_of kvs ''Range'' = None
      \<and> NUL \<notin> set (edate e) \<and> NUL \<notin> set (eexpires e)" "fsize fc < 2 ^ 31"
  shows "\<exists>s' cl body. (system_step self)\<^sup>*\<^sup>* s s'
    \<and> conns s' = conns s @ [\<lparr>cpid = pid, cenv = e, cworker = Some cl, cended = True\<rparr>] \<and> cexit cl
    \<and> workers (spool s') = workers (spool s) \<and> ended (spool s') = [pid]
    \<and> delivers (ekw e) (sc, \<lparr>sent = [], writes = 0\<rparr>)
        (''HTTP/1.1 200 OK'' @ CRLF @ header_lines (file_fields e m) @ CRLF @ body) (csocket cl)
    \<and> (complete (ekw e) \<longrightarrow> fst (csocket cl) = sc \<and> sent (snd (csocket cl))
        = ''HTTP/1.1 200 OK'' @ CRLF @ header_lines (file_fields e m) @ CRLF @ body)
    \<and> unchunk body = Some (take (nat (fsize fc)) (fdata fc), [])"
proof -
  note sc = accept_socket_fresh [OF assms(8)]
  obtain cl cl' out where w: "handle sc = Some cl" "run_loop e self (jas @ [(0, [])]) cl = Some cl'" "cexit cl'"
    "delivers (ekw e) (sc, \<lparr>sent = [], writes = 0\<rparr>)
        (''HTTP/1.1 200 OK'' @ CRLF @ header_lines (file_fields e m) @ CRLF @ out) (csocket cl')"
    "unchunk out = Some (take (nat (fsize fc)) (fdata fc), [])"
    using get_served [OF assms(9) sc assms(10-28), of self 0 "[]"] by blast
  let ?out = "''HTTP/1.1 200 OK'' @ CRLF @ header_lines (file_fields e m) @ CRLF @ out"
  have all: "fst (csocket cl') = sc \<and> sent (snd (csocket cl')) = ?out" if c: "complete (ekw e)"
  proof -
    obtain n where "csocket cl' = (sc, \<lparr>sent = sent \<lparr>sent = [], writes = 0\<rparr> @ ?out, writes = n\<rparr>)"
      using delivers_complete [OF c sc(2) w(4)] .
    then show ?thesis by simp
  qed
  have "handle_fd answer addr (fd \<noteq> http_sock (psrv (spool s))) hs = Some cl"
    unfolding handle_fd_def assms(8) by (simp add: w(1))
  moreover have "pool_inv (spool s)" using whole.reach_inv [OF assms(1)] by (simp add: system_inv_def)
  ultimately show ?thesis
    using connection_runs [OF _ assms(2,3,4,6,5,7) _ w(2)] w(3-5) all by metis
qed

subsection \<open>A server with one page\<close>

definition one_page :: system where
  "one_page = start_system 3 0 [Some sample_page]"

theorem system_answers_witness:
  "\<exists>s cl body. system_reachable 0 3 0 [Some sample_page] s
    \<and> conns s = [\<lparr>cpid = 41, cenv = index_env, cworker = Some cl, cended = True\<rparr>] \<and> cexit cl
    \<and> ended (spool s) = [41] \<and> unchunk body = Some (''hello'', [])
    \<and> sent (snd (csocket cl)) = ''HTTP/1.1 200 OK'' @ CRLF
        @ header_lines (response_fields @ [(''Content-Type'', ''text/html'')]) @ CRLF @ body"
proof -
  let ?sc = "create_socket 5 False \<lparr>sin_addr = 1, sin_port = 80\<rparr>" and ?kvs = "[(''Host'', ''a.org'')]"
  let ?line = "request_line ''GET'' ''/secret/'' []" and ?mime = "\<lparr>ending = ''html'', mtype = ''text/html'', mhandler = Script_Handler\<rparr>"
  have l: "leads_to index_env (length [(''Host'', ''a.org'')]) ''a.org'' ''/secret/'' (Some sample_page)"
    using index_env_leads by simp
  have "length (?line @ CRLF @ header_lines ?kvs @ CRLF @ []) \<le> 4000"
    by (simp add: request_line_def target_def header_lines_def header_line_def)
  from comes_at_once [OF arrives_Data [OF this], of 0]
  have come: "comes_in [(0, [Data (?line @ CRLF @ header_lines ?kvs @ CRLF @ []), Again])] ?line ?kvs []"
    by (simp add: announced_def)
  have acc: "accept_socket 5 \<lparr>sin_addr = 1, sin_port = 80\<rparr> (3 \<noteq> http_sock (psrv (spool one_page))) [] = Some (Some ?sc)"
    by (simp add: one_page_def start_system_def start_pool_def accept_socket_def word_less_nat_alt)
  have "\<exists>s' cl body. (system_step 0)\<^sup>*\<^sup>* one_page s'
    \<and> conns s' = conns one_page @ [\<lparr>cpid = 41, cenv = index_env, cworker = Some cl, cended = True\<rparr>] \<and> cexit cl
    \<and> workers (spool s') = workers (spool one_page) \<and> ended (spool s') = [41]
    \<and> delivers (ekw index_env) (?sc, \<lparr>sent = [], writes = 0\<rparr>)
        (''HTTP/1.1 200 OK'' @ CRLF @ header_lines (file_fields index_env ?mime) @ CRLF @ body) (csocket cl)
    \<and> (complete (ekw index_env) \<longrightarrow> fst (csocket cl) = ?sc \<and> sent (snd (csocket cl))
        = ''HTTP/1.1 200 OK'' @ CRLF @ header_lines (file_fields index_env ?mime) @ CRLF @ body)
    \<and> unchunk body = Some (take (nat (fsize sample_page)) (fdata sample_page), [])"
    by (rule system_answers [OF _ _ _ _ _ _ _ acc _ _ _ come _ _ _ _ _ _ l, where field = "''a.org''" and http = 3 and tls = 0
          and files = "[Some sample_page]"])
      (simp_all add: one_page_def start_system_def start_pool_def system_reachable.start [unfolded start_system_def start_pool_def]
        external_port_def sample_page_def sample_file_def wf_fields_def wf_key_def
        wf_value_def plain_length_def word_bytes_def isspace_def whole_writes_def index_env_def sample_env_def wf_form_def)
  then obtain s' cl body where w: "(system_step 0)\<^sup>*\<^sup>* one_page s'"
    "conns s' = conns one_page @ [\<lparr>cpid = 41, cenv = index_env, cworker = Some cl, cended = True\<rparr>]" "cexit cl" "ended (spool s') = [41]"
    "complete (ekw index_env) \<longrightarrow> fst (csocket cl) = ?sc \<and> sent (snd (csocket cl))
        = ''HTTP/1.1 200 OK'' @ CRLF @ header_lines (file_fields index_env ?mime) @ CRLF @ body"
    "unchunk body = Some (take (nat (fsize sample_page)) (fdata sample_page), [])" by blast
  have "complete (ekw index_env)" by (simp add: index_env_def)
  with w(5) have "sent (snd (csocket cl)) = ''HTTP/1.1 200 OK'' @ CRLF
      @ header_lines (file_fields index_env ?mime) @ CRLF @ body" by blast
  moreover have "take (nat (fsize sample_page)) (fdata sample_page) = ''hello''" "conns one_page = []"
    "file_fields index_env ?mime = response_fields @ [(''Content-Type'', ''text/html'')]"
    by (simp_all add: sample_page_def sample_file_def file_fields_def one_page_def start_system_def)
  moreover have "system_reachable 0 3 0 [Some sample_page] s'"
    using w(1) by (auto simp: system_reachable_iff one_page_def)
  ultimately show ?thesis using w(2-4,6) by (intro exI [of _ s'] exI [of _ cl] exI [of _ body]) simp
qed

lemma accepted:
  assumes "system_reachable self 3 0 files s" "palive (spool s)" "\<not> sdone (psrv (spool s))" "workers (spool s) = []"
    "ended (spool s) = []" "conns s = []" "http_sock (psrv (spool s)) = 3" "efiles e = sfiles (psrv (spool s))"
  shows "\<exists>s'. system_reachable self 3 0 files s' \<and> workers (spool s') = [41]
    \<and> conns s' = [\<lparr>cpid = 41, cenv = e, cworker = handle_fd 5 \<lparr>sin_addr = 1, sin_port = 80\<rparr> False [], cended = False\<rparr>]"
proof -
  have "pool_inv (spool s)" using whole.reach_inv [OF assms(1)] by (simp add: system_inv_def)
  from accept_step [OF this assms(2,3), of 3 41 e self 5 "\<lparr>sin_addr = 1, sin_port = 80\<rparr>" "[]"] assms(4-8)
  obtain srv where "system_step self s (s\<lparr>spool := (spool s)\<lparr>psrv := srv, workers := [41], ended := []\<rparr>,
    conns := [\<lparr>cpid = 41, cenv = e, cworker = handle_fd 5 \<lparr>sin_addr = 1, sin_port = 80\<rparr> False [], cended = False\<rparr>]\<rparr>)"
    by (auto simp: external_port_def)
  from system_reachable.step [OF assms(1) this] show ?thesis by (intro exI conjI) (assumption | simp)+
qed

theorem system_workers_witness:
  "\<exists>s. system_reachable 0 3 0 [Some sample_page] s \<and> workers (spool s) = [41]
    \<and> mset (map cpid (filter (\<lambda>c. \<not> cended c) (conns s))) = {# 41 #}
    \<and> (\<forall>c \<in> set (conns s). \<exists>cl. cworker c = Some cl \<and> (cexit cl \<or> sent (snd (csocket cl)) = []))"
proof -
  have "system_reachable 0 3 0 [Some sample_page] one_page" unfolding one_page_def by (rule system_reachable.start)
  from accepted [OF this, of index_env] obtain s where s: "system_reachable 0 3 0 [Some sample_page] s" "workers (spool s) = [41]"
    "conns s = [\<lparr>cpid = 41, cenv = index_env, cworker = handle_fd 5 \<lparr>sin_addr = 1, sin_port = 80\<rparr> False [], cended = False\<rparr>]"
    by (auto simp: one_page_def start_system_def start_pool_def index_env_def)
  obtain cl where "handle_fd 5 \<lparr>sin_addr = 1, sin_port = 80\<rparr> False [] = Some cl"
    by (simp add: handle_fd_def accept_socket_def word_less_nat_alt handle_def open_request_def new_request_def parse_host_def)
  with system_workers [OF s(1)] s show ?thesis by (intro exI [of _ s]) auto
qed

text \<open>The page of \<open>served_env\<close> after it has been loaded again.\<close>

definition changed_page :: opened where
  "changed_page = \<lparr>ofd = 9, ostat_failed = False, osize = 5, omap = Some (''howdy'' @ [NUL])\<rparr>"

definition reloaded_env :: env where
  "reloaded_env = served_env\<lparr>efiles := snd (the (reload 7 changed_page (efiles served_env)))\<rparr>"

lemma page_reloads: "reload 7 changed_page (efiles served_env) \<noteq> None"
  by code_simp

lemma reloaded_serves: "map_option fst (dispatch_method reloaded_env (lit ''GET'') served_client) = Some 200"
  by code_simp

theorem system_serves_visible_witness:
  "\<exists>s c r. system_reachable 0 3 0 (efiles served_env) s \<and> c \<in> set (conns s) \<and> cenv c = reloaded_env
    \<and> dispatch_method reloaded_env (lit ''GET'') served_client = Some r \<and> fst r = 200
    \<and> answered reloaded_env (\<lambda>fc. file_name fc = ''/srv/a.org/i.lws'') served_client r"
proof -
  let ?s0 = "start_system 3 0 (efiles served_env)"
  obtain f where f: "reload 7 changed_page (efiles served_env) = Some (f, efiles reloaded_env)"
    using page_reloads by (auto simp: reloaded_env_def)
  let ?srv = "(psrv (spool ?s0))\<lparr>sfiles := efiles reloaded_env\<rparr>"
  have "server_poll 7 False In_Child changed_page (ended (spool ?s0)) (psrv (spool ?s0)) = Some ([], Go_On ?srv)"
    using f by (simp add: start_system_def start_pool_def server_poll_def external_port_def)
  from pool_step.other [OF _ _ this]
  have "pool_step (spool ?s0) ((spool ?s0)\<lparr>psrv := ?srv, palive := True, ended := []\<rparr>)"
    by (simp add: start_system_def start_pool_def external_port_def after_def lives_def)
  then have "system_step 0 ?s0 (?s0\<lparr>spool := (spool ?s0)\<lparr>psrv := ?srv, palive := True, ended := []\<rparr>\<rparr>)"
    by (rule system_step.server) simp
  from accepted [OF system_reachable.step [OF system_reachable.start this], of reloaded_env]
  obtain s c where s: "system_reachable 0 3 0 (efiles served_env) s" "c \<in> set (conns s)" "cenv c = reloaded_env"
    by (auto simp: start_system_def start_pool_def)
  obtain r where r: "dispatch_method reloaded_env (lit ''GET'') served_client = Some r" "fst r = 200"
    using reloaded_serves by auto
  have "load_directory (lit ''.'') sample_entries [] = Some (efiles served_env)"
    using sample_loads by (auto simp: served_env_def)
  note v = system_serves_visible [OF this s(1,2), unfolded s(3), OF r(1)]
  then have "answered reloaded_env (\<lambda>fc. file_name fc = ''/srv/a.org/i.lws'') served_client r"
    by (elim conjE answered_mono) (auto simp: sample_entries_def visible_def)
  with s r show ?thesis by blast
qed

end
