(* ===== verification/Net.thy ===== *)
theory Net
  imports Client Tls
begin

section \<open>Opening connections (sockets.c, hostnames.c, timers.c)\<close>

text \<open>
  Listening, accepting, connecting and datagrams.  The answers of the system calls are arguments;
  a descriptor is a \<open>reg\<close>, an unsigned word, so that a negative answer becomes a huge one.
\<close>

text \<open>What a function that may end the process returns.\<close>

datatype 'a unless_exit = Goes_On 'a | Exits_With int

subsection \<open>Timers (timers.c)\<close>

text \<open>\<open>struct itimerval\<close>: seconds and microseconds of the interval and of the first value.\<close>

record itimerval =
  it_interval :: "int \<times> int"
  it_value :: "int \<times> int"

definition timeout :: "int \<Rightarrow> int \<Rightarrow> itimerval" where
  "timeout seconds useconds = \<lparr>it_interval = (0, 0), it_value = (seconds, useconds)\<rparr>"

definition timer :: "bool \<Rightarrow> unit option" where
  "timer fails = (if fails then error_log ''Failed to set timeout'' [] else Some ())"

text \<open>The socket options that take a \<open>struct timeval\<close> are given the address of \<open>Timeout\<close>, whose
  first member is the interval.\<close>

definition as_timeval :: "itimerval \<Rightarrow> int \<times> int" where
  "as_timeval t = it_interval t"

text \<open>\<open>socket_timeout\<close>: the two timeouts that the kernel is asked for, and the result; the second is
  only set when the first call fails.\<close>

definition socket_timeout :: "int \<Rightarrow> int \<Rightarrow> int \<Rightarrow> (int \<times> int) list \<times> bool" where
  "socket_timeout seconds rcv sndto = (let t = as_timeval (timeout seconds 0) in
     if rcv \<noteq> 0 then ([t, t], sndto \<noteq> 0) else ([t], False))"

subsection \<open>Listening\<close>

text \<open>\<open>new_socket\<close>: the answers of \<open>socket\<close> and of \<open>setsockopt\<close>.\<close>

definition new_socket :: "int \<Rightarrow> bool \<Rightarrow> int unless_exit" where
  "new_socket answer reuse_fails = (let fd = (of_int answer :: reg) in
     if fd < 0 then Goes_On 0
     else if reuse_fails then Exits_With 0 else Goes_On (reg_to_int fd))"

text \<open>Each of the next three answers the result and the descriptors it closes.\<close>

definition bind_socket :: "reg \<Rightarrow> int \<Rightarrow> bool \<Rightarrow> (int \<times> reg list) option" where
  "bind_socket fd port fails =
     (if fails then do {
        _ \<leftarrow> error_log (''Failed to bind to port %i'' @ [LF]) [AReg (of_int port)];
        Some (0, [fd]) }
      else Some (reg_to_int fd, []))"

definition listen_socket :: "reg \<Rightarrow> bool \<Rightarrow> int \<times> reg list" where
  "listen_socket fd fails = (if fails then (0, [fd]) else (reg_to_int fd, []))"

definition open_socket :: "int \<Rightarrow> int \<Rightarrow> bool \<Rightarrow> bool \<Rightarrow> bool \<Rightarrow> (int \<times> reg list) unless_exit option" where
  "open_socket port answer reuse_fails bind_fails listen_fails =
     (case new_socket answer reuse_fails of
        Exits_With n \<Rightarrow> Some (Exits_With n)
      | Goes_On f \<Rightarrow> do {
          let fd = (of_int f :: reg);
          (b, cs) \<leftarrow> bind_socket fd port bind_fails;
          _ \<leftarrow> (if b = 0 then error_log ''Failed to bind to port %i'' [AReg (of_int port)] else Some ());
          let (l, ds) = listen_socket fd listen_fails;
          _ \<leftarrow> (if l = 0 then error_log ''Failed to listen to port %i'' [AReg (of_int port)] else Some ());
          Some (Goes_On (reg_to_int fd, cs @ ds)) })"

subsection \<open>Host names and connecting\<close>

text \<open>\<open>lookup\<close>: \<open>None\<close> is the NULL that \<open>gethostbyname\<close> answers for an unknown host.  The list has
  no end mark: behind it is what the region holds there, \<open>behind\<close>.\<close>

fun log_addresses :: "32 word list \<Rightarrow> unit option" where
  "log_addresses [] = Some ()"
| "log_addresses (a # as) = do {
     p \<leftarrow> ipaddress a 80;
     _ \<leftarrow> debug_log ''Found ip address: %s'' [AStr p];
     log_addresses as }"

definition lookup :: "32 word list option \<Rightarrow> 32 word list \<Rightarrow> 32 word list option" where
  "lookup found behind = (case found of None \<Rightarrow> None
     | Some addrs \<Rightarrow> do { _ \<leftarrow> log_addresses addrs; Some (addrs @ behind) })"

text \<open>The loop of \<open>connect_socket\<close> over the addresses up to a zero: \<open>kc\<close> answers whether the call of
  \<open>connect\<close> fails and whether the alarm went off.  \<open>%c\<close> is given the \<open>str\<close> itself, so it prints the
  bytes of that structure, \<open>raw\<close>, up to a zero.\<close>

fun connect_loop :: "string \<Rightarrow> int \<Rightarrow> (32 word \<Rightarrow> bool \<times> bool) \<Rightarrow> 32 word list \<Rightarrow> 32 word option
    \<Rightarrow> 32 word option option" where
  "connect_loop raw port kc [] r = None"
| "connect_loop raw port kc (a # as) r =
     (if a = 0 then Some r
      else do {
        p \<leftarrow> ipaddress a port;
        _ \<leftarrow> debug_log ''Connecting to socket %s'' [AStr p];
        (if fst (kc a) then do {
           _ \<leftarrow> (if snd (kc a) then error_log ''[JAWAS] socket conect timeout!'' [] else Some ());
           _ \<leftarrow> error_log ''[JAWAS] failed to connect to %c:%i'' [AChars raw, AReg (of_int port)];
           connect_loop raw port kc as None }
         else Some (Some a)) })"

text \<open>The end of \<open>connect_socket\<close> for a secure connection: \<open>hs\<close> is the answer of the handshake and
  \<open>cert\<close> the verdict on the certificate and its name.  Without \<open>server.tls_client\<close>, which is only
  set when \<open>use_tls\<close> is, there is no structure to shake hands with.\<close>

definition secure_failed :: "bool \<Rightarrow> int \<times> ssl_error \<Rightarrow> bool \<times> string \<Rightarrow> bool option" where
  "secure_failed tls_client hs cert =
     (if \<not> tls_client then None
      else do {
        c \<leftarrow> connect_tls (fst hs) (snd hs);
        (if c then Some True else check_tls (fst cert) (snd cert)) })"

text \<open>\<open>connect_socket\<close>.  The timer that it sets for each call of \<open>connect\<close> only shows in the alarm,
  which it resets.\<close>

definition connect_socket :: "32 word list option \<Rightarrow> 32 word list \<Rightarrow> int \<Rightarrow> bool \<Rightarrow> string
    \<Rightarrow> (32 word \<Rightarrow> bool \<times> bool) \<Rightarrow> int \<Rightarrow> bool \<Rightarrow> bool \<Rightarrow> int \<times> ssl_error \<Rightarrow> bool \<times> string
    \<Rightarrow> socket option unless_exit option" where
  "connect_socket found behind answer reuse_fails raw kc port ssl tls_client hs cert = do {
     ipaddrs \<leftarrow> lookup found behind;
     (case new_socket answer reuse_fails of
        Exits_With n \<Rightarrow> Some (Exits_With n)
      | Goes_On sock \<Rightarrow>
          if sock = 0 then do { _ \<leftarrow> error_log ''[JAWAS] failed to create socket'' []; Some (Goes_On None) }
          else do {
            r \<leftarrow> connect_loop raw port kc ipaddrs None;
            (case r of None \<Rightarrow> Some (Goes_On None)
             | Some a \<Rightarrow> do {
                 h \<leftarrow> fmt ''%c'' [AChars raw];
                 let sc = create_socket (of_int sock) (ssl \<and> tls_client) (attachTo a port);
                 bad \<leftarrow> (if ssl then secure_failed tls_client hs cert else Some False);
                 (if bad then do {
                    _ \<leftarrow> error_log ''[SSL] Failed to make secure connection'' [];
                    Some (Goes_On None) }
                  else Some (Goes_On (Some (sc\<lparr>shost := h, speer := a, sport := port\<rparr>)))) }) }) }"

subsection \<open>Datagrams\<close>

text \<open>\<open>socket_send\<close>: where the bytes go, the bytes, and the answer of \<open>sendto\<close>.\<close>

definition socket_send :: "socket \<Rightarrow> str \<Rightarrow> int \<Rightarrow> (sockaddr \<times> string \<times> int) option" where
  "socket_send sc msg answer = (case msg of None \<Rightarrow> None
     | Some v \<Rightarrow> do { x \<leftarrow> fetch_bytes (sdata v) (slen v); Some (attachTo (speer sc) (sport sc), x, reg_to_int (of_int answer)) })"

text \<open>\<open>recvfrom\<close> gives the front of the next datagram and drops the rest of it.\<close>

definition le_bytes :: "string \<Rightarrow> int" where
  "le_bytes xs = foldr (\<lambda>c n. byte c + 256 * n) xs 0"

text \<open>The first call reads eight bytes into \<open>msg_size\<close>, over what was on the stack, \<open>junk\<close>; the
  second one fills a string of that size from the datagram behind.\<close>

definition socket_recv :: "string \<Rightarrow> string list \<Rightarrow> (str \<times> string list) option" where
  "socket_recv junk dgrams = (case dgrams of
     a # b # rest \<Rightarrow>
       (let size_bytes = take 8 a @ drop (length (take 8 a)) (take 8 junk);
            n = wrap32 (le_bytes size_bytes) in
        if 0 \<le> n then Some (view (take (nat n) b) (replicate (nat n - length b) NUL), rest) else None)
   | _ \<Rightarrow> None)"

subsection \<open>What a caller gets\<close>

lemma log_port [simp]:
  "error_log ''Failed to bind to port %i'' [AReg n] = Some ()"
  "error_log ''Failed to listen to port %i'' [AReg n] = Some ()"
  by (simp_all add: error_log_def new_str_def)

lemma bind_socket_eq [simp]: "bind_socket fd port fails = Some (if fails then (0, [fd]) else (reg_to_int fd, []))"
  by (simp add: bind_socket_def error_log_def new_str_def)

text \<open>The port of the server is opened without a way to fail: whatever \<open>socket\<close>, \<open>bind\<close> and
  \<open>listen\<close> answer, the caller gets a descriptor, the same one, which is closed when \<open>bind\<close> or
  \<open>listen\<close> failed.\<close>

theorem open_socket_hides_failure:
  "\<exists>fd cs. open_socket port answer False b l = Some (Goes_On (fd, cs))
    \<and> open_socket port answer False False False = Some (Goes_On (fd, []))
    \<and> (cs \<noteq> [] \<longleftrightarrow> b \<or> l)"
  by (cases b; cases l) (simp_all add: open_socket_def new_socket_def listen_socket_def Let_def word_less_nat_alt)

lemma ipaddress_ok: "\<exists>xs. ipaddress a port = Some (lit xs)"
  by (simp add: ipaddress_def fmt_def new_str_def)

lemma log_addresses_ok: "log_addresses as = Some ()"
proof (induction as)
  case (Cons a as)
  obtain xs where "ipaddress a 80 = Some (lit xs)" using ipaddress_ok by blast
  then show ?case using Cons by (simp add: debug_log_def new_str_def)
qed simp

lemma connect_loop_step:
  assumes "a \<noteq> 0" "NUL \<in> set raw"
  shows "connect_loop raw port kc (a # as) r = (if fst (kc a) then connect_loop raw port kc as None else Some (Some a))"
proof -
  obtain xs where p: "ipaddress a port = Some (lit xs)" using ipaddress_ok by blast
  obtain h where h: "cstr raw = Some h" using assms(2) by (simp add: cstr_def)
  have "error_log ''[JAWAS] failed to connect to %c:%i'' [AChars raw, AReg n] = Some ()" for n
    using h by (simp add: error_log_def new_str_def convert_def)
  moreover have "error_log ''[JAWAS] socket conect timeout!'' [] = Some ()" by (simp add: error_log_def new_str_def)
  moreover have "debug_log ''Connecting to socket %s'' [AStr (lit xs)] = Some ()" by (simp add: debug_log_def new_str_def)
  ultimately show ?thesis using assms(1) p by simp
qed

lemma connect_loop_first:
  assumes "\<forall>a \<in> set as. a \<noteq> 0 \<and> fst (kc a)" "NUL \<in> set raw"
  shows "connect_loop raw port kc (as @ bs) r = connect_loop raw port kc bs (if as = [] then r else None)"
  using assms(1)
proof (induction as arbitrary: r)
  case (Cons a as)
  then show ?case using connect_loop_step [OF _ assms(2), of a port kc "as @ bs" r] by auto
qed simp

text \<open>C35: A connection is made to the first address of the host that accepts it.  When none does, the
  loop goes on with what the memory behind the list of addresses holds, and connects there.\<close>

theorem connects_to_first:
  assumes "\<forall>a \<in> set as. a \<noteq> 0 \<and> fst (kc a)" "a \<noteq> 0" "\<not> fst (kc a)" "NUL \<in> set raw"
    "reg_to_int (of_int answer) \<noteq> 0" "found = as @ a # bs \<and> behind = cs \<or> found = as \<and> behind = a # cs"
  shows "\<exists>sc. connect_socket (Some found) behind answer False raw kc port False tc hs cert = Some (Goes_On (Some sc))
    \<and> speer sc = a \<and> sport sc = port \<and> \<not> sclosed sc \<and> shost sc = lit (takeWhile (\<lambda>c. c \<noteq> NUL) raw)"
proof -
  have "\<exists>ds. found @ behind = as @ a # ds" using assms(6) by auto
  then obtain ds where ds: "lookup (Some found) behind = Some (as @ a # ds)"
    by (auto simp: lookup_def log_addresses_ok)
  have l: "connect_loop raw port kc (as @ a # ds) None = Some (Some a)"
    using connect_loop_first [OF assms(1,4)] connect_loop_step [OF assms(2,4)] assms(3) by simp
  have "fmt ''%c'' [AChars raw] = Some (lit (takeWhile (\<lambda>c. c \<noteq> NUL) raw))"
    using assms(4) by (simp add: fmt_def new_str_def convert_def cstr_def)
  then show ?thesis
    using assms(5) ds l
    by (simp add: connect_socket_def new_socket_def Let_def word_less_nat_alt create_socket_def resume_socket_def)
qed

theorem connects_to_first_witness:
  "\<exists>sc. connect_socket (Some [1]) [7] 5 False [CHR ''x'', NUL] (\<lambda>a. (a = 1, False)) 80 False False (0, SSL_ERROR_NONE) (False, []) = Some (Goes_On (Some sc))
    \<and> speer sc = 7 \<and> shost sc = lit ''x''"
  using connects_to_first [of "[1]" "\<lambda>a. (a = 1, False)" 7 "[CHR ''x'', NUL]" 5 "[1]" "[]" "[7]" "[]" 80 False
      "(0, SSL_ERROR_NONE)" "(False, [])"]
  by (auto simp: reg_to_int_def)

text \<open>The timeout that an accepted or connected socket is given is zero, which is none, whatever
  was asked for, and a second one is only set when the first call failed.\<close>

theorem socket_timeout_void:
  "fst (socket_timeout seconds rcv sndto) = (if rcv \<noteq> 0 then [(0, 0), (0, 0)] else [(0, 0)])"
  by (simp add: socket_timeout_def timeout_def as_timeval_def Let_def)

text \<open>Receiving takes two datagrams: the first is lost but for its first eight bytes, which are
  taken as the size of the string that the second is cut to.\<close>

theorem datagram_lost:
  assumes "length h = 8" "0 \<le> wrap32 (le_bytes h)"
  shows "\<exists>zs. socket_recv junk ((h @ a) # b # rest) = Some (view (take (nat (wrap32 (le_bytes h))) b) zs, rest)"
  using assms by (simp add: socket_recv_def Let_def)

theorem datagram_lost_witness:
  "\<exists>zs. socket_recv [] [CHR 3 # replicate 7 NUL @ ''first'', ''second''] = Some (view ''sec'' zs, [])"
  using datagram_lost [of "CHR 3 # replicate 7 NUL" "[]" "''first''" "''second''" "[]"]
  by (simp add: le_bytes_def byte_def wrap32_def eval_nat_numeral)

end
