(* ===== verification/Procedures.thy ===== *)
theory Procedures
  imports Lua_Query
begin

section \<open>Stored procedures: from the database to a page\<close>

text \<open>
  At start-up \<open>PrepareProcedures\<close> asks for the names of the procedures and keeps the beginning of
  the call of each in a header table; every page gets a Lua function for each of them.  When the
  question fails, the server process prints a reason that is gone, and crashes.
\<close>

subsection \<open>The table\<close>

text \<open>The binding of a procedure.\<close>

definition call_of :: "string \<Rightarrow> string \<times> string" where
  "call_of x = (x, ''SELECT * FROM '' @ x @ ''('')"

lemma fmt_call: "fmt ''SELECT * FROM %s('' [AStr (view x ys)] = Some (lit (snd (call_of x)))"
  by (simp add: fmt_def new_str_def call_of_def)

lemma fetch_eq:
  "db st = Some d \<Longrightarrow> res d = Some r \<Longrightarrow> PQgetvalue pq r i j = Some x \<Longrightarrow> NUL \<notin> set x \<Longrightarrow>
    fetch pq i j st = Some (lit x)"
  by (simp add: fetch_def chars_str_def fmt_def new_str_def)

text \<open>The bound of the loop keeps it from the endless loop of a full table.\<close>

lemma proc_loop_eq:
  assumes "db st = Some d" "res d = Some r" "wf_table t" "length (table_entries t) = nat i" "0 \<le> i"
    "i \<le> MAX_HEADERS" "n = i + int (length ns)"
    "\<And>k. k < length ns \<Longrightarrow> PQgetvalue pq r (i + int k) 0 = Some (ns ! k) \<and> NUL \<notin> set (ns ! k)"
  shows "\<exists>t'. proc_loop pq st n i t = Some t' \<and> wf_table t'
    \<and> table_entries t' = table_entries t @ map call_of (take (nat (MAX_HEADERS - i)) ns)"
  using assms(3-)
proof (induction ns arbitrary: i t)
  case (Cons x ns)
  show ?case
  proof (cases "i < MAX_HEADERS")
    case True
    have f: "fetch pq i 0 st = Some (lit x)"
      using Cons.prems(6) [of 0] by (intro fetch_eq [OF assms(1,2)]) auto
    have "length (table_entries t) < nat MAX_HEADERS" using Cons.prems(2,3) True by simp
    from header_table.add_room [OF Cons.prems(1) this, of "lit x" "lit (snd (call_of x))"]
    obtain t1 where t1: "append_header t (lit x) (lit (snd (call_of x))) = Some t1" "wf_table t1"
      "table_entries t1 = table_entries t @ [call_of x]" by (auto simp: call_of_def)
    have step: "proc_loop pq st n i t = proc_loop pq st n (i + 1) t1"
      using True Cons.prems(5) t1(1) by (subst proc_loop.simps) (simp add: f fmt_call)
    have k: "PQgetvalue pq r (i + 1 + int k) 0 = Some (ns ! k) \<and> NUL \<notin> set (ns ! k)" if "k < length ns" for k
      using Cons.prems(6) [of "Suc k"] that by (simp add: add.assoc)
    have "nat (MAX_HEADERS - i) = Suc (nat (MAX_HEADERS - (i + 1)))" using True by simp
    moreover have "length (table_entries t1) = nat (i + 1)" using t1(3) Cons.prems(2,3) by simp
    ultimately show ?thesis
      using Cons.IH [OF t1(2), of "i + 1"] Cons.prems(3,5) True k unfolding step t1(3) by simp
  next
    case False
    then show ?thesis using Cons.prems(1,4) by (subst proc_loop.simps) simp
  qed
qed (subst proc_loop.simps, simp)

lemma new_table: "wf_table new_headers" "table_entries new_headers = []"
  using new_headers_wf
  by (auto simp: wf_table_def table_entries_def new_headers_def entries_def live_slots_def)

subsection \<open>Preparing the procedures\<close>

definition procedures_sql :: string where
  "procedures_sql = ''SELECT * from functions_in('' @ [SQUOTE] @ ''public'' @ [SQUOTE] @ '');''"

lemma fmt_functions_in:
  "fmt (''SELECT * from functions_in('' @ [SQUOTE] @ ''%c'' @ [SQUOTE] @ '');'') [AChars (''public'' @ [NUL])]
    = Some (lit procedures_sql)"
proof -
  have "new_str_loop (''SELECT * from functions_in('' @ [SQUOTE] @ ''%c'' @ [SQUOTE] @ '');'') [AChars (''public'' @ [NUL])] []
    = Some procedures_sql"
    by (simp add: procedures_sql_def convert_def cstr_def)
  then show ?thesis by (simp add: fmt_def new_str_def)
qed

lemma new_database_eq:
  assumes "PQconnectdb pq (pgworld st) DB_CONNECT_STRING = (ok, w)"
  shows "new_database pq st = Some (st\<lparr>pgworld := w, db := Some \<lparr>is_open = True, res = None\<rparr>\<rparr>)"
proof -
  have "debug_log DB_CONNECT_STRING [] = Some ()"
    by (simp add: debug_log_def DB_CONNECT_STRING_def new_str_def)
  moreover have "dblog ''Failed to connect to database %c'' [AChars (DB_CONNECT_STRING @ [NUL])] = Some ()"
    by (simp add: dblog_def new_str_def convert_def cstr_def DB_CONNECT_STRING_def)
  ultimately show ?thesis using assms by (simp add: new_database_def set_database_def)
qed

lemma prepare_query:
  assumes "PQconnectdb pq (pgworld st) DB_CONNECT_STRING = (ok, w)" "PQexec pq w procedures_sql = (r, w')"
    "NUL \<notin> set (PQresultErrorMessage pq r)"
  shows "query pq (lit procedures_sql) (st\<lparr>pgworld := w, db := Some \<lparr>is_open = True, res = None\<rparr>\<rparr>) =
    Some (if PQresultStatus pq r = PGRES_TUPLES_OK then PQntuples pq (the r)
          else if good_status (PQresultStatus pq r) then 0 else - 1,
      st\<lparr>pgworld := w', db := Some \<lparr>is_open = True,
        res = (if PQresultStatus pq r = PGRES_TUPLES_OK then r else None)\<rparr>\<rparr>)"
proof -
  have "sent_sql procedures_sql = procedures_sql" by (simp add: procedures_sql_def)
  then show ?thesis
    using query_eq [of "st\<lparr>pgworld := w, db := Some \<lparr>is_open = True, res = None\<rparr>\<rparr>" _ pq procedures_sql r w' "[NUL]"]
      assms(2,3) by simp
qed

text \<open>C39: The server process does not survive its start when the question for the stored
  procedures fails, as it does without a database: the reason that it prints is NULL.\<close>

theorem database_needed:
  assumes "PQconnectdb pq (pgworld st) DB_CONNECT_STRING = (ok, w)" "PQexec pq w procedures_sql = (r, w')"
    "NUL \<notin> set (PQresultErrorMessage pq r)" "\<not> good_status (PQresultStatus pq r)"
  shows "PrepareProcedures pq ''public'' st procs = None"
proof -
  have "PQresultStatus pq r \<noteq> PGRES_TUPLES_OK" using assms(4) by (auto simp: good_status_def)
  then show ?thesis
    using assms(4) unfolding PrepareProcedures_def new_database_eq [OF assms(1)] fmt_functions_in
    by (simp add: prepare_query [OF assms(1-3)] db_error_def dblog_NULL)
qed

text \<open>A server that cannot be reached: libpq makes a connection without one, and answers NULL.\<close>

theorem database_needed_witness:
  "PrepareProcedures (sample_libpq\<lparr>PQconnectdb := (\<lambda>w s. (False, w)), PQexec := (\<lambda>w q. (None, w))\<rparr>)
     ''public'' \<lparr>db = None, lins_database = False, pgworld = []\<rparr> None = None"
  by (rule database_needed [of _ _ False "[]" None "[]"])
    (simp_all add: PQresultErrorMessage_def PQresultStatus_def good_status_def)

subsection \<open>The functions of a page\<close>

lemma ProceduresLua_eq:
  assumes "wf_headers h"
  shows "ProceduresLua (Some h) = Some (entries h)"
proof -
  have "those (map (\<lambda>s. do {
      k \<leftarrow> hkey s; v \<leftarrow> hvalue s; x \<leftarrow> fetch_bytes (sdata k) (slen k); y \<leftarrow> fetch_bytes (sdata v) (slen v);
      Some (x, y) }) ss) = Some (map entry ss)" if "\<forall>s \<in> set ss. wf_slot s" for ss
    using that by (induction ss) (auto elim!: wf_slotE)
  then show ?thesis using assms by (simp add: ProceduresLua_def wf_headers_def entries_def)
qed

text \<open>C27: Each of the first 250 procedures that the database names becomes a Lua function of its name,
  over the beginning of its call, and the connection of the start-up is closed.\<close>

theorem procedures_bound:
  assumes "PQconnectdb pq (pgworld st) DB_CONNECT_STRING = (ok, w)" "PQexec pq w procedures_sql = (Some r, w')"
    "PQstatus_of pq r = PGRES_TUPLES_OK" "NUL \<notin> set (PQmessage_of pq r)" "PQntuples pq r = int (length ns)"
    "\<forall>k < length ns. PQgetvalue pq r (int k) 0 = Some (ns ! k)" "\<forall>x \<in> set ns. NUL \<notin> set x"
  shows "\<exists>h. PrepareProcedures pq ''public'' st procs
      = Some (0, Some h, st\<lparr>pgworld := w', db := Some \<lparr>is_open = False, res = None\<rparr>\<rparr>)
    \<and> ProceduresLua (Some h) = Some (map call_of (take 250 ns))"
proof -
  have s: "PQresultStatus pq (Some r) = PGRES_TUPLES_OK" "NUL \<notin> set (PQresultErrorMessage pq (Some r))"
    using assms(3,4) by (simp_all add: PQresultStatus_def PQresultErrorMessage_def)
  let ?st = "st\<lparr>pgworld := w', db := Some \<lparr>is_open = True, res = Some r\<rparr>\<rparr>"
  have "\<exists>t'. proc_loop pq ?st (int (length ns)) 0 new_headers = Some t' \<and> wf_table t'
    \<and> table_entries t' = table_entries new_headers @ map call_of (take (nat (MAX_HEADERS - 0)) ns)"
    using assms(6,7) new_table by (intro proc_loop_eq) (auto simp: MAX_HEADERS_def)
  then obtain h where h: "proc_loop pq ?st (int (length ns)) 0 new_headers = Some (Some h)" "wf_headers h"
    "entries h = map call_of (take 250 ns)"
    unfolding new_table(2) by (auto simp: wf_table_def table_entries_def MAX_HEADERS_def split: option.splits)
  have "PrepareProcedures pq ''public'' st procs
      = Some (0, Some h, st\<lparr>pgworld := w', db := Some \<lparr>is_open = False, res = None\<rparr>\<rparr>)"
    unfolding PrepareProcedures_def new_database_eq [OF assms(1)] fmt_functions_in
    by (simp add: prepare_query [OF assms(1,2) s(2)] s(1) assms(5) h(1) close_database_def)
  then show ?thesis using ProceduresLua_eq [OF h(2)] h(3) by auto
qed

theorem procedures_bound_witness:
  "\<exists>h st'. PrepareProcedures (sample_libpq\<lparr>PQexec := (\<lambda>w q. (Some [[''login'']], w @ [q]))\<rparr>)
      ''public'' \<lparr>db = None, lins_database = False, pgworld = []\<rparr> None = Some (0, Some h, st')
    \<and> ProceduresLua (Some h) = Some [(''login'', ''SELECT * FROM login('')]"
proof -
  have "\<exists>h. PrepareProcedures (sample_libpq\<lparr>PQexec := (\<lambda>w q. (Some [[''login'']], w @ [q]))\<rparr>)
      ''public'' \<lparr>db = None, lins_database = False, pgworld = []\<rparr> None
      = Some (0, Some h, \<lparr>db = None, lins_database = False, pgworld = []\<rparr>
          \<lparr>pgworld := [procedures_sql], db := Some \<lparr>is_open = False, res = None\<rparr>\<rparr>)
    \<and> ProceduresLua (Some h) = Some (map call_of (take 250 [''login'']))"
    by (rule procedures_bound [of _ _ True "[]" "[[''login'']]"]) (auto simp: sample_libpq_def)
  then show ?thesis by (auto simp: call_of_def)
qed

end
