(* ===== verification/Server_Start.thy ===== *)
theory Server_Start
  imports Server Net Procedures
begin

section \<open>The start and the stop of the server (serve and stop of server.c, files.c, events.c)\<close>

text \<open>
  \<open>serve\<close> opens the port, asks for its events, loads the files of the working directory, asks for
  the changes of each, and prepares the stored procedures; then the event loop of \<open>Server\<close> begins.
  \<open>use_tls\<close> is 0 in config.h, so the code of the second port is not compiled in.
\<close>

subsection \<open>What the server waits for (events.c)\<close>

type_synonym registrations = "(reg \<times> event_types \<times> event_flags) list"

definition monitor_socket :: "reg \<Rightarrow> registrations \<Rightarrow> registrations" where
  "monitor_socket f q = q @ [(f, READ, NONE)]"

definition add_file_monitor :: "reg \<Rightarrow> registrations \<Rightarrow> registrations" where
  "add_file_monitor f q = q @ [(f, NODE, ONESHOT)]"

definition add_pid_monitor :: "int \<Rightarrow> registrations \<Rightarrow> registrations" where
  "add_pid_monitor p q = q @ [(of_int p, PROC, EXIT)]"

text \<open>\<open>open_file\<close> asks for the changes of every file that it opens.\<close>

fun file_monitors :: "cache \<Rightarrow> registrations \<Rightarrow> registrations" where
  "file_monitors [] q = q"
| "file_monitors (f # fs) q =
     file_monitors fs (case f of None \<Rightarrow> q | Some fc \<Rightarrow> add_file_monitor (of_int (ffd fc)) q)"

subsection \<open>Loading and closing files (files.c)\<close>

text \<open>The answer of \<open>getcwd\<close>; a NULL is handed to \<open>strlen\<close>.\<close>

definition set_cwd :: "string option \<Rightarrow> str option" where
  "set_cwd tmp = (case tmp of None \<Rightarrow> None | Some d \<Rightarrow> Some (ref (d @ [NUL]) (int (length d))))"

definition load_files :: "string option \<Rightarrow> fts_entry list \<Rightarrow> cache \<Rightarrow> (str \<times> cache) option" where
  "load_files tmp fes files = do {
     cwd \<leftarrow> set_cwd tmp;
     d \<leftarrow> fmt ''%s'' [AStr cwd];
     files \<leftarrow> load_directory d fes files;
     Some (cwd, files) }"

text \<open>The sizes that are unmapped and the descriptors that are closed; an entry that could not be
  opened is dereferenced.\<close>

fun close_files :: "cache \<Rightarrow> (int \<times> int) list option" where
  "close_files [] = Some []"
| "close_files (f # fs) = (case f of None \<Rightarrow> None
     | Some fc \<Rightarrow> do { r \<leftarrow> close_files fs; Some ((fsize fc, ffd fc) # r) })"

text \<open>\<open>stop\<close>: the descriptors it closes, \<open>kq\<close> the one of the event queue.\<close>

definition stop :: "int \<Rightarrow> server \<Rightarrow> int list option" where
  "stop kq s = do { r \<leftarrow> close_files (sfiles s); Some ([http_sock s, tls_sock s, kq] @ map snd r) }"

subsection \<open>Starting (server.c)\<close>

text \<open>\<open>serve\<close> up to its loop.  The answers for the port are those of \<open>open_socket\<close>.\<close>

definition serve_start :: "('d, 'r) libpq \<Rightarrow> int \<Rightarrow> int \<Rightarrow> bool \<Rightarrow> bool \<Rightarrow> bool \<Rightarrow> string option \<Rightarrow> fts_entry list
    \<Rightarrow> ('d, 'r) pgstate \<Rightarrow> headers \<Rightarrow> (pool \<times> registrations \<times> headers \<times> ('d, 'r) pgstate) unless_exit option" where
  "serve_start pq port answer reuse_fails bind_fails listen_fails tmp fes st prepared = do {
     r \<leftarrow> open_socket port answer reuse_fails bind_fails listen_fails;
     (case r of
        Exits_With n \<Rightarrow> Some (Exits_With n)
      | Goes_On (fd, closed) \<Rightarrow> do {
          let q = monitor_socket (of_int fd) [];
          (cwd, files) \<leftarrow> load_files tmp fes [];
          let q = file_monitors files q;
          (_, prepared, st) \<leftarrow> PrepareProcedures pq ''public'' st prepared;
          Some (Goes_On (start_pool fd 0 files, q, prepared, st)) }) }"

subsection \<open>Signals of a worker (signals.c, sockets.c)\<close>

definition alrm_signal_handler :: "client \<Rightarrow> client" where
  "alrm_signal_handler cl = cl\<lparr>calarm := True\<rparr>"

text \<open>SIGPIPE: there may be no response yet, whose socket is dereferenced.\<close>

definition signal_handler :: "client \<Rightarrow> client option" where
  "signal_handler cl = (case cresponse cl of None \<Rightarrow> None
     | Some resp \<Rightarrow> Some (cl\<lparr>csocket := ((fst (csocket cl))\<lparr>sclosed := True\<rparr>, snd (csocket cl))\<rparr>))"

subsection \<open>What the server waits for after its start\<close>

definition file_registrations :: "cache \<Rightarrow> registrations" where
  "file_registrations fs = map (\<lambda>fc. (of_int (ffd fc), NODE, ONESHOT)) (map the (filter (\<lambda>f. f \<noteq> None) fs))"

lemma file_monitors_eq: "file_monitors fs q = q @ file_registrations fs"
  by (induction fs q rule: file_monitors.induct) (auto simp: file_registrations_def add_file_monitor_def)

lemma serve_start_registers:
  assumes "serve_start pq port answer rf bf lf tmp fes st prepared = Some (Goes_On (p, q, prepared', st'))"
  shows "\<exists>fd files. p = start_pool fd 0 files \<and> q = (of_int fd, READ, NONE) # file_registrations files
    \<and> pool_reachable fd 0 files p"
proof -
  obtain r where r: "open_socket port answer rf bf lf = Some r"
    using assms by (cases "open_socket port answer rf bf lf") (auto simp: serve_start_def)
  obtain fd files where p: "p = start_pool fd 0 files" "q = file_monitors files (monitor_socket (of_int fd) [])"
  proof (cases r)
    case (Goes_On x)
    then show thesis using assms r that by (cases x) (auto simp: serve_start_def bind_Some_iff Let_def)
  qed (use assms r in \<open>simp add: serve_start_def\<close>)
  then show ?thesis
    by (intro exI [of _ fd] exI [of _ files]) (simp add: file_monitors_eq monitor_socket_def pool_reachable.start)
qed

text \<open>A server that starts has a database: with a port and files, but without an answer to the query
  for the procedures, it does not come to its loop.\<close>

lemma serve_start_needs_procedures:
  assumes "PrepareProcedures pq ''public'' st prepared = None"
  shows "serve_start pq port answer False bf lf tmp fes st prepared = None"
  using assms
  by (auto simp: serve_start_def open_socket_def new_socket_def Let_def word_less_nat_alt bind_eq_None_conv
      split: unless_exit.splits bind_split prod.splits)

text \<open>A one-shot registration is gone when its event is delivered.\<close>

definition deliver :: "reg \<Rightarrow> registrations \<Rightarrow> registrations" where
  "deliver fd q = remove1 (fd, NODE, ONESHOT) q"

text \<open>A file is loaded again after its first change and no more: its event is delivered once, and
  \<open>reload\<close> does not ask for another one, neither for the old descriptor nor for the new one.\<close>

lemma reloaded_once:
  assumes "files = map Some fcs" "distinct (map (\<lambda>fc. of_int (ffd fc) :: reg) fcs)" "fc \<in> set fcs"
    "fd \<noteq> of_int port" "fd = of_int (ffd fc) \<or> fd \<notin> (\<lambda>fc. of_int (ffd fc)) ` set fcs"
  shows "(fd, NODE, ONESHOT) \<notin> set (deliver (of_int (ffd fc)) ((of_int port, READ, NONE) # file_registrations files))"
proof -
  have r: "file_registrations files = map (\<lambda>fd. (fd, NODE, ONESHOT)) (map (\<lambda>fc. of_int (ffd fc)) fcs)"
    by (simp add: file_registrations_def assms(1) filter_map comp_def)
  then have "distinct (file_registrations files)"
    using assms(2) by (simp add: distinct_map inj_on_def)
  moreover have "(fd, NODE, ONESHOT) \<in> set (file_registrations files) \<Longrightarrow> fd \<in> (\<lambda>fc. of_int (ffd fc)) ` set fcs"
    unfolding r by auto
  ultimately show ?thesis using assms(5) unfolding deliver_def by auto
qed

end
