(* ===== verification/Json_Props.thy ===== *)
theory Json_Props
  imports Json
begin

section \<open>What the JSON reader builds\<close>

text \<open>
  For the text of a JSON value without empty strings, with blanks between its parts, the reader makes
  exactly the calls that build the value: one table per array and object, its members stored in order.
  Empty strings become nil, escaped characters get a zero byte before them, numbers stay strings.
\<close>

subsection \<open>Values, their text and their calls\<close>

datatype json = JStr string | JTok string | JArr "json list" | JObj "(string \<times> json) list"

text \<open>What may stand between the quotes of a string, and what the reader copies of it: a backslash and
  the byte behind it become a zero byte and that byte.\<close>

fun escapes_ok :: "string \<Rightarrow> bool" where
  "escapes_ok [] = True"
| "escapes_ok [c] = (c \<noteq> DQUOTE \<and> c \<noteq> BACKSLASH)"
| "escapes_ok (c # d # cs) = (if c = BACKSLASH then escapes_ok cs else c \<noteq> DQUOTE \<and> escapes_ok (d # cs))"

fun copied :: "string \<Rightarrow> string" where
  "copied [] = []"
| "copied [c] = [c]"
| "copied (c # d # cs) = (if c = BACKSLASH then NUL # d # copied cs else c # copied (d # cs))"

lemma length_copied [simp]: "length (copied s) = length s"
  by (induction s rule: copied.induct) auto

lemma copied_Nil_iff [simp]: "copied s = [] \<longleftrightarrow> s = []"
  by (metis length_0_conv length_copied)

lemma escapes_append:
  "DQUOTE \<notin> set a \<Longrightarrow> BACKSLASH \<notin> set a \<Longrightarrow> escapes_ok (a @ b) = escapes_ok b \<and> copied (a @ b) = a @ copied b"
proof (induction a)
  case (Cons c a)
  then show ?case by (cases "a @ b") auto
qed simp

definition plain_word :: "string \<Rightarrow> bool" where
  "plain_word s \<longleftrightarrow> s \<noteq> [] \<and> escapes_ok s"

definition plain_token :: "string \<Rightarrow> bool" where
  "plain_token t \<longleftrightarrow> t \<noteq> [] \<and> (\<forall>c \<in> set t. \<not> token_end c)"

fun json_wf :: "json \<Rightarrow> bool" where
  "json_wf (JStr s) = plain_word s"
| "json_wf (JTok t) = plain_token t"
| "json_wf (JArr js) = (\<forall>x \<in> set js. json_wf x)"
| "json_wf (JObj ms) = (\<forall>m \<in> set ms. plain_word (fst m) \<and> json_wf (snd m))"

text \<open>The texts of a value: any blanks may stand before and behind each part.\<close>

definition blanks :: "string \<Rightarrow> bool" where
  "blanks b \<longleftrightarrow> (\<forall>c \<in> set b. space c)"

inductive json_text :: "json \<Rightarrow> string \<Rightarrow> bool" and elem_text :: "json list \<Rightarrow> string \<Rightarrow> bool"
  and member_text :: "(string \<times> json) list \<Rightarrow> string \<Rightarrow> bool" where
  text_str: "json_text (JStr s) (DQUOTE # s @ [DQUOTE])"
| text_tok: "json_text (JTok t) t"
| text_arr: "elem_text js u \<Longrightarrow> json_text (JArr js) (CHR ''['' # u)"
| text_obj: "member_text ms u \<Longrightarrow> json_text (JObj ms) (CHR ''{'' # u)"
| no_elem: "blanks a \<Longrightarrow> elem_text [] (a @ '']'')"
| last_elem: "blanks a \<Longrightarrow> json_text x t \<Longrightarrow> blanks b \<Longrightarrow> elem_text [x] (a @ t @ b @ '']'')"
| next_elem: "blanks a \<Longrightarrow> json_text x t \<Longrightarrow> blanks b \<Longrightarrow> elem_text (y # js) u
    \<Longrightarrow> elem_text (x # y # js) (a @ t @ b @ CHR '','' # u)"
| no_member: "blanks a \<Longrightarrow> member_text [] (a @ ''}'')"
| last_member: "blanks a \<Longrightarrow> blanks c \<Longrightarrow> blanks d \<Longrightarrow> json_text x t \<Longrightarrow> blanks b
    \<Longrightarrow> member_text [(k, x)] (a @ (DQUOTE # k @ DQUOTE # c @ CHR '':'' # d) @ t @ b @ ''}'')"
| next_member: "blanks a \<Longrightarrow> blanks c \<Longrightarrow> blanks d \<Longrightarrow> json_text x t \<Longrightarrow> blanks b \<Longrightarrow> member_text (y # ms) u
    \<Longrightarrow> member_text ((k, x) # y # ms) (a @ (DQUOTE # k @ DQUOTE # c @ CHR '':'' # d) @ t @ b @ CHR '','' # u)"

inductive_cases json_textE: "json_text x t"
inductive_simps json_text_simps: "json_text (JStr s) t" "json_text (JTok s) t" "json_text (JArr js) t" "json_text (JObj ms) t"

fun json_calls :: "(calls \<Rightarrow> int) \<Rightarrow> json \<Rightarrow> calls \<Rightarrow> calls"
  and elem_calls :: "(calls \<Rightarrow> int) \<Rightarrow> int \<Rightarrow> int \<Rightarrow> json list \<Rightarrow> calls \<Rightarrow> calls"
  and member_calls :: "(calls \<Rightarrow> int) \<Rightarrow> int \<Rightarrow> (string \<times> json) list \<Rightarrow> calls \<Rightarrow> calls" where
  "json_calls h (JStr s) cs = cs @ [Push_Str (copied s)]"
| "json_calls h (JTok t) cs = cs @ [Push_Str t]"
| "json_calls h (JArr js) cs = elem_calls h (h (cs @ [New_Table])) 0 js (cs @ [New_Table])"
| "json_calls h (JObj ms) cs = member_calls h (h (cs @ [New_Table])) ms (cs @ [New_Table])"
| "elem_calls h n j [] cs = cs"
| "elem_calls h n j (x # xs) cs =
     elem_calls h n (j + 1) xs (json_calls h x (cs @ [Push_Number (j + 1)]) @ [Set_Table n])"
| "member_calls h n [] cs = cs"
| "member_calls h n ((k, x) # ms) cs =
     member_calls h n ms (json_calls h x (cs @ [Push_Str (copied k)]) @ [Set_Table n])"

subsection \<open>Words\<close>

declare at_middle [simp]

lemma word_loop_eq:
  assumes "\<forall>c \<in> set t. \<not> stop c" "stop d" "length t \<le> m"
  shows "word_loop stop (view (ps @ u @ t @ d # qs) ys) (int (length ps)) (int (length u)) \<lparr>slen = k, sdata = u @ replicate m NUL\<rparr>
    = Some (True, int (length (u @ t)), \<lparr>slen = (if t = [] then k else int (length (u @ t))),
        sdata = u @ t @ replicate (m - length t) NUL\<rparr>)"
  using assms
proof (induction t arbitrary: u m k)
  case Nil
  then show ?case
    using at_middle [of "ps @ u" d qs ys] by (subst word_loop.simps) (simp add: ac_simps)
next
  case (Cons c t)
  obtain m' where m: "m = Suc m'" using Cons.prems by (cases m) auto
  have a: "at (view (ps @ u @ (c # t) @ d # qs) ys) (int (length u) + int (length ps)) = Some c"
    using at_middle [of "ps @ u" c "t @ d # qs" ys] by (simp add: ac_simps)
  have c: "\<not> stop c" using Cons.prems by auto
  have l: "int (length u) + int (length ps) < len (view (ps @ u @ (c # t) @ d # qs) ys)" by simp
  have p: "poke (u @ replicate m NUL) (int (length u)) c = Some ((u @ [c]) @ replicate m' NUL)"
    by (simp add: m list_update_append)
  have w: "word_loop stop (view (ps @ u @ (c # t) @ d # qs) ys) (int (length ps)) (int (length u))
      \<lparr>slen = k, sdata = u @ replicate m NUL\<rparr>
    = word_loop stop (view (ps @ (u @ [c]) @ t @ d # qs) ys) (int (length ps)) (int (length (u @ [c])))
      \<lparr>slen = int (length (u @ [c])), sdata = (u @ [c]) @ replicate m' NUL\<rparr>"
    using c a l p by (subst word_loop.simps) (simp add: ac_simps)
  show ?case
    unfolding w using Cons.IH [of m' "u @ [c]" "int (length (u @ [c]))"] Cons.prems m by simp
qed

text \<open>One turn: a plain byte, and a backslash with the byte behind it.\<close>

lemma quoted_turn:
  assumes "length u = length v" "c \<noteq> DQUOTE" "c \<noteq> BACKSLASH"
  shows "quoted_loop (view (ps @ v @ c # zs) ys) (int (length ps)) (int (length u)) \<lparr>slen = k, sdata = u @ e # es\<rparr>
    = quoted_loop (view (ps @ v @ c # zs) ys) (int (length ps)) (int (length (u @ [c])))
        \<lparr>slen = int (length (u @ [c])), sdata = (u @ [c]) @ es\<rparr>"
proof -
  define s where "s = view (ps @ v @ c # zs) ys"
  have a: "at s (int (length ps) + int (length u)) = Some c" "at s (int (length u) + int (length ps)) = Some c"
    using at_middle [of "ps @ v" c zs ys] assms(1) by (simp_all add: s_def ac_simps)
  have c: "(c = DQUOTE) = False" "(c = BACKSLASH) = False" using assms by auto
  have l: "int (length u) + int (length ps) < len s" using assms(1) by (simp add: s_def)
  have p: "poke (u @ e # es) (int (length u)) c = Some ((u @ [c]) @ es)"
    by (simp add: list_update_append)
  have n: "int (length u) + 1 = int (length (u @ [c]))" by simp
  show ?thesis
    unfolding s_def [symmetric]
    by (subst quoted_loop.simps) (simp only: l a c p Let_def if_True if_False bind.bind_lunit str_struct.simps n)
qed

lemma quoted_turn_escape:
  assumes "length u = length v"
  shows "quoted_loop (view (ps @ v @ BACKSLASH # c # zs) ys) (int (length ps)) (int (length u)) \<lparr>slen = k, sdata = u @ NUL # e # es\<rparr>
    = quoted_loop (view (ps @ v @ BACKSLASH # c # zs) ys) (int (length ps)) (int (length (u @ [NUL, c])))
        \<lparr>slen = int (length (u @ [NUL, c])), sdata = (u @ [NUL, c]) @ es\<rparr>"
proof -
  define s where "s = view (ps @ v @ BACKSLASH # c # zs) ys"
  have a: "at s (int (length ps) + int (length u)) = Some BACKSLASH" "at s (int (length u) + 1 + int (length ps)) = Some c"
    using at_middle [of "ps @ v" BACKSLASH "c # zs" ys] at_middle [of "ps @ v @ [BACKSLASH]" c zs ys] assms(1)
    by (simp_all add: s_def ac_simps)
  have q: "(BACKSLASH = DQUOTE) = False" "(BACKSLASH = BACKSLASH) = True" by simp_all
  have l: "int (length u) + int (length ps) < len s" "int (length u) + 1 + int (length ps) < len s"
    using assms(1) by (simp_all add: s_def)
  have p: "poke (u @ NUL # e # es) (int (length u) + 1) c = Some ((u @ [NUL, c]) @ es)"
    by (simp add: nat_add_distrib list_update_append)
  have n: "int (length u) + 1 + 1 = int (length (u @ [NUL, c]))" by simp
  show ?thesis
    unfolding s_def [symmetric]
    by (subst quoted_loop.simps) (simp only: l a q p Let_def if_True if_False bind.bind_lunit str_struct.simps n)
qed

lemma quoted_loop_copy:
  assumes "escapes_ok t" "length t \<le> m" "length u = length v"
  shows "quoted_loop (view (ps @ v @ t @ zs) ys) (int (length ps)) (int (length u)) \<lparr>slen = k, sdata = u @ replicate m NUL\<rparr>
    = quoted_loop (view (ps @ v @ t @ zs) ys) (int (length ps)) (int (length (u @ t)))
        \<lparr>slen = (if t = [] then k else int (length (u @ t))), sdata = u @ copied t @ replicate (m - length t) NUL\<rparr>"
  using assms
proof (induction t arbitrary: u v m k rule: copied.induct)
  case (2 c)
  then obtain m' where m: "m = Suc m'" by (cases m) auto
  show ?case using quoted_turn [of u v c ps zs ys k NUL "replicate m' NUL"] 2 m by simp
next
  case (3 c d cs)
  then obtain m' where m: "m = Suc (Suc m')" by (cases m; cases "m - 1") auto
  show ?case
  proof (cases "c = BACKSLASH")
    case True
    have "quoted_loop (view (ps @ v @ (c # d # cs) @ zs) ys) (int (length ps)) (int (length u)) \<lparr>slen = k, sdata = u @ replicate m NUL\<rparr>
      = quoted_loop (view (ps @ (v @ [c, d]) @ cs @ zs) ys) (int (length ps)) (int (length (u @ [NUL, d])))
        \<lparr>slen = int (length (u @ [NUL, d])), sdata = (u @ [NUL, d]) @ replicate m' NUL\<rparr>"
      using quoted_turn_escape [OF 3(5), of ps d "cs @ zs" ys k NUL "replicate m' NUL"] True m by simp
    also have "\<dots> = quoted_loop (view (ps @ (v @ [c, d]) @ cs @ zs) ys) (int (length ps)) (int (length ((u @ [NUL, d]) @ cs)))
        \<lparr>slen = (if cs = [] then int (length (u @ [NUL, d])) else int (length ((u @ [NUL, d]) @ cs))),
          sdata = (u @ [NUL, d]) @ copied cs @ replicate (m' - length cs) NUL\<rparr>"
      using 3(3-5) True m by (intro "3.IH"(1)) simp_all
    finally show ?thesis using True m by (cases "cs = []") simp_all
  next
    case False
    have "quoted_loop (view (ps @ v @ (c # d # cs) @ zs) ys) (int (length ps)) (int (length u)) \<lparr>slen = k, sdata = u @ replicate m NUL\<rparr>
      = quoted_loop (view (ps @ (v @ [c]) @ (d # cs) @ zs) ys) (int (length ps)) (int (length (u @ [c])))
        \<lparr>slen = int (length (u @ [c])), sdata = (u @ [c]) @ replicate (Suc m') NUL\<rparr>"
      using quoted_turn [OF 3(5), of c ps "d # cs @ zs" ys k NUL "replicate (Suc m') NUL"] 3(3) False m by simp
    also have "\<dots> = quoted_loop (view (ps @ (v @ [c]) @ (d # cs) @ zs) ys) (int (length ps)) (int (length ((u @ [c]) @ d # cs)))
        \<lparr>slen = (if d # cs = [] then int (length (u @ [c])) else int (length ((u @ [c]) @ d # cs))),
          sdata = (u @ [c]) @ copied (d # cs) @ replicate (Suc m' - length (d # cs)) NUL\<rparr>"
      using 3(3-5) False m by (intro "3.IH"(2)) simp_all
    finally show ?thesis using False m by simp
  qed
qed simp

lemma quoted_loop_eq:
  assumes "escapes_ok t" "length t \<le> m"
  shows "quoted_loop (view (ps @ t @ DQUOTE # qs) ys) (int (length ps)) 0 \<lparr>slen = k, sdata = replicate m NUL\<rparr>
    = Some (True, int (length t), \<lparr>slen = (if t = [] then k else int (length t)),
        sdata = copied t @ replicate (m - length t) NUL\<rparr>)"
proof -
  have "quoted_loop (view (ps @ t @ DQUOTE # qs) ys) (int (length ps)) 0 \<lparr>slen = k, sdata = replicate m NUL\<rparr>
    = quoted_loop (view (ps @ t @ DQUOTE # qs) ys) (int (length ps)) (int (length t))
        \<lparr>slen = (if t = [] then k else int (length t)), sdata = copied t @ replicate (m - length t) NUL\<rparr>"
    using quoted_loop_copy [OF assms, of "[]" "[]" ps "DQUOTE # qs" ys k] by simp
  also have "\<dots> = Some (True, int (length t), \<lparr>slen = (if t = [] then k else int (length t)),
        sdata = copied t @ replicate (m - length t) NUL\<rparr>)"
    using at_middle [of "ps @ t" DQUOTE qs ys] by (subst quoted_loop.simps) (simp add: ac_simps)
  finally show ?thesis .
qed

lemma end_word_found:
  "t \<noteq> [] \<Longrightarrow> end_word True p (int (length t)) \<lparr>slen = int (length t), sdata = t @ zs\<rparr> cs
    = Some (Some \<lparr>slen = int (length t), sdata = t @ zs\<rparr>, p + int (length t), cs @ [Push_Str t])"
  by (simp add: end_word_def str2lua_def)

lemma word_quoted:
  assumes "plain_word t"
  shows "word (view (ps @ DQUOTE # t @ DQUOTE # qs) ys) (int (length ps)) cs
    = Some (int (length ps) + 1 + int (length t), cs @ [Push_Str (copied t)])"
proof -
  let ?s = "view (ps @ DQUOTE # t @ DQUOTE # qs) ys"
  let ?m = "length (DQUOTE # t @ DQUOTE # qs)"
  have t: "copied t \<noteq> []" "escapes_ok t" using assms by (simp_all add: plain_word_def)
  have q: "at ?s (int (length ps)) = Some DQUOTE" by simp
  have l: "quoted_loop ?s (int (length ps) + 1) 0 \<lparr>slen = int ?m, sdata = replicate ?m NUL\<rparr>
    = Some (True, int (length (copied t)), \<lparr>slen = int (length (copied t)), sdata = copied t @ replicate (?m - length t) NUL\<rparr>)"
    using quoted_loop_eq [OF t(2), of ?m "ps @ [DQUOTE]" qs ys "int ?m"] t(1)
    by (simp add: ac_simps del: replicate.simps)
  have b: "blank (len ?s - int (length ps)) = Some \<lparr>slen = int ?m, sdata = replicate ?m NUL\<rparr>"
    by (simp add: blank_def nat_add_distrib del: replicate.simps)
  show ?thesis
    using q l b end_word_found [OF t(1), of "int (length ps) + 1"]
    by (simp add: word_def quoted_string_def ac_simps del: replicate.simps length_append)
qed

lemma word_token:
  assumes "plain_token t" "token_end d"
  shows "word (view (ps @ t @ d # qs) ys) (int (length ps)) cs = Some (int (length ps) + int (length t), cs @ [Push_Str t])"
proof -
  let ?s = "view (ps @ t @ d # qs) ys"
  let ?m = "length (t @ d # qs)"
  have t: "t \<noteq> []" "\<forall>c \<in> set t. \<not> token_end c" using assms(1) by (simp_all add: plain_token_def)
  then obtain c where c: "at ?s (int (length ps)) = Some c" "c \<noteq> DQUOTE"
    by (cases t) (auto simp: token_end_def)
  have l: "word_loop token_end ?s (int (length ps)) 0 \<lparr>slen = int ?m, sdata = replicate ?m NUL\<rparr>
    = Some (True, int (length t), \<lparr>slen = int (length t), sdata = t @ replicate (?m - length t) NUL\<rparr>)"
    using word_loop_eq [OF t(2) assms(2), of ?m ps "[]" qs ys "int ?m"] t(1)
    by (simp add: ac_simps del: replicate.simps)
  have b: "blank (len ?s - int (length ps)) = Some \<lparr>slen = int ?m, sdata = replicate ?m NUL\<rparr>"
    by (simp add: blank_def nat_add_distrib del: replicate.simps)
  show ?thesis
    using c l b end_word_found [OF t(1), of "int (length ps)"]
    by (simp add: word_def token_def del: replicate.simps length_append)
qed

subsection \<open>Values\<close>

text \<open>The routine for one value, as the loop calls it.\<close>

definition read_json :: "(calls \<Rightarrow> int) \<Rightarrow> str \<Rightarrow> int \<Rightarrow> calls \<Rightarrow> (int \<times> calls) option" where
  "read_json h s q cs = do {
     b \<leftarrow> at s q;
     (if bracket b then json_loop h s (b = CHR ''['') (q + 1) 0 (h (cs @ [New_Table])) (cs @ [New_Table])
      else word s q cs) }"

lemma json_loop_unfold:
  "json_loop h s arr p j n cs =
     (if p < len s
      then do {
        c \<leftarrow> at s p;
        (if space c then json_loop h s arr (p + 1) j n cs
         else if c = closing arr then Some (p + 1, cs)
         else do {
           (q, cs) \<leftarrow> before_value s arr p j cs;
           (q, cs) \<leftarrow> read_json h s q cs;
           q \<leftarrow> scan_to (\<lambda>c. c \<noteq> closing arr \<and> c \<noteq> CHR '','') (at s) q (len s);
           e \<leftarrow> at s q;
           (if e = closing arr then Some (q + 1, cs @ [Set_Table n])
            else json_loop h s arr (q + 1) (j + 1) n (cs @ [Set_Table n])) }) }
      else Some (p, cs))"
  by (subst json_loop.simps, unfold read_json_def Option.bind_assoc) (rule refl)

text \<open>From the position where a value ends, the scan reaches the byte behind its text and the blanks
  that follow it.\<close>

definition reads :: "(calls \<Rightarrow> int) \<Rightarrow> json \<Rightarrow> string \<Rightarrow> bool" where
  "reads h x t \<longleftrightarrow> (\<forall>ps b d qs ys cs arr. blanks b \<longrightarrow> d = closing arr \<or> d = CHR '','' \<longrightarrow>
     (\<exists>q. read_json h (view (ps @ t @ b @ d # qs) ys) (int (length ps)) cs = Some (q, json_calls h x cs)
       \<and> scan_to (\<lambda>c. c \<noteq> closing arr \<and> c \<noteq> CHR '','') (at (view (ps @ t @ b @ d # qs) ys)) q
           (len (view (ps @ t @ b @ d # qs) ys)) = Some (int (length (ps @ t @ b)))))"

lemma readsI:
  assumes "\<And>ps b d qs ys cs arr. blanks b \<Longrightarrow> d = closing arr \<or> d = CHR '','' \<Longrightarrow>
    \<exists>q. read_json h (view (ps @ t @ b @ d # qs) ys) (int (length ps)) cs = Some (q, json_calls h x cs)
       \<and> scan_to (\<lambda>c. c \<noteq> closing arr \<and> c \<noteq> CHR '','') (at (view (ps @ t @ b @ d # qs) ys)) q
           (len (view (ps @ t @ b @ d # qs) ys)) = Some (int (length (ps @ t @ b)))"
  shows "reads h x t"
  using assms unfolding reads_def by blast

lemma scan_stop:
  assumes "\<not> P d" "\<forall>c \<in> set bs. P c"
  shows "scan_to P (at (view (ps @ bs @ d # qs) ys)) (int (length ps)) (len (view (ps @ bs @ d # qs) ys))
    = Some (int (length (ps @ bs)))"
  using str_at.scan_to_len [of "view (ps @ bs @ d # qs) ys" "int (length ps)" P] assms
  by (simp add: takeWhile_append)

lemma scan_sep:
  "d = closing arr \<or> d = CHR '','' \<Longrightarrow> \<forall>c \<in> set bs. c = DQUOTE \<or> space c \<Longrightarrow>
    scan_to (\<lambda>c. c \<noteq> closing arr \<and> c \<noteq> CHR '','') (at (view (ps @ bs @ d # qs) ys)) (int (length ps))
      (len (view (ps @ bs @ d # qs) ys)) = Some (int (length (ps @ bs)))"
  by (cases arr) (intro scan_stop; fastforce simp: closing_def space_def)+

lemma first_byte:
  assumes "json_text x t" "json_wf x"
  obtains c cs where "t = c # cs" "\<not> space c" "c \<noteq> closing arr"
    "bracket c \<longleftrightarrow> (\<exists>js. x = JArr js) \<or> (\<exists>ms. x = JObj ms)"
proof (cases x)
  case (JTok u)
  with assms that show ?thesis
    by (cases u) (auto simp: json_text_simps plain_token_def token_end_def bracket_def space_def closing_def)
qed (use assms that in \<open>auto simp: json_text_simps bracket_def space_def closing_def\<close>)

text \<open>Blanks are passed over.\<close>

lemma loop_blanks:
  assumes "blanks a"
  shows "json_loop h (view (ps @ a @ zs) ys) arr (int (length ps)) j n cs
    = json_loop h (view (ps @ a @ zs) ys) arr (int (length (ps @ a))) j n cs"
  using assms
proof (induction a arbitrary: ps)
  case (Cons c a)
  have c: "at (view (ps @ (c # a) @ zs) ys) (int (length ps)) = Some c" "space c"
    using Cons.prems by (simp_all add: blanks_def)
  have "json_loop h (view (ps @ (c # a) @ zs) ys) arr (int (length ps)) j n cs
    = json_loop h (view ((ps @ [c]) @ a @ zs) ys) arr (int (length (ps @ [c]))) j n cs"
    using c by (subst json_loop_unfold) (simp add: ac_simps)
  also have "\<dots> = json_loop h (view ((ps @ [c]) @ a @ zs) ys) arr (int (length ((ps @ [c]) @ a))) j n cs"
    using Cons.prems by (intro Cons.IH) (simp add: blanks_def)
  finally show ?case by simp
qed simp

lemma loop_closes:
  assumes "blanks a"
  shows "json_loop h (view (ps @ (a @ [closing arr]) @ qs) ys) arr (int (length ps)) j n cs
    = Some (int (length (ps @ a @ [closing arr])), cs)"
proof -
  have "at (view (ps @ a @ closing arr # qs) ys) (int (length (ps @ a))) = Some (closing arr)"
    using at_middle [of "ps @ a" "closing arr" qs ys] by simp
  moreover have "\<not> space (closing arr)" by (simp add: closing_def space_def)
  ultimately have "json_loop h (view (ps @ a @ closing arr # qs) ys) arr (int (length (ps @ a))) j n cs
    = Some (int (length (ps @ a)) + 1, cs)"
    by (subst json_loop_unfold) simp
  then show ?thesis using loop_blanks [OF assms, of h ps "closing arr # qs" ys arr j n cs] by (simp add: ac_simps)
qed

text \<open>One turn of the loop, with what stands before the value, \<open>vs\<close>.\<close>

lemma loop_turn:
  assumes "reads h x t" "blanks b" "d = closing arr \<or> d = CHR '',''" "blanks a"
    "before_value (view (ps @ a @ vs @ t @ b @ d # qs) ys) arr (int (length (ps @ a))) j cs
      = Some (int (length (ps @ a @ vs)), cs')"
    "vs @ t = c # zs" "\<not> space c" "c \<noteq> closing arr"
  shows "json_loop h (view (ps @ a @ vs @ t @ b @ d # qs) ys) arr (int (length ps)) j n cs
    = (if d = closing arr then Some (int (length (ps @ a @ vs @ t @ b @ [d])), json_calls h x cs' @ [Set_Table n])
       else json_loop h (view (ps @ a @ vs @ t @ b @ d # qs) ys) arr (int (length (ps @ a @ vs @ t @ b @ [d])))
         (j + 1) n (json_calls h x cs' @ [Set_Table n]))"
proof -
  define s where "s = view (ps @ a @ vs @ t @ b @ d # qs) ys"
  have l: "int (length (ps @ a)) < len s" by (simp add: s_def)
  have "s = view ((ps @ a) @ (vs @ t) @ b @ d # qs) ys" by (simp add: s_def)
  then have "s = view ((ps @ a) @ c # zs @ b @ d # qs) ys" by (simp only: assms(6) append.simps)
  then have f: "at s (int (length (ps @ a))) = Some c" by (simp only: at_middle)
  obtain q where q: "read_json h s (int (length (ps @ a @ vs))) cs' = Some (q, json_calls h x cs')"
    "scan_to (\<lambda>c. c \<noteq> closing arr \<and> c \<noteq> CHR '','') (at s) q (len s) = Some (int (length (ps @ a @ vs @ t @ b)))"
    using assms(1) [unfolded reads_def, rule_format, OF assms(2,3), of "ps @ a @ vs" qs ys cs'] by (auto simp: s_def)
  have e: "at s (int (length (ps @ a @ vs @ t @ b))) = Some d"
    using at_middle [of "ps @ a @ vs @ t @ b" d qs ys] by (simp add: s_def)
  have bv: "before_value s arr (int (length (ps @ a))) j cs = Some (int (length (ps @ a @ vs)), cs')"
    using assms(5) by (simp only: s_def)
  have n: "int (length (ps @ a @ vs @ t @ b @ [d])) = int (length (ps @ a @ vs @ t @ b)) + 1" by simp
  have skip: "json_loop h s arr (int (length ps)) j n cs = json_loop h s arr (int (length (ps @ a))) j n cs"
    unfolding s_def by (rule loop_blanks [OF assms(4)])
  show ?thesis
    unfolding s_def [symmetric] n skip
    by (subst json_loop_unfold)
      (simp only: l f bv q e assms(7,8) if_True if_False bind.bind_lunit prod.case simp_thms)
qed

text \<open>The last value of a table, and one that is followed by another.\<close>

lemma turn_last:
  assumes "reads h x t" "blanks b" "blanks a"
    "\<And>rest. before_value (view (ps @ a @ vs @ t @ rest) ys) arr (int (length (ps @ a))) j cs = Some (int (length (ps @ a @ vs)), cs')"
    "vs @ t = c # zs" "\<not> space c" "c \<noteq> closing arr"
  shows "json_loop h (view (ps @ (a @ vs @ t @ b @ [closing arr]) @ qs) ys) arr (int (length ps)) j n cs
    = Some (int (length (ps @ a @ vs @ t @ b @ [closing arr])), json_calls h x cs' @ [Set_Table n])"
  using loop_turn [OF assms(1,2) disjI1 [OF refl] assms(3) assms(4) [of "b @ closing arr # qs"] assms(5-7)] by simp

lemma turn_next:
  assumes "reads h x t" "blanks b" "blanks a"
    "\<And>rest. before_value (view (ps @ a @ vs @ t @ rest) ys) arr (int (length (ps @ a))) j cs = Some (int (length (ps @ a @ vs)), cs')"
    "vs @ t = c # zs" "\<not> space c" "c \<noteq> closing arr"
    "json_loop h (view ((ps @ a @ vs @ t @ b @ '','') @ u @ qs) ys) arr (int (length (ps @ a @ vs @ t @ b @ '',''))) (j + 1) n
      (json_calls h x cs' @ [Set_Table n]) = Some (int (length ((ps @ a @ vs @ t @ b @ '','') @ u)), r)"
  shows "json_loop h (view (ps @ (a @ vs @ t @ b @ CHR '','' # u) @ qs) ys) arr (int (length ps)) j n cs
    = Some (int (length (ps @ a @ vs @ t @ b @ CHR '','' # u)), r)"
proof -
  have "CHR '','' \<noteq> closing arr" by (simp add: closing_def)
  with loop_turn [OF assms(1,2) disjI2 [OF refl] assms(3) assms(4) [of "b @ CHR '','' # u @ qs"] assms(5-7)] assms(8)
  show ?thesis by (simp del: length_append)
qed

text \<open>The key of a member.\<close>

abbreviation key_text :: "string \<Rightarrow> string \<Rightarrow> string \<Rightarrow> string" where
  "key_text k c d \<equiv> DQUOTE # k @ DQUOTE # c @ CHR '':'' # d"

lemma read_key:
  assumes "plain_word k" "blanks c" "blanks d" "t = f # fs" "\<not> space f"
  shows "before_value (view (ps @ key_text k c d @ t @ rest) ys) False (int (length ps)) j cs
    = Some (int (length (ps @ key_text k c d)), cs @ [Push_Str (copied k)])"
proof -
  define s where "s = view (ps @ key_text k c d @ t @ rest) ys"
  have w: "word s (int (length ps)) cs = Some (int (length (ps @ DQUOTE # k)), cs @ [Push_Str (copied k)])"
    using word_quoted [OF assms(1), of ps "c @ CHR '':'' # d @ t @ rest" ys cs] by (simp add: s_def ac_simps)
  have "\<forall>x \<in> set (DQUOTE # c). x \<noteq> CHR '':''" proof
    fix x assume "x \<in> set (DQUOTE # c)"
    then have "x = DQUOTE \<or> space x" using assms(2) by (simp add: blanks_def) blast
    moreover have "\<not> space CHR '':''" by (simp add: space_def)
    ultimately show "x \<noteq> CHR '':''" by auto
  qed
  then have "scan_to (\<lambda>c. c \<noteq> CHR '':'') (at s) (int (length (ps @ DQUOTE # k))) (len s)
      = Some (int (length ((ps @ DQUOTE # k) @ DQUOTE # c)))"
    using scan_stop [of "\<lambda>c. c \<noteq> CHR '':''" "CHR '':''" "DQUOTE # c" "ps @ DQUOTE # k" "d @ t @ rest" ys]
    by (simp add: s_def)
  moreover have "scan_to space (at s) (int (length ((ps @ DQUOTE # k) @ DQUOTE # c)) + 1) (len s)
      = Some (int (length (ps @ key_text k c d)))"
    using scan_stop [of space f d "ps @ DQUOTE # k @ DQUOTE # c @ '':''" "fs @ rest" ys] assms(3-5)
    by (simp add: s_def blanks_def ac_simps)
  ultimately show ?thesis
    unfolding s_def [symmetric] using w by (simp add: before_value_def del: length_append)
qed

text \<open>Every well-formed value is read, whatever blanks its text has.\<close>

lemma text_reads:
  "json_text x t \<Longrightarrow> json_wf x \<Longrightarrow> reads h x t"
  "elem_text js u \<Longrightarrow> \<forall>x \<in> set js. json_wf x \<Longrightarrow>
    json_loop h (view (ps @ u @ qs) ys) True (int (length ps)) j n cs = Some (int (length (ps @ u)), elem_calls h n j js cs)"
  "member_text ms u \<Longrightarrow> \<forall>m \<in> set ms. plain_word (fst m) \<and> json_wf (snd m) \<Longrightarrow>
    json_loop h (view (ps @ u @ qs) ys) False (int (length ps)) j n cs = Some (int (length (ps @ u)), member_calls h n ms cs)"
proof (induction arbitrary: and ps qs ys j n cs and ps qs ys j n cs rule: json_text_elem_text_member_text.inducts)
  case (text_str s)
  show ?case
  proof (rule readsI, goal_cases)
    case (1 ps b d qs ys cs arr)
    have "read_json h (view (ps @ (DQUOTE # s @ [DQUOTE]) @ b @ d # qs) ys) (int (length ps)) cs
        = Some (int (length (ps @ DQUOTE # s)), cs @ [Push_Str (copied s)])"
      using word_quoted [of s ps "b @ d # qs" ys cs] text_str by (simp add: read_json_def bracket_def ac_simps)
    moreover have b: "\<forall>c \<in> set (DQUOTE # b). c = DQUOTE \<or> space c" using 1(1) by (simp add: blanks_def)
    have l: "(ps @ DQUOTE # s) @ (DQUOTE # b) @ d # qs = ps @ (DQUOTE # s @ [DQUOTE]) @ b @ d # qs"
      "(ps @ DQUOTE # s) @ DQUOTE # b = ps @ (DQUOTE # s @ [DQUOTE]) @ b" by simp_all
    note scan_sep [OF 1(2) b, of "ps @ DQUOTE # s" qs ys, unfolded l]
    ultimately show ?case unfolding json_calls.simps by blast
  qed
next
  case (text_tok t)
  show ?case
  proof (rule readsI, goal_cases)
    case (1 ps b d qs ys cs arr)
    obtain e es where e: "b @ d # qs = e # es" "token_end e"
      using 1 by (cases b; cases arr) (auto simp: blanks_def token_end_def bracket_def closing_def)
    obtain c where c: "at (view (ps @ t @ b @ d # qs) ys) (int (length ps)) = Some c" "\<not> bracket c"
      using text_tok by (cases t) (auto simp: plain_token_def token_end_def)
    have "word (view (ps @ t @ b @ d # qs) ys) (int (length ps)) cs = Some (int (length (ps @ t)), cs @ [Push_Str t])"
      unfolding e(1) using word_token [of t e ps es ys cs] text_tok e(2) by simp
    moreover have "\<forall>c \<in> set b. c = DQUOTE \<or> space c" using 1(1) by (simp add: blanks_def)
    ultimately show ?case
      using c scan_sep [OF 1(2), of b "ps @ t" qs ys]
      by (intro exI [of _ "int (length (ps @ t))"]) (simp add: read_json_def)
  qed
next
  case (text_arr js u)
  show ?case
  proof (rule readsI, goal_cases)
    case (1 ps b d qs ys cs arr)
    have "\<forall>c \<in> set b. c = DQUOTE \<or> space c" using 1(1) by (simp add: blanks_def)
    then show ?case
      using text_arr.IH [of "ps @ ''[''" "b @ d # qs" ys 0 "h (cs @ [New_Table])" "cs @ [New_Table]"] text_arr.prems
        scan_sep [OF 1(2), of b "ps @ CHR ''['' # u" qs ys]
      by (intro exI [of _ "int (length (ps @ CHR ''['' # u))"]) (simp add: read_json_def bracket_def ac_simps)
  qed
next
  case (text_obj ms u)
  show ?case
  proof (rule readsI, goal_cases)
    case (1 ps b d qs ys cs arr)
    have "\<forall>c \<in> set b. c = DQUOTE \<or> space c" using 1(1) by (simp add: blanks_def)
    then show ?case
      using text_obj.IH [of "ps @ ''{''" "b @ d # qs" ys 0 "h (cs @ [New_Table])" "cs @ [New_Table]"] text_obj.prems
        scan_sep [OF 1(2), of b "ps @ CHR ''{'' # u" qs ys]
      by (intro exI [of _ "int (length (ps @ CHR ''{'' # u))"]) (simp add: read_json_def bracket_def ac_simps)
  qed
next
  case (no_elem a)
  then show ?case using loop_closes [of a h ps True qs ys j n cs] by (simp add: closing_def)
next
  case (last_elem a x t b)
  then have x: "reads h x t" "json_text x t" "json_wf x" by simp_all
  obtain c zs where c: "t = c # zs" "\<not> space c" "c \<noteq> closing True" using first_byte [OF x(2,3)] .
  have v: "before_value (view (ps @ a @ [] @ t @ rest) ys) True (int (length (ps @ a))) j cs
      = Some (int (length (ps @ a @ [])), cs @ [Push_Number (j + 1)])" for rest by (simp add: before_value_def)
  show ?case
    using turn_last [OF x(1) last_elem(3,1) v, of c zs qs n] c by (simp add: closing_def)
next
  case (next_elem a x t b y js u)
  then have x: "reads h x t" "json_text x t" "json_wf x" by simp_all
  obtain c zs where c: "t = c # zs" "\<not> space c" "c \<noteq> closing True" using first_byte [OF x(2,3)] .
  have v: "before_value (view (ps @ a @ [] @ t @ rest) ys) True (int (length (ps @ a))) j cs
      = Some (int (length (ps @ a @ [])), cs @ [Push_Number (j + 1)])" for rest by (simp add: before_value_def)
  have "\<forall>x \<in> set (y # js). json_wf x" using next_elem.prems by simp
  note rst = next_elem.IH(2) [OF this, of "ps @ a @ [] @ t @ b @ '',''" qs ys "j + 1" n
      "json_calls h x (cs @ [Push_Number (j + 1)]) @ [Set_Table n]"]
  show ?case
    using turn_next [OF x(1) next_elem(3,1) v _ c(2,3) rst, of zs] c(1) by simp
next
  case (no_member a)
  then show ?case using loop_closes [of a h ps False qs ys j n cs] by (simp add: closing_def)
next
  case (last_member a c d x t b k)
  then have x: "reads h x t" "json_text x t" "json_wf x" "plain_word k" by simp_all
  obtain f fs where f: "t = f # fs" "\<not> space f" "f \<noteq> closing False" using first_byte [OF x(2,3)] .
  have v: "before_value (view (ps @ a @ key_text k c d @ t @ rest) ys) False (int (length (ps @ a))) j cs
      = Some (int (length (ps @ a @ key_text k c d)), cs @ [Push_Str (copied k)])" for rest
    using read_key [OF x(4) last_member(2,3) f(1,2), of "ps @ a" rest ys j cs] by simp
  have q: "\<not> space DQUOTE" "DQUOTE \<noteq> closing False" by (simp_all add: space_def closing_def)
  show ?case
    using turn_last [OF x(1) last_member(5,1) v _ q, of "k @ DQUOTE # c @ CHR '':'' # d @ t" qs n] by (simp add: closing_def)
next
  case (next_member a c d x t b y ms u k)
  then have x: "reads h x t" "json_text x t" "json_wf x" "plain_word k" by simp_all
  obtain f fs where f: "t = f # fs" "\<not> space f" "f \<noteq> closing False" using first_byte [OF x(2,3)] .
  have v: "before_value (view (ps @ a @ key_text k c d @ t @ rest) ys) False (int (length (ps @ a))) j cs
      = Some (int (length (ps @ a @ key_text k c d)), cs @ [Push_Str (copied k)])" for rest
    using read_key [OF x(4) next_member(2,3) f(1,2), of "ps @ a" rest ys j cs] by simp
  have q: "\<not> space DQUOTE" "DQUOTE \<noteq> closing False" by (simp_all add: space_def closing_def)
  have "\<forall>m \<in> set (y # ms). plain_word (fst m) \<and> json_wf (snd m)" using next_member.prems by simp
  note rst = next_member.IH(2) [OF this, of "ps @ a @ key_text k c d @ t @ b @ '',''" qs ys "j + 1" n
      "json_calls h x (cs @ [Push_Str (copied k)]) @ [Set_Table n]"]
  show ?case
    using turn_next [OF x(1) next_member(5,1) v _ q rst, of "k @ DQUOTE # c @ CHR '':'' # d @ t"] by simp
qed

text \<open>The text of a JSON array or object, blanks between its parts and before it and anything behind
  it, makes exactly the calls that build its table, in order, and is answered as it stands.\<close>

theorem json_builds_value:
  assumes "json_text x t" "json_wf x" "x = JArr js \<or> x = JObj ms" "blanks sp"
  shows "parse_json_string h (view (sp @ t @ rest) ys) cs = Some (view t (rest @ ys), json_calls h x cs)"
proof -
  let ?s = "view (sp @ t @ rest) ys"
  obtain c zs where c: "t = c # zs" "bracket c" "\<not> space c"
    using first_byte [OF assms(1,2), of True] assms(3) by blast
  have p: "scan_to (\<lambda>c. space c \<or> \<not> bracket c) (at ?s) 0 (len ?s) = Some (int (length sp))"
    using scan_stop [of "\<lambda>c. space c \<or> \<not> bracket c" c sp "[]" "zs @ rest" ys] c assms(4) by (simp add: blanks_def)
  have l: "\<exists>b. at ?s (int (length sp)) = Some b
    \<and> json_loop h ?s (b = CHR ''['') (int (length sp) + 1) 0 (h (cs @ [New_Table])) (cs @ [New_Table])
      = Some (int (length sp) + int (length t), json_calls h x cs)"
    using assms(3)
  proof
    assume x: "x = JArr js"
    then obtain u where u: "t = CHR ''['' # u" "elem_text js u" using assms(1) by (auto simp: json_text_simps)
    from text_reads(2) [OF u(2), of h "sp @ ''[''" rest ys 0 "h (cs @ [New_Table])" "cs @ [New_Table]"]
    show ?thesis using x u(1) assms(2) by (simp add: ac_simps)
  next
    assume x: "x = JObj ms"
    then obtain u where u: "t = CHR ''{'' # u" "member_text ms u" using assms(1) by (auto simp: json_text_simps)
    from text_reads(3) [OF u(2), of h "sp @ ''{''" rest ys 0 "h (cs @ [New_Table])" "cs @ [New_Table]"]
    show ?thesis using x u(1) assms(2) by (simp add: ac_simps)
  qed
  have "int (length sp) < len ?s" by (simp add: c(1))
  with p l show ?thesis
    using from_str_pieces [of sp t rest ys] by (auto simp: parse_json_string_def parse_json_object_def)
qed

text \<open>An object with blanks in every place.\<close>

definition sample_json :: json where
  "sample_json = JObj [(''a'', JArr [JTok ''1'', JStr ''x''])]"

definition sample_json_text :: string where
  "sample_json_text = ''{ '' @ DQUOTE # ''a'' @ DQUOTE # '' : [ 1 , '' @ DQUOTE # ''x'' @ DQUOTE # '' ] }''"

lemma sample_json_layout: "json_text sample_json sample_json_text" "json_wf sample_json"
proof -
  note sp = blanks_def space_def
  have x: "elem_text [JStr ''x''] ('' '' @ (DQUOTE # ''x'' @ [DQUOTE]) @ '' '' @ '']'')"
    by (intro last_elem text_str) (simp_all add: sp)
  have "elem_text [JTok ''1'', JStr ''x''] ('' '' @ ''1'' @ '' '' @ CHR '','' # ('' '' @ (DQUOTE # ''x'' @ [DQUOTE]) @ '' '' @ '']''))"
    by (intro next_elem text_tok x) (simp_all add: sp)
  from text_arr [OF this]
  have "member_text [(''a'', JArr [JTok ''1'', JStr ''x''])] ('' '' @ key_text ''a'' '' '' '' ''
    @ (CHR ''['' # '' '' @ ''1'' @ '' '' @ CHR '','' # ('' '' @ (DQUOTE # ''x'' @ [DQUOTE]) @ '' '' @ '']'')) @ '' '' @ ''}'')"
    by (intro last_member) (simp_all add: sp)
  from text_obj [OF this] show "json_text sample_json sample_json_text" by (simp add: sample_json_def sample_json_text_def)
  show "json_wf sample_json"
    by (simp add: sample_json_def plain_word_def plain_token_def token_end_def bracket_def space_def)
qed

theorem json_builds_value_witness:
  "parse_json_string (\<lambda>cs. 1) (view ('' '' @ sample_json_text @ []) []) []
    = Some (view sample_json_text ([] @ []),
        [New_Table, Push_Str ''a'', New_Table, Push_Number 1, Push_Str ''1'', Set_Table 1,
          Push_Number 2, Push_Str ''x'', Set_Table 1, Set_Table 1])"
  using json_builds_value [OF sample_json_layout, of "[]" "[(''a'', JArr [JTok ''1'', JStr ''x''])]" "'' ''" "\<lambda>cs. 1" "[]" "[]" "[]"]
  by (simp add: blanks_def space_def sample_json_def)

subsection \<open>Strings that are damaged\<close>

text \<open>An empty string becomes nil, and an escaped character is copied with a zero byte in the place
  of its backslash: neither reaches a page as it was written.\<close>

theorem json_strings_damaged:
  assumes "DQUOTE \<notin> set a" "BACKSLASH \<notin> set a"
  shows "word (view (ps @ DQUOTE # DQUOTE # qs) ys) (int (length ps)) cs = Some (int (length ps) + 1, cs @ [Push_Nil])
    \<and> word (view (ps @ DQUOTE # a @ BACKSLASH # c # DQUOTE # qs) ys) (int (length ps)) cs
      = Some (int (length ps) + 3 + int (length a), cs @ [Push_Str (a @ [NUL, c])])"
proof
  show "word (view (ps @ DQUOTE # DQUOTE # qs) ys) (int (length ps)) cs = Some (int (length ps) + 1, cs @ [Push_Nil])"
    using at_middle [of "ps @ [DQUOTE]" DQUOTE qs ys]
    by (simp add: word_def quoted_string_def blank_def end_word_def str2lua_def quoted_loop.simps ac_simps)
  have "plain_word (a @ [BACKSLASH, c])" "copied (a @ [BACKSLASH, c]) = a @ [NUL, c]"
    using escapes_append [OF assms, of "[BACKSLASH, c]"] by (simp_all add: plain_word_def)
  with word_quoted [of "a @ [BACKSLASH, c]" ps qs ys cs]
  show "word (view (ps @ DQUOTE # a @ BACKSLASH # c # DQUOTE # qs) ys) (int (length ps)) cs
      = Some (int (length ps) + 3 + int (length a), cs @ [Push_Str (a @ [NUL, c])])"
    by (simp add: ac_simps)
qed

theorem json_strings_damaged_witness:
  "word (view (DQUOTE # ''say '' @ BACKSLASH # DQUOTE # [DQUOTE]) []) 0 [] = Some (7, [Push_Str (''say '' @ [NUL, DQUOTE])])"
  using json_strings_damaged [of "''say ''" "[]" "[]" "[]" "[]" DQUOTE] by simp

end
