(* ===== verification/Lua_Init.thy ===== *)
theory Lua_Init
  imports Procedures
begin

section \<open>The globals of a page (init_lua of lws.c)\<close>

text \<open>
  Before a page runs, the functions of the program are registered under their names and then the
  stored procedures are bound, in the same table.  A later binding of a name replaces an earlier
  one.
\<close>

text \<open>The C functions of the table, by name.\<close>

datatype lua_function = F_exit | F_print | F_debug | F_error | F_use | F_include | F_cwd | F_header | F_param
  | F_now | F_query | F_encode | F_decode | F_md5sum | F_hmac1 | F_base64 | F_hex | F_rnd | F_post | F_socket
  | F_send | F_receive | F_parse

definition lua_glob_functions :: "(string \<times> lua_function) list" where
  "lua_glob_functions = [(''exit'', F_exit), (''print'', F_print), (''debug'', F_debug), (''error'', F_error),
     (''use'', F_use), (''include'', F_include), (''cwd'', F_cwd), (''header'', F_header), (''param'', F_param),
     (''now'', F_now), (''query'', F_query), (''encode'', F_encode), (''decode'', F_decode), (''md5sum'', F_md5sum),
     (''hmac1'', F_hmac1), (''base64'', F_base64), (''hex'', F_hex), (''rnd'', F_rnd), (''post'', F_post),
     (''socket'', F_socket), (''send'', F_send), (''receive'', F_receive), (''parse'', F_parse)]"

datatype lua_binding = C_Function lua_function | Procedure string

text \<open>\<open>opened\<close> tells whether \<open>lua_open\<close> made an interpreter; without one nothing is bound.\<close>

definition init_lua :: "bool \<Rightarrow> headers \<Rightarrow> (string \<times> lua_binding) list option" where
  "init_lua opened procs =
     (if \<not> opened then Some []
      else do {
        ps \<leftarrow> ProceduresLua procs;
        Some (map (map_prod id C_Function) lua_glob_functions @ map (map_prod id Procedure) ps) })"

definition lua_global :: "(string \<times> lua_binding) list \<Rightarrow> string \<Rightarrow> lua_binding option" where
  "lua_global bs = map_of (rev bs)"

lemma glob_names_distinct: "distinct (map fst lua_glob_functions)"
  by (simp add: lua_glob_functions_def)

text \<open>A name is the last stored procedure of that name, and only otherwise the function of the
  program: a procedure that is called like one of the 23 functions takes its place on every page.\<close>

lemma page_globals:
  assumes "wf_headers h"
  shows "\<exists>bs. init_lua True (Some h) = Some bs
    \<and> (\<forall>n. lua_global bs n = (case map_of (rev (entries h)) n of Some q \<Rightarrow> Some (Procedure q)
         | None \<Rightarrow> map_option C_Function (map_of lua_glob_functions n)))"
proof -
  have r: "map_of (rev lua_glob_functions) = map_of lua_glob_functions"
    using glob_names_distinct by (subst map_of_inject_set) (simp_all add: rev_map [symmetric])
  have m: "map_of (map (map_prod id f) xs) n = map_option f (map_of xs n)" for f :: "'b \<Rightarrow> 'c" and xs :: "(string \<times> 'b) list" and n
    by (induction xs) auto
  show ?thesis
    by (auto simp: init_lua_def ProceduresLua_eq [OF assms] lua_global_def rev_map m map_add_def r split: option.splits)
qed

end
