(* ===== verification/Lua_Stack.thy ===== *)
theory Lua_Stack
  imports Json "HOL-Library.AList"
begin

section \<open>The stack of the Lua interpreter, as its manual describes it\<close>

text \<open>
  The JSON reader and the queries hand values to a page by a sequence of calls of the Lua
  interface.  This is the meaning that the Lua manual gives to those calls, on a stack of values,
  and the specification against which the sequences are proved.  A table is its list of pairs; a
  table under construction is only on the stack, so values and references agree.
\<close>

datatype lua_value = VNil | VStr string | VNum int | VTable "(lua_value \<times> lua_value) list"

text \<open>Storing under a nil key is an error, and storing nil removes the key.\<close>

definition store :: "(lua_value \<times> lua_value) list \<Rightarrow> lua_value \<Rightarrow> lua_value \<Rightarrow> (lua_value \<times> lua_value) list option" where
  "store t k v = (if k = VNil then None else if v = VNil then Some (AList.delete k t) else Some (AList.update k v t))"

text \<open>The stack grows to the right.  \<open>Set_Table n\<close> takes the value and the key from the top and
  stores them in the table at the place \<open>n\<close>, counted from 1.\<close>

fun run_call :: "lua_call \<Rightarrow> lua_value list \<Rightarrow> lua_value list option" where
  "run_call New_Table s = Some (s @ [VTable []])"
| "run_call (Push_Str x) s = Some (s @ [VStr x])"
| "run_call Push_Nil s = Some (s @ [VNil])"
| "run_call (Push_Number i) s = Some (s @ [VNum i])"
| "run_call (Set_Table n) s =
     (case rev s of
        v # k # r \<Rightarrow>
          if 1 \<le> n \<and> n \<le> int (length r) then
            (case rev r ! nat (n - 1) of
               VTable t \<Rightarrow> do { t \<leftarrow> store t k v; Some ((rev r)[nat (n - 1) := VTable t]) }
             | _ \<Rightarrow> None)
          else None
      | _ \<Rightarrow> None)"

fun run_calls :: "calls \<Rightarrow> lua_value list \<Rightarrow> lua_value list option" where
  "run_calls [] s = Some s"
| "run_calls (c # cs) s = do { s \<leftarrow> run_call c s; run_calls cs s }"

text \<open>\<open>lua_gettop\<close> behind the calls made so far.\<close>

definition gettop :: "calls \<Rightarrow> int" where
  "gettop cs = (case run_calls cs [] of None \<Rightarrow> 0 | Some s \<Rightarrow> int (length s))"

lemma run_calls_append: "run_calls (cs @ ds) s = Option.bind (run_calls cs s) (run_calls ds)"
  by (induction cs arbitrary: s) (auto split: bind_split)

lemma run_snoc [simp]: "run_calls (cs @ [c]) s = Option.bind (run_calls cs s) (run_call c)"
proof -
  have "Option.bind x (run_calls []) = x" for x by (cases x) simp_all
  then show ?thesis by (cases "run_calls cs s") (simp_all add: run_calls_append)
qed

lemma gettop_run: "run_calls cs [] = Some s \<Longrightarrow> gettop cs = int (length s)"
  by (simp add: gettop_def)

text \<open>A store into the table below the key and the value.\<close>

lemma run_set_top:
  "run_call (Set_Table (int (length s) + 1)) (s @ [VTable t, k, v]) =
     map_option (\<lambda>t'. s @ [VTable t']) (store t k v)"
  by (cases "store t k v") (simp_all add: nth_append list_update_append)

lemma store_new:
  assumes "k \<notin> fst ` set t" "k \<noteq> VNil" "v \<noteq> VNil"
  shows "store t k v = Some (t @ [(k, v)])"
proof -
  have "AList.update k v t = t @ [(k, v)]" using assms(1) by (induction t) auto
  then show ?thesis using assms(2,3) by (simp add: store_def)
qed

end
