(* ===== verification/Lua_Values.thy ===== *)
theory Lua_Values
  imports Lua_Stack Json_Props Lua_Query
begin

section \<open>What a page gets\<close>

text \<open>
  On the stack of the Lua manual, the calls of the JSON reader leave the table of the text that was
  read, and those of a query the table of the rows that the database answered.
\<close>

subsection \<open>JSON\<close>

fun json_value :: "json \<Rightarrow> lua_value" and elem_values :: "int \<Rightarrow> json list \<Rightarrow> (lua_value \<times> lua_value) list"
  and member_values :: "(string \<times> json) list \<Rightarrow> (lua_value \<times> lua_value) list" where
  "json_value (JStr s) = VStr (copied s)"
| "json_value (JTok t) = VStr t"
| "json_value (JArr js) = VTable (elem_values 0 js)"
| "json_value (JObj ms) = VTable (member_values ms)"
| "elem_values j [] = []"
| "elem_values j (x # xs) = (VNum (j + 1), json_value x) # elem_values (j + 1) xs"
| "member_values [] = []"
| "member_values ((k, x) # ms) = (VStr (copied k), json_value x) # member_values ms"

text \<open>No object has two members whose names are copied to the same.\<close>

fun distinct_members :: "json \<Rightarrow> bool" where
  "distinct_members (JStr s) = True"
| "distinct_members (JTok t) = True"
| "distinct_members (JArr js) = (\<forall>x \<in> set js. distinct_members x)"
| "distinct_members (JObj ms) = (distinct (map (copied \<circ> fst) ms) \<and> (\<forall>m \<in> set ms. distinct_members (snd m)))"

lemma json_value_not_nil [simp]: "json_value x \<noteq> VNil"
  by (cases x) simp_all

text \<open>The calls for \<open>x\<close> leave its value on the stack.\<close>

definition builds :: "json \<Rightarrow> bool" where
  "builds x \<longleftrightarrow> (\<forall>cs s. run_calls cs [] = Some s \<longrightarrow> run_calls (json_calls gettop x cs) [] = Some (s @ [json_value x]))"

lemma run_elems:
  assumes "\<forall>x \<in> set xs. builds x" "run_calls cs [] = Some (s @ [VTable t])" "\<forall>i > j. VNum i \<notin> fst ` set t"
  shows "run_calls (elem_calls gettop (int (length s) + 1) j xs cs) [] = Some (s @ [VTable (t @ elem_values j xs)])"
  using assms
proof (induction xs arbitrary: j cs t)
  case (Cons x xs)
  define ds where "ds = json_calls gettop x (cs @ [Push_Number (j + 1)])"
  have "run_calls ds [] = Some (s @ [VTable t, VNum (j + 1), json_value x])"
    using Cons.prems(1,2) by (simp add: builds_def ds_def)
  moreover have "VNum (j + 1) \<notin> fst ` set t" using Cons.prems(3) by simp
  ultimately have "run_calls (ds @ [Set_Table (int (length s) + 1)]) [] = Some (s @ [VTable (t @ [(VNum (j + 1), json_value x)])])"
    using run_set_top [of s t] store_new [of "VNum (j + 1)" t "json_value x"] by simp
  from Cons.IH [OF _ this, of "j + 1"] Cons.prems(1,3) show ?case by (simp add: ds_def)
qed simp

lemma run_members:
  assumes "\<forall>m \<in> set ms. builds (snd m)" "run_calls cs [] = Some (s @ [VTable t])" "distinct (map (copied \<circ> fst) ms)"
    "\<forall>m \<in> set ms. VStr (copied (fst m)) \<notin> fst ` set t"
  shows "run_calls (member_calls gettop (int (length s) + 1) ms cs) [] = Some (s @ [VTable (t @ member_values ms)])"
  using assms
proof (induction ms arbitrary: cs t)
  case (Cons m ms)
  obtain k x where m: "m = (k, x)" by (cases m)
  define ds where "ds = json_calls gettop x (cs @ [Push_Str (copied k)])"
  have "run_calls ds [] = Some (s @ [VTable t, VStr (copied k), json_value x])"
    using Cons.prems(1,2) by (simp add: builds_def ds_def m)
  moreover have "VStr (copied k) \<notin> fst ` set t" using Cons.prems(4) m by simp
  ultimately have "run_calls (ds @ [Set_Table (int (length s) + 1)]) [] = Some (s @ [VTable (t @ [(VStr (copied k), json_value x)])])"
    using run_set_top [of s t] store_new [of "VStr (copied k)" t "json_value x"] by simp
  moreover have "\<forall>m \<in> set ms. copied (fst m) \<noteq> copied k" using Cons.prems(3) m by (auto simp: rev_image_eqI)
  ultimately show ?case using Cons.IH [of "ds @ [Set_Table (int (length s) + 1)]"] Cons.prems(1,3,4) by (auto simp: ds_def m)
qed simp

lemma run_json: "distinct_members x \<Longrightarrow> builds x"
proof (induction x)
  case (JArr js)
  show ?case unfolding builds_def
  proof (intro allI impI)
    fix cs s assume s: "run_calls cs [] = Some s"
    with JArr run_elems [of js "cs @ [New_Table]" s "[]" 0]
    show "run_calls (json_calls gettop (JArr js) cs) [] = Some (s @ [json_value (JArr js)])"
      by (simp add: gettop_def add.commute)
  qed
next
  case (JObj ms)
  have b: "\<forall>m \<in> set ms. builds (snd m)"
    using JObj by (auto simp: snds.simps)
  show ?case unfolding builds_def
  proof (intro allI impI)
    fix cs s assume s: "run_calls cs [] = Some s"
    with JObj.prems b run_members [of ms "cs @ [New_Table]" s "[]"]
    show "run_calls (json_calls gettop (JObj ms) cs) [] = Some (s @ [json_value (JObj ms)])"
      by (simp add: gettop_def add.commute)
  qed
qed (simp_all add: builds_def)

text \<open>C22: Reading the text of a JSON array or object without empty strings, blanks between its parts or
  not, leaves its table on the stack, above what was there: arrays numbered from 1, objects by the
  names of their members, every value a string, in which a zero byte stands for each backslash.\<close>

theorem json_builds_table:
  assumes "json_text x t" "json_wf x" "x = JArr js \<or> x = JObj ms" "distinct_members x" "blanks sp"
    "run_calls cs [] = Some s"
  shows "\<exists>r cs'. parse_json_string gettop (view (sp @ t @ rest) ys) cs = Some (r, cs')
    \<and> chars_of r = t \<and> run_calls cs' [] = Some (s @ [json_value x])"
  using json_builds_value [OF assms(1-3,5)] run_json [OF assms(4)] assms(6) by (auto simp: builds_def)

theorem json_builds_table_witness:
  "\<exists>r cs'. parse_json_string gettop (view ('' '' @ sample_json_text @ []) []) [] = Some (r, cs')
    \<and> run_calls cs' [] = Some [VTable [(VStr ''a'', VTable [(VNum 1, VStr ''1''), (VNum 2, VStr ''x'')])]]"
  using json_builds_table [OF sample_json_layout, of "[]" "[(''a'', JArr [JTok ''1'', JStr ''x''])]" "'' ''" "[]" "[]" "[]" "[]"]
  by (auto simp: sample_json_def blanks_def space_def)

subsection \<open>Rows\<close>

text \<open>A result of libpq with these column names and rows; C strings have no NUL.\<close>

definition has_rows :: "('d, 'r) libpq \<Rightarrow> 'r \<Rightarrow> string list \<Rightarrow> string list list \<Rightarrow> bool" where
  "has_rows pq r names rows \<longleftrightarrow> PQntuples pq r = int (length rows) \<and> PQnfields pq r = int (length names)
    \<and> (\<forall>j < length names. PQfname pq r (int j) = Some (names ! j) \<and> NUL \<notin> set (names ! j))
    \<and> (\<forall>i < length rows. length (rows ! i) = length names \<and> (\<forall>j < length names.
         PQgetvalue pq r (int i) (int j) = Some (rows ! i ! j) \<and> NUL \<notin> set (rows ! i ! j)))"

lemma str2lua_view [simp]: "str2lua (view xs ys) cs = Some (cs @ [Push_Str xs])"
  by (simp add: str2lua_def)

definition pair_calls :: "int \<Rightarrow> string \<times> string \<Rightarrow> calls" where
  "pair_calls k p = [Push_Str (fst p), Push_Str (snd p), Set_Table k]"

lemma row_loop_eq:
  assumes "m = j + int (length ps)"
    "\<And>k. k < length ps \<Longrightarrow> field pq (j + int k) st = Some (lit (fst (ps ! k)))
      \<and> fetch pq i (j + int k) st = Some (lit (snd (ps ! k)))"
  shows "row_loop pq st i m j n cs = Some (cs @ concat (map (pair_calls n) ps))"
  using assms
proof (induction ps arbitrary: j cs)
  case (Cons p ps)
  have f: "field pq j st = Some (lit (fst p))" "fetch pq i j st = Some (lit (snd p))"
    using Cons.prems(2) [of 0] by simp_all
  have k: "field pq (j + 1 + int k) st = Some (lit (fst (ps ! k)))
      \<and> fetch pq i (j + 1 + int k) st = Some (lit (snd (ps ! k)))" if "k < length ps" for k
    using Cons.prems(2) [of "Suc k"] that by (simp add: add.assoc)
  have "j < m" "m = j + 1 + int (length ps)" using Cons.prems(1) by simp_all
  then show ?case using Cons.IH [OF _ k] f by (subst row_loop.simps) (simp add: pair_calls_def [of n p])
qed (subst row_loop.simps, simp)

text \<open>A row on the stack.\<close>

definition row_value :: "(string \<times> string) list \<Rightarrow> lua_value" where
  "row_value ps = VTable (map (\<lambda>p. (VStr (fst p), VStr (snd p))) ps)"

lemma run_row:
  assumes "distinct (map fst ps)" "\<forall>p \<in> set ps. VStr (fst p) \<notin> fst ` set t" "k = int (length s) + 1"
  shows "run_calls (concat (map (pair_calls k) ps)) (s @ [VTable t])
    = Some (s @ [VTable (t @ map (\<lambda>p. (VStr (fst p), VStr (snd p))) ps)])"
  using assms
proof (induction ps arbitrary: t)
  case (Cons p ps)
  have "run_calls (pair_calls k p) (s @ [VTable t]) = Some (s @ [VTable (t @ [(VStr (fst p), VStr (snd p))])])"
    using run_set_top [of s t] store_new [of "VStr (fst p)" t "VStr (snd p)"] Cons.prems(2,3)
    by (simp add: pair_calls_def)
  moreover have "\<forall>q \<in> set ps. VStr (fst q) \<notin> fst ` set (t @ [(VStr (fst p), VStr (snd p))])"
  proof
    fix q assume q: "q \<in> set ps"
    with Cons.prems(1) have "fst q \<noteq> fst p" by (metis distinct.simps(2) image_eqI list.map(2) list.set_map)
    moreover have "VStr (fst q) \<notin> fst ` set t" using Cons.prems(2) q by simp
    ultimately show "VStr (fst q) \<notin> fst ` set (t @ [(VStr (fst p), VStr (snd p))])" by simp
  qed
  ultimately show ?case
    using Cons.IH [of "t @ [(VStr (fst p), VStr (snd p))]"] Cons.prems(1,3) by (simp add: run_calls_append)
qed simp

fun row_values :: "int \<Rightarrow> string list \<Rightarrow> string list list \<Rightarrow> (lua_value \<times> lua_value) list" where
  "row_values i names [] = []"
| "row_values i names (vs # rows) = (VNum (i + 1), row_value (zip names vs)) # row_values (i + 1) names rows"

lemma rows_loop_run:
  assumes "db st = Some d" "res d = Some r" "has_rows pq r names allrows" "distinct names"
    "allrows = done @ rows" "run_calls cs [] = Some (s @ [VTable t])" "k = int (length s) + 1"
    "\<forall>i > int (length done). VNum i \<notin> fst ` set t"
  shows "\<exists>cs'. rows_loop pq st (int (length done)) (int (length allrows)) k cs = Some cs'
    \<and> run_calls cs' [] = Some (s @ [VTable (t @ row_values (int (length done)) names rows)])"
  using assms(5-)
proof (induction rows arbitrary: "done" cs t)
  case Nil
  then show ?case by (subst rows_loop.simps) simp
next
  case (Cons vs rows)
  let ?i = "int (length done)"
  have n: "fields pq st = Some (int (length names))" and at_i: "allrows ! length done = vs"
    and l: "length done < length allrows"
    using assms(1-3) Cons.prems(1) by (simp_all add: fields_def has_rows_def)
  then have vs: "length vs = length names" using assms(3) by (auto simp: has_rows_def)
  have cells: "field pq (0 + int j) st = Some (lit (fst (zip names vs ! j)))
      \<and> fetch pq ?i (0 + int j) st = Some (lit (snd (zip names vs ! j)))" if "j < length (zip names vs)" for j
    using that assms(1-3) vs at_i l
    by (auto simp: field_def fetch_def has_rows_def chars_str_def fmt_def new_str_def)
  define cs1 where "cs1 = (cs @ [Push_Number (?i + 1), New_Table]) @ concat (map (pair_calls (k + 2)) (zip names vs))"
  have row: "row_loop pq st ?i (int (length names)) 0 (k + 2) (cs @ [Push_Number (?i + 1), New_Table]) = Some cs1"
    unfolding cs1_def using cells vs by (intro row_loop_eq) simp_all
  have "run_calls cs1 [] = Some ((s @ [VTable t, VNum (?i + 1)]) @ [row_value (zip names vs)])"
    using run_row [of "zip names vs" "[]" "k + 2" "s @ [VTable t, VNum (?i + 1)]"] Cons.prems(2,3) assms(4) vs
    by (simp add: cs1_def run_calls_append row_value_def)
  then have "run_calls (cs1 @ [Set_Table k]) [] = Some (s @ [VTable (t @ [(VNum (?i + 1), row_value (zip names vs))])])"
    using run_set_top [of s t] store_new [of "VNum (?i + 1)" t "row_value (zip names vs)"] Cons.prems(3,4)
    by (simp add: row_value_def)
  from Cons.IH [of "done @ [vs]", OF _ this] Cons.prems show ?case
    using l n row by (subst rows_loop.simps) (auto simp: add.commute)
qed

text \<open>C21: A query that the database answers with rows leaves them on the stack as one table, with a
  table from column names to values for each row, in order.\<close>

theorem query_builds_table:
  assumes "db st = Some d" "is_open d" "PQexec pq (pgworld st) (sent_sql q) = (Some r, w)"
    "PQstatus_of pq r = PGRES_TUPLES_OK" "NUL \<notin> set (PQmessage_of pq r)" "has_rows pq r names rows" "distinct names"
    "run_calls cs [] = Some s"
  shows "\<exists>st' cs'. push_query pq gettop (view q ys) st cs = Some (1, st', cs')
    \<and> run_calls cs' [] = Some (s @ [VTable (row_values 0 names rows)])"
proof -
  have s: "PQresultStatus pq (Some r) = PGRES_TUPLES_OK" "NUL \<notin> set (PQresultErrorMessage pq (Some r))"
    using assms(4,5) by (simp_all add: PQresultStatus_def PQresultErrorMessage_def)
  have n: "PQntuples pq r = int (length rows)" using assms(6) by (simp add: has_rows_def)
  define st' where "st' = st\<lparr>pgworld := w, db := Some (d\<lparr>res := Some r\<rparr>)\<rparr>"
  have st': "db st' = Some (d\<lparr>res := Some r\<rparr>)" "res (d\<lparr>res := Some r\<rparr>) = Some r" by (simp_all add: st'_def)
  have q: "query pq (view q ys) st = Some (int (length rows), st')"
    using query_eq [OF assms(1-3) s(2), of ys] s(1) n by (simp add: st'_def)
  have t: "run_calls (cs @ [New_Table]) [] = Some (s @ [VTable []])" using assms(8) by simp
  obtain cs' where cs': "rows_loop pq st' 0 (int (length rows)) (int (length s) + 1) (cs @ [New_Table]) = Some cs'"
    "run_calls cs' [] = Some (s @ [VTable (row_values 0 names rows)])"
    using rows_loop_run [OF st' assms(6,7), of "[]" rows "cs @ [New_Table]" s "[]"] t by auto
  have "gettop (cs @ [New_Table]) = int (length s) + 1" using gettop_run [OF t] by simp
  with cs' q show ?thesis by (simp add: push_query_def)
qed

theorem query_builds_table_witness:
  "\<exists>st' cs'. push_query (sample_libpq\<lparr>PQexec := (\<lambda>w q. (Some [[''ann''], [''bob'']], w @ [q]))\<rparr>) gettop
      (lit ''SELECT name FROM users'') sample_state [] = Some (1, st', cs')
    \<and> run_calls cs' [] = Some [VTable [(VNum 1, VTable [(VStr ''name'', VStr ''ann'')]), (VNum 2, VTable [(VStr ''name'', VStr ''bob'')])]]"
proof -
  have "\<exists>st' cs'. push_query (sample_libpq\<lparr>PQexec := (\<lambda>w q. (Some [[''ann''], [''bob'']], w @ [q]))\<rparr>) gettop
      (lit ''SELECT name FROM users'') sample_state [] = Some (1, st', cs')
    \<and> run_calls cs' [] = Some ([] @ [VTable (row_values 0 [''name''] [[''ann''], [''bob'']])])"
    by (rule query_builds_table)
      (auto simp: sample_libpq_def sample_state_def has_rows_def less_Suc_eq)
  then show ?thesis by (simp add: row_value_def)
qed

end
