(* ===== verification/Daemon.thy ===== *)
theory Daemon
  imports Server
begin

section \<open>The supervisor (daemon.c, jawasd.c)\<close>

text \<open>
  \<open>jawasd\<close> reads its arguments, detaches itself when it is asked to and serves.  A detached program
  is two processes, the server and a supervisor that starts a new pair of processes whenever the
  server ends.  \<open>demon\<close> is one function that runs in all of them, and what it does in each depends
  on the answers of \<open>fork\<close>; a step relation puts the processes together with the signals that they
  send to each other.
\<close>

definition JAWAS_EXIT_DONE :: int where "JAWAS_EXIT_DONE = 0"
definition JAWAS_EXIT_USAGE :: int where "JAWAS_EXIT_USAGE = 1"

subsection \<open>One process\<close>

record daemon =
  murder :: bool
  ddone :: bool
  child :: int

text \<open>The signals that a handler sends, with the process or group they go to.\<close>

type_synonym kills = "(int \<times> sig) list"

text \<open>How a pass through \<open>demon\<close> ends in a process: it exits, it returns to \<open>main\<close> and serves, or it
  has tried to write its number to \<open>jawas.pid\<close> and watches its child.\<close>

datatype demon_end = Exits int | Serves | Watches

definition kill_all :: "daemon \<Rightarrow> demon_end \<times> kills \<times> daemon" where
  "kill_all d = (Exits 0, [(0, SIGTERM)], d\<lparr>murder := True, ddone := True\<rparr>)"

definition kill_child :: "daemon \<Rightarrow> kills \<times> daemon" where
  "kill_child d = ([(child d, SIGTERM)], d\<lparr>murder := True\<rparr>)"

definition restart_child :: "daemon \<Rightarrow> kills \<times> daemon" where
  "restart_child d = ([(child d, SIGHUP)], d)"

text \<open>From the label \<open>restart\<close> to the loop; \<open>f1\<close> and \<open>f2\<close> are the answers of the two calls of \<open>fork\<close>
  in this process.\<close>

definition demon_pass :: "bool \<Rightarrow> int \<Rightarrow> int \<Rightarrow> daemon \<Rightarrow> demon_end \<times> kills \<times> daemon" where
  "demon_pass detach f1 f2 d =
     (let ks = (if murder d then [(child d, SIGTERM)] else []) in
      if ddone d then (Exits JAWAS_EXIT_DONE, ks, d)
      else let d = (if detach then d\<lparr>child := f1\<rparr> else d) in
        if detach \<and> child d \<noteq> 0 then (Exits 0, ks, d)
        else let d = (if detach then d\<lparr>child := f2\<rparr> else d) in
          if child d = 0 then (Serves, ks, d) else (Watches, ks, d))"

text \<open>The loop around \<open>waitpid\<close>, which answers 0 while the child runs: the answers it has seen are
  \<open>ws\<close>.  \<open>None\<close> stands for a loop that still runs behind them.\<close>

fun watch_child :: "int list \<Rightarrow> kills \<Rightarrow> daemon \<Rightarrow> (kills \<times> daemon) option" where
  "watch_child [] ks d = None"
| "watch_child (w # ws) ks d =
     (if w \<noteq> 0 then Some (ks, d)
      else if murder d then (let (k, d) = kill_child d in watch_child ws (ks @ k) d)
      else watch_child ws ks d)"

subsection \<open>The command line (jawasd.c)\<close>

definition SERVER_PORT :: string where "SERVER_PORT = ''8080''"
definition TLS_SERVER_PORT :: string where "TLS_SERVER_PORT = ''4433''"

text \<open>\<open>atoi\<close> of the C library, for texts whose number fits into an \<open>int\<close>.\<close>

fun atoi_digits :: "int \<Rightarrow> string \<Rightarrow> int" where
  "atoi_digits n [] = n"
| "atoi_digits n (c # cs) =
     (if between (byte CHR ''0'') (byte c) (byte CHR ''9'')
      then atoi_digits (n * 10 + (byte c - byte CHR ''0'')) cs else n)"

definition atoi :: "string \<Rightarrow> int" where
  "atoi x = (case dropWhile isspace x of [] \<Rightarrow> 0
     | c # cs \<Rightarrow> if c = CHR ''-'' then - atoi_digits 0 cs
                 else if c = CHR ''+'' then atoi_digits 0 cs else atoi_digits 0 (c # cs))"

text \<open>What \<open>main\<close> does: explain itself, ask the running program to restart, or run, with its way of
  detaching and its two ports.\<close>

datatype main_action = Usage int | Restart kills int | Run bool int int

text \<open>\<open>restart\<close>: the process to signal is in \<open>jawas.pid\<close>; \<open>None\<close> is a file that cannot be read.\<close>

definition restart :: "string option \<Rightarrow> main_action" where
  "restart pidfile = (case pidfile of None \<Rightarrow> Restart [] JAWAS_EXIT_DONE
     | Some x \<Rightarrow> Restart [(atoi (take 16 x), SIGHUP)] JAWAS_EXIT_DONE)"

definition jawasd_main :: "string option \<Rightarrow> string list \<Rightarrow> main_action" where
  "jawasd_main pidfile argv =
     (let argc = length argv;
          detach = (argc > 1 \<and> take 2 (argv ! 1) = ''-d'');
          n = (if detach then 1 else 0);
          port = (if argc > 1 + n then argv ! (1 + n) else SERVER_PORT);
          tls_port = (if argc > 2 + n then argv ! (2 + n) else TLS_SERVER_PORT)
      in if argc > 3 then Usage JAWAS_EXIT_USAGE
         else if argc > 1 \<and> argv ! 1 = ''-r'' then restart pidfile
         else Run detach (atoi port) (atoi tls_port))"

subsection \<open>The processes together\<close>

text \<open>What became of the number that a supervisor writes: \<open>jawas.pid\<close> could not be opened, and is as it was;
  it was emptied, and the number was not written, since the descriptor is 0 or the write failed; or
  it was written.\<close>

datatype pid_write = Not_Opened | Not_Written | Written

text \<open>The number in the file, if it has one, and what became of the last attempt.\<close>

record service =
  sups :: "(int \<times> daemon) list"
  servers :: "(int \<times> server) list"
  pidfile :: "int option"
  pidwrote :: pid_write

definition write_pid :: "pid_write \<Rightarrow> int \<Rightarrow> service \<Rightarrow> service" where
  "write_pid w p s = s\<lparr>pidwrote := w,
     pidfile := (case w of Not_Opened \<Rightarrow> pidfile s | Not_Written \<Rightarrow> None | Written \<Rightarrow> Some p)\<rparr>"

text \<open>A process that has gone through \<open>demon\<close> takes its place; \<open>sv\<close> is the state in which a server
  begins, and \<open>w\<close> what becomes of the number of a supervisor.\<close>

definition settle :: "server \<Rightarrow> pid_write \<Rightarrow> int \<Rightarrow> demon_end \<times> kills \<times> daemon \<Rightarrow> service \<Rightarrow> service" where
  "settle sv w p r s = (case r of
     (Exits n, ks, d) \<Rightarrow> s
   | (Serves, ks, d) \<Rightarrow> s\<lparr>servers := (p, sv) # servers s\<rparr>
   | (Watches, ks, d) \<Rightarrow> write_pid w p (s\<lparr>sups := (p, d) # sups s\<rparr>))"

text \<open>The detached pass that the process \<open>p\<close> begins: it forks \<open>f1\<close>, which forks \<open>f2\<close>; a child sees 0,
  and a failed \<open>fork\<close> is negative.\<close>

definition launch :: "server \<Rightarrow> pid_write \<Rightarrow> int \<Rightarrow> int \<Rightarrow> int \<Rightarrow> daemon \<Rightarrow> service \<Rightarrow> service" where
  "launch sv w p f1 f2 d s =
     (let s = settle sv w p (demon_pass True f1 f2 d) s;
          s = (if f1 > 0 then settle sv w f1 (demon_pass True 0 f2 d) s else s)
      in if f1 > 0 \<and> f2 > 0 then settle sv w f2 (demon_pass True 0 0 d) s else s)"

text \<open>SIGTERM to the group: the handlers of the supervisor and of the server both exit.\<close>

definition group_term :: "service \<Rightarrow> service" where
  "group_term s = s\<lparr>sups := filter (\<lambda>(p, d). fst (kill_all d) \<noteq> Exits 0) (sups s),
     servers := filter (\<lambda>(p, sv). lives (general_signal_handlers SIGTERM sv)) (servers s)\<rparr>"

text \<open>SIGHUP to the supervisor \<open>p\<close>, which passes it on to its child.\<close>

definition signal_server :: "int \<times> sig \<Rightarrow> int \<times> server \<Rightarrow> int \<times> server" where
  "signal_server k c = (if fst k = fst c then (fst c, after (general_signal_handlers (snd k) (snd c))) else c)"

definition hang_up :: "int \<Rightarrow> service \<Rightarrow> service" where
  "hang_up p s = (let ks = concat (map (\<lambda>(q, d). if q = p then fst (restart_child d) else []) (sups s)) in
     s\<lparr>servers := map (\<lambda>c. foldl (\<lambda>c k. signal_server k c) c ks) (servers s)\<rparr>)"

text \<open>The server \<open>c\<close> leaves its loop and ends its group.\<close>

definition leave_loop :: "int \<Rightarrow> service \<Rightarrow> service" where
  "leave_loop c s = group_term s"

text \<open>
  What can happen: a server that ends by itself (a fault, a failed \<open>fork\<close>, a signal sent to it
  alone), a supervisor that ends by itself (killed, or by a signal that it has no handler for, as an
  interrupt), a supervisor that sees that its child is gone, a hang-up of the supervisor or of the
  server alone, a server that leaves its loop, a supervisor that is told to stop.
\<close>

inductive service_step :: "server \<Rightarrow> service \<Rightarrow> service \<Rightarrow> bool" for sv where
  ends: "servers s = xs @ (c, v) # ys \<Longrightarrow> service_step sv s (s\<lparr>servers := xs @ ys\<rparr>)"
| dies: "sups s = xs @ (p, d) # ys \<Longrightarrow> service_step sv s (s\<lparr>sups := xs @ ys\<rparr>)"
| notice: "\<lbrakk> sups s = xs @ (p, d) # ys; child d \<notin> fst ` set (servers s); watch_child ws [] d = Some (ks, d');
      f1 \<noteq> 0; f2 \<noteq> 0 \<rbrakk>
    \<Longrightarrow> service_step sv s (launch sv w p f1 f2 d' (s\<lparr>sups := xs @ ys\<rparr>))"
| hang_up: "p \<in> fst ` set (sups s) \<Longrightarrow> service_step sv s (hang_up p s)"
| told: "servers s = xs @ (c, v) # ys
    \<Longrightarrow> service_step sv s (s\<lparr>servers := xs @ signal_server (c, SIGHUP) (c, v) # ys\<rparr>)"
| leaves: "(c, v) \<in> set (servers s) \<Longrightarrow> sdone v \<Longrightarrow> service_step sv s (leave_loop c s)"
| stop: "p \<in> fst ` set (sups s) \<Longrightarrow> service_step sv s (group_term s)"

inductive_cases service_stepE: "service_step sv s s'"

definition idle :: service where
  "idle = \<lparr>sups = [], servers = [], pidfile = None, pidwrote = Not_Opened\<rparr>"

definition fresh_daemon :: daemon where
  "fresh_daemon = \<lparr>murder = False, ddone = False, child = 0\<rparr>"

inductive service_reachable :: "server \<Rightarrow> service \<Rightarrow> bool" for sv where
  start: "f1 \<noteq> 0 \<Longrightarrow> f2 \<noteq> 0 \<Longrightarrow> service_reachable sv (launch sv w p f1 f2 fresh_daemon idle)"
| step: "service_reachable sv s \<Longrightarrow> service_step sv s s' \<Longrightarrow> service_reachable sv s'"

subsection \<open>One server, one supervisor\<close>

text \<open>The supervisor that runs is the one in \<open>jawas.pid\<close>, if it could write its number, it has not been
  told to stop, and the only server is its child.  Without a supervisor a server may be left.\<close>

definition service_inv :: "service \<Rightarrow> bool" where
  "service_inv s \<longleftrightarrow> (sups s = [] \<and> length (servers s) \<le> 1) \<or>
     (\<exists>p d. sups s = [(p, d)] \<and> \<not> murder d \<and> \<not> ddone d \<and> (pidwrote s = Written \<longrightarrow> pidfile s = Some p)
       \<and> (servers s = [] \<or> (\<exists>v. servers s = [(child d, v)])))"

lemma launch_inv:
  assumes "\<not> murder d" "\<not> ddone d" "f1 \<noteq> 0" "f2 \<noteq> 0" "sups s = []" "servers s = []"
  shows "service_inv (launch sv w p f1 f2 d s)"
  using assms by (auto simp: launch_def settle_def write_pid_def demon_pass_def service_inv_def Let_def)

lemma watch_child_calm: "\<not> murder d \<Longrightarrow> watch_child ws ks d = Some (ks', d') \<Longrightarrow> d' = d \<and> ks' = ks"
  by (induction ws ks d rule: watch_child.induct) (auto split: if_splits)

lemma group_term_eq: "group_term s = s\<lparr>sups := [], servers := []\<rparr>"
  by (simp add: group_term_def kill_all_def gen_signal_handler_def lives_def)

lemma service_step_inv: "service_step sv s s' \<Longrightarrow> service_inv s \<Longrightarrow> service_inv s'"
proof (induction rule: service_step.induct)
  case (notice s xs p d ys ws ks d' f1 f2 w)
  from notice have s: "sups s = [(p, d)]" "xs = []" "ys = []" "\<not> murder d" "\<not> ddone d" "servers s = []"
    by (auto simp: service_inv_def append_eq_Cons_conv)
  moreover have "d' = d" using watch_child_calm [OF s(4) notice(3)] by simp
  ultimately show ?case using notice(4,5) by (intro launch_inv) simp_all
next
  case (ends s xs c v ys)
  then show ?case by (auto simp: service_inv_def append_eq_Cons_conv)
next
  case (told s xs c v ys)
  then show ?case by (auto simp: service_inv_def append_eq_Cons_conv signal_server_def)
next
  case (dies s xs p d ys)
  then show ?case by (auto simp: service_inv_def append_eq_Cons_conv)
qed (auto simp: service_inv_def append_eq_Cons_conv hang_up_def restart_child_def signal_server_def leave_loop_def group_term_eq Let_def)

text \<open>The states in which a service starts.\<close>

definition launched :: "server \<Rightarrow> service \<Rightarrow> bool" where
  "launched sv s \<longleftrightarrow> (\<exists>w p f1 f2. f1 \<noteq> 0 \<and> f2 \<noteq> 0 \<and> s = launch sv w p f1 f2 fresh_daemon idle)"

lemma service_reachable_iff:
  "service_reachable sv s \<longleftrightarrow> (\<exists>s0. launched sv s0 \<and> (service_step sv)\<^sup>*\<^sup>* s0 s)"
proof
  assume "service_reachable sv s"
  then show "\<exists>s0. launched sv s0 \<and> (service_step sv)\<^sup>*\<^sup>* s0 s"
    by (induction rule: service_reachable.induct)
      (unfold launched_def, blast, blast intro: rtranclp.rtrancl_into_rtrancl)
next
  assume "\<exists>s0. launched sv s0 \<and> (service_step sv)\<^sup>*\<^sup>* s0 s"
  then obtain s0 where "(service_step sv)\<^sup>*\<^sup>* s0 s" "launched sv s0" by blast
  then show "service_reachable sv s"
    by (induction rule: rtranclp_induct) (auto simp: launched_def intro: service_reachable.intros)
qed

lemma launched_inv: "launched sv s \<Longrightarrow> service_inv s"
  unfolding launched_def by (elim exE conjE, hypsubst, rule launch_inv) (simp_all add: fresh_daemon_def idle_def)

interpretation supervised: invariant_system "launched sv" "service_step sv" "service_reachable sv" service_inv for sv
  by unfold_locales (rule service_reachable_iff, rule launched_inv, assumption, rule service_step_inv)

text \<open>C23: However the processes end, alone or together, signal each other and are started again, there is
  never more than one server and one supervisor; as long as there is a supervisor, the server is its
  child, and the number in \<open>jawas.pid\<close> is its own unless it could not write it.\<close>

theorem one_server:
  assumes "service_reachable sv s"
  shows "length (servers s) \<le> 1 \<and> length (sups s) \<le> 1
    \<and> (\<forall>p d. (p, d) \<in> set (sups s) \<longrightarrow> (pidwrote s = Written \<longrightarrow> pidfile s = Some p)
        \<and> (\<forall>c v. (c, v) \<in> set (servers s) \<longrightarrow> child d = c))"
  using supervised.reach_inv [OF assms] by (auto simp: service_inv_def)

definition sample_server :: server where
  "sample_server = psrv (start_pool 3 0 [])"

lemma launch_fresh:
  "launch sv Written p 11 12 fresh_daemon idle
    = \<lparr>sups = [(11, fresh_daemon\<lparr>child := 12\<rparr>)], servers = [(12, sv)], pidfile = Some 11, pidwrote = Written\<rparr>"
  by (simp add: launch_def settle_def write_pid_def demon_pass_def fresh_daemon_def idle_def Let_def)

theorem one_server_witness:
  "\<exists>s. service_reachable sample_server s \<and> servers s = [(12, sample_server)] \<and> length (sups s) \<le> 1
    \<and> (\<forall>p d. (p, d) \<in> set (sups s) \<longrightarrow> pidfile s = Some p \<and> child d = 12)"
proof -
  have "service_reachable sample_server (launch sample_server Written 10 11 12 fresh_daemon idle)"
    by (rule service_reachable.start) simp_all
  from one_server [OF this] this show ?thesis
    by (intro exI [of _ "launch sample_server Written 10 11 12 fresh_daemon idle"]) (simp add: launch_fresh)
qed

text \<open>A supervisor has handlers for three signals only.  When another one ends it, the server goes on
  alone: no supervisor comes back, and the number in \<open>jawas.pid\<close> is that of no process.\<close>

lemma launch_none: "sups s = [] \<Longrightarrow> service_step sv s s' \<Longrightarrow> sups s' = [] \<and> pidfile s' = pidfile s"
  by (erule service_stepE) (auto simp: leave_loop_def group_term_eq)

theorem server_left_alone:
  assumes "sups s = [(p, d)]"
  shows "service_step sv s (s\<lparr>sups := []\<rparr>)
    \<and> ((service_step sv)\<^sup>*\<^sup>* (s\<lparr>sups := []\<rparr>) t \<longrightarrow> sups t = [] \<and> pidfile t = pidfile s)"
proof
  show "service_step sv s (s\<lparr>sups := []\<rparr>)" using service_step.dies [of s "[]" p d "[]" sv] assms by simp
  show "(service_step sv)\<^sup>*\<^sup>* (s\<lparr>sups := []\<rparr>) t \<longrightarrow> sups t = [] \<and> pidfile t = pidfile s"
  proof
    assume "(service_step sv)\<^sup>*\<^sup>* (s\<lparr>sups := []\<rparr>) t"
    then show "sups t = [] \<and> pidfile t = pidfile s"
      by (induction rule: rtranclp_induct) (auto dest: launch_none)
  qed
qed

theorem server_left_alone_witness:
  "\<exists>s. service_reachable sample_server s \<and> servers s = [(12, sample_server)] \<and> sups s = [] \<and> pidfile s = Some 11"
proof -
  let ?s = "launch sample_server Written 10 11 12 fresh_daemon idle"
  have r: "service_reachable sample_server ?s" by (rule service_reachable.start) simp_all
  have "sups ?s = [(11, fresh_daemon\<lparr>child := 12\<rparr>)]" by (simp add: launch_fresh)
  from server_left_alone [OF this, of sample_server] service_reachable.step [OF r]
  have "service_reachable sample_server (?s\<lparr>sups := []\<rparr>)" by blast
  then show ?thesis by (intro exI [of _ "?s\<lparr>sups := []\<rparr>"]) (simp add: launch_fresh)
qed

text \<open>C38: A request to restart, which the supervisor passes on to the server, ends both: the server
  ends its loop and with it its group, the supervisor included, and nothing can happen any more.  A
  server that ends in any other way is started again by its supervisor.\<close>

theorem restart_ends_service:
  assumes "sups s = [(p, d)]" "servers s = [(child d, v)]"
  shows "service_step sv s (hang_up p s)
    \<and> service_step sv (hang_up p s) ((hang_up p s)\<lparr>sups := [], servers := []\<rparr>)
    \<and> \<not> service_step sv ((hang_up p s)\<lparr>sups := [], servers := []\<rparr>) t"
proof (intro conjI notI)
  show "service_step sv s (hang_up p s)" by (rule service_step.hang_up) (simp add: assms)
  have "servers (hang_up p s) = [(child d, v\<lparr>sdone := True, srestart := True\<rparr>)]"
    by (simp add: hang_up_def assms restart_child_def signal_server_def restart_signal_handler_def after_def)
  then have "(child d, v\<lparr>sdone := True, srestart := True\<rparr>) \<in> set (servers (hang_up p s))" by simp
  from service_step.leaves [OF this, of sv]
  show "service_step sv (hang_up p s) ((hang_up p s)\<lparr>sups := [], servers := []\<rparr>)"
    by (simp add: leave_loop_def group_term_eq)
  assume "service_step sv ((hang_up p s)\<lparr>sups := [], servers := []\<rparr>) t"
  then show False by (cases rule: service_step.cases) auto
qed

theorem restart_ends_service_witness:
  "\<exists>s. service_reachable sample_server s \<and> sups s = [] \<and> servers s = [] \<and> \<not> service_step sample_server s idle"
proof -
  let ?s = "launch sample_server Written 10 11 12 fresh_daemon idle"
  have r: "service_reachable sample_server ?s" by (rule service_reachable.start) simp_all
  have s: "sups ?s = [(11, fresh_daemon\<lparr>child := 12\<rparr>)]" "servers ?s = [(child (fresh_daemon\<lparr>child := 12\<rparr>), sample_server)]"
    by (simp_all add: launch_fresh)
  note e = restart_ends_service [OF s, of sample_server idle]
  then have "service_reachable sample_server ((hang_up 11 ?s)\<lparr>sups := [], servers := []\<rparr>)"
    using r service_reachable.step by blast
  with e show ?thesis by (intro exI [of _ "(hang_up 11 ?s)\<lparr>sups := [], servers := []\<rparr>"]) simp
qed

subsection \<open>What the command line can say\<close>

text \<open>The ports are taken from behind the option, with 8080 and 4433 when they are left out, and
  the full form that the usage message shows, an option and two ports, is refused.\<close>

theorem command_line:
  "take 2 q \<noteq> ''-d'' \<and> q \<noteq> ''-r'' \<Longrightarrow>
     jawasd_main pid [x] = Run False 8080 4433 \<and> jawasd_main pid [x, ''-d''] = Run True 8080 4433
   \<and> jawasd_main pid [x, q] = Run False (atoi q) 4433 \<and> jawasd_main pid [x, q, r] = Run False (atoi q) (atoi r)
   \<and> jawasd_main pid [x, ''-d'', q] = Run True (atoi q) 4433
   \<and> jawasd_main pid [x, ''-d'', q, r] = Usage JAWAS_EXIT_USAGE"
  by (simp add: jawasd_main_def SERVER_PORT_def TLS_SERVER_PORT_def atoi_def isspace_def between_def byte_def)

theorem command_line_witness:
  "jawasd_main None [''jawasd'', ''80''] = Run False 80 4433
   \<and> jawasd_main None [''jawasd'', ''-d'', ''80'', ''443''] = Usage JAWAS_EXIT_USAGE"
  using command_line [of "''80''" None "''jawasd''" "''443''"] by (simp add: atoi_def isspace_def between_def byte_def)

end
