(* ===== verification/Lua_Net.thy ===== *)
theory Lua_Net
  imports Lua_Query Net Responses_Props
begin

section \<open>Pages that talk to others (lws.c: use, post, socket, send, receive)\<close>

text \<open>
  The registered functions that run a file of the site, send a request to another server or
  exchange datagrams.  The file system, the other server and the network are arguments.
\<close>

text \<open>\<open>dofile\<close> is what \<open>luaL_dofile\<close> does: whether the file ran, and the worker behind it.\<close>

definition UseLua :: "(string \<Rightarrow> client \<Rightarrow> (bool \<times> client) option) \<Rightarrow> env \<Rightarrow> lua_val list \<Rightarrow> client
    \<Rightarrow> (int \<times> client) option" where
  "UseLua dofile e args cl = do {
     a \<leftarrow> lua2str (lua_arg args 1);
     p \<leftarrow> fmt ''/%s'' [AStr a];
     filename \<leftarrow> file_path (ecwd e) (qhost (crequest cl)) p;
     v \<leftarrow> filename;
     x \<leftarrow> cstr (sdata v);
     (ok, cl) \<leftarrow> dofile x cl;
     _ \<leftarrow> (if \<not> ok then error_log ''Failed to evaluate script %s'' [AStr filename] else Some ());
     Some (0, cl) }"

text \<open>The entries of the table of header fields, in the order of \<open>lua_next\<close>.\<close>

fun post_headers :: "(lua_val \<times> lua_val) list \<Rightarrow> request \<Rightarrow> request option" where
  "post_headers [] req = Some req"
| "post_headers (kv # kvs) req = do {
     k \<leftarrow> lua2str (fst kv);
     v \<leftarrow> lua2str (snd kv);
     req \<leftarrow> request_headers req k v;
     post_headers kvs req }"

text \<open>\<open>PostHTTPLua\<close>: the result is the request that it makes, its connection, and the worker, whose
  own request stays the one being answered.  \<open>connected\<close> is what \<open>connect_socket\<close> makes.\<close>

definition PostHTTPLua :: "env \<Rightarrow> conn option \<Rightarrow> lua_val list \<Rightarrow> (lua_val \<times> lua_val) list \<Rightarrow> client
    \<Rightarrow> (outcome \<times> request \<times> conn option \<times> client) option" where
  "PostHTTPLua e connected args hdrs cl = do {
     proto \<leftarrow> lua2str (lua_arg args 1);
     host \<leftarrow> lua2str (lua_arg args 2);
     path \<leftarrow> lua2str (lua_arg args 3);
     data \<leftarrow> lua2str (lua_arg args 5);
     callback \<leftarrow> lua2str (lua_arg args 6);
     m \<leftarrow> fmt ''POST'' [];
     req \<leftarrow> new_request m host path;
     https \<leftarrow> fmt ''https'' [];
     ssl \<leftarrow> icmp https proto;
     req \<leftarrow> post_headers hdrs (if ssl then request_ssl req else req);
     req \<leftarrow> request_data req data;
     let req = request_callback req (cresponse cl) callback;
     (_, req, sock, fd) \<leftarrow> send_request (ekw e) connected req None;
     let cl = (case fd of None \<Rightarrow> cl | Some f \<Rightarrow> add_req_socket f cl);
     let cl = (case cresponse cl of None \<Rightarrow> cl | Some resp \<Rightarrow> cl\<lparr>cresponse := Some (resp\<lparr>pstatus := 0\<rparr>)\<rparr>);
     Some (Jumped, req, sock, cl) }"

text \<open>\<open>SocketLua\<close>: a datagram socket for the first address of a host; \<open>addr\<close> is what the global
  \<open>Address\<close> holds.\<close>

definition SocketLua :: "32 word list option \<Rightarrow> 32 word list \<Rightarrow> int \<Rightarrow> bool \<Rightarrow> sockaddr \<Rightarrow> lua_val list
    \<Rightarrow> (int \<times> socket) unless_exit option" where
  "SocketLua found behind answer reuse_fails addr args = do {
     host \<leftarrow> lua2str (lua_arg args 1);
     port \<leftarrow> lua2str (lua_arg args 2);
     n \<leftarrow> str_int port;
     _ \<leftarrow> debug_log ''looking up %s:%i'' [AStr host, AReg (of_int n)];
     ipaddrs \<leftarrow> lookup found behind;
     (case ipaddrs of [] \<Rightarrow> None
      | a # as \<Rightarrow> do {
          p \<leftarrow> ipaddress a n;
          _ \<leftarrow> debug_log ''Socket for ipaddr %s'' [AStr p];
          (case new_socket answer reuse_fails of
             Exits_With k \<Rightarrow> Some (Exits_With k)
           | Goes_On fd \<Rightarrow> do {
               let sc = socket_attach ((create_socket (of_int fd) False addr)\<lparr>shost := host\<rparr>) a n;
               p \<leftarrow> socket_peer sc;
               _ \<leftarrow> debug_log ''Created socket for %s'' [AStr p];
               Some (Goes_On (1, sc)) }) }) }"

definition SendLua :: "socket option \<Rightarrow> int \<Rightarrow> lua_val list \<Rightarrow> calls \<Rightarrow> (int \<times> (sockaddr \<times> string) \<times> calls) option" where
  "SendLua s answer args cs = do {
     sc \<leftarrow> s;
     buf \<leftarrow> lua2str (lua_arg args 2);
     p \<leftarrow> socket_peer sc;
     _ \<leftarrow> debug_log ''Sending [%s] to %s'' [AStr buf, AStr p];
     (addr, x, n) \<leftarrow> socket_send sc buf answer;
     _ \<leftarrow> debug_log ''Sent %i bytes'' [AReg (of_int n)];
     Some (1, (addr, x), cs @ [Push_Number n]) }"

definition ReceiveLua :: "socket option \<Rightarrow> string \<Rightarrow> string list \<Rightarrow> calls \<Rightarrow> (int \<times> string list \<times> calls) option" where
  "ReceiveLua s junk dgrams cs = do {
     sc \<leftarrow> s;
     (buf, rest) \<leftarrow> socket_recv junk dgrams;
     cs \<leftarrow> str2lua buf cs;
     Some (1, rest, cs) }"

subsection \<open>A request that is never sent\<close>

lemma send_request_new:
  "send_request kw connected req None = Some (b, req', sock, fd)
    \<Longrightarrow> \<not> b \<and> qlength req' = qlength req \<and> sock = connected"
  by (auto simp: send_request_def bind_Some_iff split: option.splits)

lemma post_request_kept:
  "post_headers hdrs req = Some req' \<Longrightarrow> qlength req' = qlength req"
  by (induction hdrs req rule: post_headers.induct) (auto simp: bind_Some_iff request_headers_def split: if_splits)

lemma new_request_length: "new_request m h p = Some req \<Longrightarrow> qlength req = - 1"
  by (auto simp: new_request_def bind_Some_iff)

lemma PostHTTPLua_inert:
  assumes "PostHTTPLua e connected args hdrs cl = Some (r, req, sock, cl')"
  shows "r = Jumped \<and> sock = connected \<and> qlength req = - 1 \<and> crequest cl' = crequest cl \<and> csocket cl' = csocket cl"
  using assms
  by (auto simp: PostHTTPLua_def bind_Some_iff Let_def request_data_def request_callback_def request_ssl_def
      add_req_socket_def dest!: send_request_new new_request_length post_request_kept
      split: option.splits if_splits)

lemma send_response_last: "send_response e cl = Some cl' \<Longrightarrow> cexit cl' \<and> cqueue cl' = []"
  by (auto simp: send_response_def bind_Some_iff Let_def disconnect_def case_prod_beta split: option.splits)

text \<open>C36: What a page posts to another server is never sent: the function connects and waits for the
  connection to become writable, but the worker's request stays its own, the page ends, and the
  worker exits when its response is done, before any byte of the new request.\<close>

theorem post_never_sent:
  assumes "PostHTTPLua e connected args hdrs cl = Some (r, req, sock, cl')" "send_response e cl1 = Some cl2"
  shows "r = Jumped \<and> sock = connected \<and> qlength req = - 1 \<and> crequest cl' = crequest cl \<and> csocket cl' = csocket cl
    \<and> cexit cl2 \<and> cqueue cl2 = []"
  using PostHTTPLua_inert [OF assms(1)] send_response_last [OF assms(2)] by simp

lemma sample_post:
  "map_option (\<lambda>x. fst x = Jumped) (PostHTTPLua sample_env None
     [LString ''http'', LString ''h'', LString ''/'', LNil, LString ''x'', LNil] [] (sample_client None)) = Some True"
  by code_simp

lemma sample_response: "map_option cexit (send_response sample_env (sample_client new_headers)) = Some True"
  by code_simp

theorem post_never_sent_witness:
  "\<exists>r req sock cl' cl2. PostHTTPLua sample_env None
      [LString ''http'', LString ''h'', LString ''/'', LNil, LString ''x'', LNil] [] (sample_client None) = Some (r, req, sock, cl')
    \<and> send_response sample_env (sample_client new_headers) = Some cl2 \<and> qlength req = - 1 \<and> cexit cl2 \<and> cqueue cl2 = []"
proof -
  obtain r req sock cl' where p: "PostHTTPLua sample_env None
      [LString ''http'', LString ''h'', LString ''/'', LNil, LString ''x'', LNil] [] (sample_client None) = Some (r, req, sock, cl')"
    using sample_post by fastforce
  obtain cl2 where s: "send_response sample_env (sample_client new_headers) = Some cl2"
    using sample_response by auto
  from post_never_sent [OF p s] p s show ?thesis by blast
qed

end
