(* ===== verification/Usage.thy ===== *)
theory Usage
  imports Requests
begin

section \<open>Usage statistics (usage.c, and start_request and end_request of requests.c)\<close>

text \<open>
  The time that the process has spent on a request, and a running mean of it per request and per
  path.  Times are pairs of seconds and microseconds; differences are made in \<open>size_t\<close> and cut to
  an \<open>int\<close>, and a second counts as \<open>2 ^ 20\<close> microseconds.
\<close>

record timeval =
  tv_sec :: int
  tv_usec :: int

text \<open>User and system time, as \<open>getrusage\<close> answers them.\<close>

record rusage =
  ru_utime :: timeval
  ru_stime :: timeval

record usage =
  ustart :: rusage
  uend :: rusage
  requests :: int
  hits :: int
  mtime :: int

definition timediff :: "timeval \<Rightarrow> timeval \<Rightarrow> int" where
  "timediff a b = (let sec = (of_int (tv_sec a - tv_sec b) :: reg); usec = of_int (tv_usec a - tv_usec b) in
     reg_to_int (push_bit 20 sec + usec))"

text \<open>\<open>None\<close> is a failed \<open>getrusage\<close>, which leaves the structure alone.\<close>

definition start_usage :: "rusage option \<Rightarrow> usage \<Rightarrow> usage option" where
  "start_usage now u = (case now of
     None \<Rightarrow> do { _ \<leftarrow> error_log ''Failed to calculate usage'' []; Some u }
   | Some r \<Rightarrow> Some (u\<lparr>ustart := r\<rparr>))"

definition usage_delta :: "usage \<Rightarrow> int" where
  "usage_delta u = wrap32 (timediff (ru_utime (uend u)) (ru_utime (ustart u))
     + timediff (ru_stime (uend u)) (ru_stime (ustart u)))"

text \<open>The running mean over at most 1000 hits.\<close>

definition stop_usage :: "rusage option \<Rightarrow> usage \<Rightarrow> usage option" where
  "stop_usage now u = do {
     u \<leftarrow> (case now of
            None \<Rightarrow> do { _ \<leftarrow> error_log ''Failed to calculate usage'' []; Some u }
          | Some r \<Rightarrow> Some (u\<lparr>uend := r\<rparr>));
     let delta = usage_delta u;
     let u = u\<lparr>requests := wrap32 (requests u + 1)\<rparr>;
     let u = (if hits u < 1000 then u\<lparr>hits := hits u + 1\<rparr> else u);
     (if hits u = 0 then None
      else Some (u\<lparr>mtime := tdiv (wrap32 (wrap32 ((hits u - 1) * mtime u) + delta)) (hits u)\<rparr>)) }"

text \<open>\<open>dump_usage\<close> prints the three sums with a micro sign, two bytes in the source.\<close>

abbreviation MICRO :: string where "MICRO \<equiv> [CHR 0xC2, CHR 0xB5]"

definition dump_usage :: "usage \<Rightarrow> unit option" where
  "dump_usage u = (let a = timediff (ru_utime (uend u)) (ru_utime (ustart u));
       b = timediff (ru_stime (uend u)) (ru_stime (ustart u)) in do {
     _ \<leftarrow> debug_log (''Total Time: %i'' @ MICRO @ ''s'') [AReg (of_int (a + b))];
     _ \<leftarrow> debug_log (CHR 9 # ''User Time: %i'' @ MICRO @ ''s'') [AReg (of_int a)];
     debug_log (CHR 9 # ''System Time: %i'' @ MICRO @ ''s'') [AReg (of_int b)] })"

subsection \<open>The list of requests (requests.c)\<close>

record request_info =
  ihost :: str
  ipath :: str
  itime :: int
  ihits :: int

definition start_request :: "rusage option \<Rightarrow> usage \<Rightarrow> usage option" where
  "start_request now u = start_usage now u"

text \<open>The loop over the list: the first entry of the same host and path is updated.\<close>

fun count_request :: "request \<Rightarrow> usage \<Rightarrow> request_info list \<Rightarrow> (bool \<times> request_info list) option" where
  "count_request req u [] = Some (False, [])"
| "count_request req u (x # xs) = do {
     a \<leftarrow> cmp (ihost x) (qhost req);
     b \<leftarrow> (if a then cmp (ipath x) (qpath req) else Some False);
     (if b then (let h = wrap32 (ihits x + 1) in
        if h = 0 then None
        else Some (True, x\<lparr>ihits := h, itime := tdiv (wrap32 (mtime u + wrap32 ((h - 1) * itime x))) h\<rparr> # xs))
      else do { (d, ys) \<leftarrow> count_request req u xs; Some (d, x # ys) }) }"

definition end_request :: "rusage option \<Rightarrow> request \<Rightarrow> usage \<Rightarrow> request_info list
    \<Rightarrow> (usage \<times> request_info list) option" where
  "end_request now req u ri = do {
     u \<leftarrow> stop_usage now u;
     _ \<leftarrow> debug_log ''Request %s:%i%s'' [AStr (qhost req), AReg (of_int (qport req)), AStr (qpath req)];
     _ \<leftarrow> dump_usage u;
     (d, ri') \<leftarrow> count_request req u ri;
     Some (u, if d then ri' else \<lparr>ihost = qhost req, ipath = qpath req, itime = mtime u, ihits = hits u\<rparr> # ri') }"

subsection \<open>Values\<close>

lemma timediff_eq: "timediff a b = wrap32 ((tv_sec a - tv_sec b) * 2 ^ 20 + (tv_usec a - tv_usec b))"
proof -
  have "uint (push_bit 20 (of_int s :: reg) + of_int u) mod 2 ^ 32 = (s * 2 ^ 20 + u) mod 2 ^ 32" for s u :: int
  proof -
    have "push_bit 20 (of_int s :: reg) + of_int u = of_int (s * 2 ^ 20 + u)"
      by (simp add: push_bit_eq_mult)
    moreover have "uint (of_int n :: reg) mod 2 ^ 32 = n mod 2 ^ 32" for n
      by (simp add: uint_word_of_int mod_mod_cancel)
    ultimately show ?thesis by (simp only:)
  qed
  then show ?thesis unfolding timediff_def Let_def reg_to_int_def by (rule wrap32_cong)
qed

text \<open>The mean stays between the bounds of the times, as long as their sums fit into an \<open>int\<close>.\<close>

lemma mean_bounds:
  assumes "0 \<le> t" "t \<le> m" "0 \<le> d" "d \<le> m" "1 \<le> h" "h \<le> 1000" "m \<le> 2147483"
  shows "0 \<le> tdiv (wrap32 (wrap32 ((h - 1) * t) + d)) h \<and> tdiv (wrap32 (wrap32 ((h - 1) * t) + d)) h \<le> m"
proof -
  have a: "0 \<le> (h - 1) * t" using assms(1,5) by simp
  have "(h - 1) * t \<le> (h - 1) * m" using assms(2,5) by (intro mult_left_mono) auto
  then have b: "(h - 1) * t + d \<le> h * m" using assms(4) by (simp add: algebra_simps)
  have "h * m \<le> 1000 * 2147483" using assms(1,2,5-7) by (intro mult_mono) auto
  then have "wrap32 ((h - 1) * t) = (h - 1) * t" "wrap32 ((h - 1) * t + d) = (h - 1) * t + d"
    using a b assms(3) by (simp_all add: wrap32_def)
  moreover have "((h - 1) * t + d) div h \<le> m"
  proof -
    have "((h - 1) * t + d) div h \<le> (h * m) div h" using b assms(5) by (intro zdiv_mono1) auto
    then show ?thesis using assms(5) by simp
  qed
  ultimately show ?thesis using a assms(3,5) by (simp add: pos_imp_zdiv_nonneg_iff)
qed

text \<open>The state of the statistics after any number of requests.\<close>

definition wf_usage :: "int \<Rightarrow> usage \<Rightarrow> bool" where
  "wf_usage m u \<longleftrightarrow> 0 \<le> hits u \<and> hits u \<le> 1000 \<and> 0 \<le> mtime u \<and> mtime u \<le> m"

text \<open>The number of hits stays between 1 and 1000 and the mean between 0 and any bound of the times
  measured, up to 2,147,483 units, which is about two seconds; beyond that the sum overflows.\<close>

theorem usage_mean_bounded:
  assumes "wf_usage m u" "m \<le> 2147483" "0 \<le> usage_delta (u\<lparr>uend := r\<rparr>)" "usage_delta (u\<lparr>uend := r\<rparr>) \<le> m"
  shows "\<exists>u'. stop_usage (Some r) u = Some u' \<and> wf_usage m u' \<and> 1 \<le> hits u' \<and> uend u' = r"
proof -
  define h where "h = (if hits u < 1000 then hits u + 1 else hits u)"
  have h: "1 \<le> h" "h \<le> 1000" using assms(1) by (auto simp: h_def wf_usage_def)
  have "0 \<le> tdiv (wrap32 (wrap32 ((h - 1) * mtime u) + usage_delta (u\<lparr>uend := r\<rparr>))) h
      \<and> tdiv (wrap32 (wrap32 ((h - 1) * mtime u) + usage_delta (u\<lparr>uend := r\<rparr>))) h \<le> m"
    using assms h by (intro mean_bounds) (auto simp: wf_usage_def)
  moreover have "stop_usage (Some r) u = Some (u\<lparr>uend := r, requests := wrap32 (requests u + 1), hits := h,
      mtime := tdiv (wrap32 (wrap32 ((h - 1) * mtime u) + usage_delta (u\<lparr>uend := r\<rparr>))) h\<rparr>)"
  proof (cases "hits u < 1000")
    case True
    then show ?thesis using h(1) by (simp add: stop_usage_def Let_def h_def)
  next
    case False
    then have "h = hits u" by (simp add: h_def)
    with False show ?thesis using h(1) by (simp add: stop_usage_def Let_def)
  qed
  ultimately show ?thesis using h by (auto simp: wf_usage_def)
qed

definition sample_usage :: usage where
  "sample_usage = (let t = \<lparr>tv_sec = 0, tv_usec = 0\<rparr>; r = \<lparr>ru_utime = t, ru_stime = t\<rparr> in
     \<lparr>ustart = r, uend = r, requests = 0, hits = 1, mtime = 100\<rparr>)"

theorem usage_mean_bounded_witness:
  "\<exists>u'. stop_usage (Some \<lparr>ru_utime = \<lparr>tv_sec = 0, tv_usec = 200\<rparr>, ru_stime = \<lparr>tv_sec = 0, tv_usec = 0\<rparr>\<rparr>) sample_usage = Some u'
    \<and> 0 \<le> mtime u' \<and> mtime u' \<le> 200 \<and> hits u' \<le> 1000"
  using usage_mean_bounded [of 200 sample_usage "\<lparr>ru_utime = \<lparr>tv_sec = 0, tv_usec = 200\<rparr>, ru_stime = \<lparr>tv_sec = 0, tv_usec = 0\<rparr>\<rparr>"]
  by (auto simp: sample_usage_def Let_def wf_usage_def usage_delta_def timediff_eq wrap32_def)

end
