(* ===== verification/Dates.thy ===== *)
theory Dates
  imports Str_Format
begin

section \<open>Dates (dates.c)\<close>

text \<open>
  The dates of the \<open>Date\<close> and \<open>Expires\<close> fields.  \<open>gmtime\<close> and \<open>strftime\<close> are those of the C
  library, for times from 1970 on: the first counts years and months off, the second prints.
\<close>

subsection \<open>The calendar\<close>

record tm =
  tm_year :: int
  tm_mon :: int
  tm_mday :: int
  tm_wday :: int
  tm_hour :: int
  tm_min :: int
  tm_sec :: int

definition leap :: "int \<Rightarrow> bool" where
  "leap y \<longleftrightarrow> y mod 4 = 0 \<and> (y mod 100 \<noteq> 0 \<or> y mod 400 = 0)"

definition year_days :: "int \<Rightarrow> int" where
  "year_days y = (if leap y then 366 else 365)"

definition month_days :: "int \<Rightarrow> int list" where
  "month_days y = [31, if leap y then 29 else 28, 31, 30, 31, 30, 31, 31, 30, 31, 30, 31]"

lemma year_days_pos: "0 < year_days y"
  by (simp add: year_days_def)

function split_years :: "int \<Rightarrow> int \<Rightarrow> int \<times> int" where
  "split_years y d = (if year_days y \<le> d then split_years (y + 1) (d - year_days y) else (y, d))"
  by pat_completeness auto
termination
proof (relation "measure (\<lambda>(y, d). nat d)")
  fix y d assume "year_days y \<le> d"
  then show "((y + 1, d - year_days y), (y, d)) \<in> measure (\<lambda>(y, d). nat d)"
    using year_days_pos [of y] by simp
qed simp

declare split_years.simps [simp del]

fun split_months :: "int \<Rightarrow> int list \<Rightarrow> int \<Rightarrow> int \<times> int" where
  "split_months m [] d = (m, d)"
| "split_months m (l # ls) d = (if d < l then (m, d) else split_months (m + 1) ls (d - l))"

definition gmtime :: "int \<Rightarrow> tm" where
  "gmtime t = (let d = t div 86400; s = t mod 86400; (y, yd) = split_years 1970 d;
       (m, md) = split_months 0 (month_days y) yd
     in \<lparr>tm_year = y, tm_mon = m, tm_mday = md + 1, tm_wday = (d + 4) mod 7,
         tm_hour = s div 3600, tm_min = s div 60 mod 60, tm_sec = s mod 60\<rparr>)"

subsection \<open>Printing\<close>

definition day_names :: "string list" where
  "day_names = [''Sun'', ''Mon'', ''Tue'', ''Wed'', ''Thu'', ''Fri'', ''Sat'']"

definition month_names :: "string list" where
  "month_names = [''Jan'', ''Feb'', ''Mar'', ''Apr'', ''May'', ''Jun'', ''Jul'', ''Aug'', ''Sep'', ''Oct'', ''Nov'', ''Dec'']"

definition dec_char :: "int \<Rightarrow> char" where
  "dec_char n = char_of_int (48 + n)"

text \<open>Numbers with leading zeros, and a year, which has at least four digits in the range of the
  model.\<close>

definition two_digits :: "int \<Rightarrow> string" where
  "two_digits n = [dec_char (n div 10 mod 10), dec_char (n mod 10)]"

function decimal :: "int \<Rightarrow> string" where
  "decimal n = (if n < 10 then [dec_char n] else decimal (n div 10) @ [dec_char (n mod 10)])"
  by pat_completeness auto
termination by (relation "measure nat") auto

declare decimal.simps [simp del]

fun strftime :: "string \<Rightarrow> tm \<Rightarrow> string" where
  "strftime [] t = []"
| "strftime [c] t = [c]"
| "strftime (c # d # f) t =
     (if c \<noteq> CHR ''%'' then c # strftime (d # f) t
      else (if d = CHR ''a'' then day_names ! nat (tm_wday t)
            else if d = CHR ''b'' then month_names ! nat (tm_mon t)
            else if d = CHR ''d'' then two_digits (tm_mday t)
            else if d = CHR ''H'' then two_digits (tm_hour t)
            else if d = CHR ''M'' then two_digits (tm_min t)
            else if d = CHR ''S'' then two_digits (tm_sec t)
            else if d = CHR ''Y'' then decimal (tm_year t) else []) @ strftime f t)"

text \<open>A text that does not fit into the 32 bytes with its NUL leaves the buffer undefined, and has no
  result here.\<close>

definition Date :: "int \<Rightarrow> str option" where
  "Date now = (let x = strftime ''%a, %d %b %Y %H:%M:%S +0000'' (gmtime now) in
     if length x < 32 then Some (view x (replicate (32 - length x) NUL)) else None)"

definition Expires :: "int \<Rightarrow> str option" where
  "Expires now = Date (86400 + now)"

text \<open>\<open>MicroTime\<close>: the answer of \<open>gettimeofday\<close>, or its failure.\<close>

definition MicroTime :: "(int \<times> int) option \<Rightarrow> int \<Rightarrow> str option" where
  "MicroTime tv now = (case tv of None \<Rightarrow> Expires now
     | Some (s, u) \<Rightarrow> fmt ''%i'' [AReg (push_bit 20 (of_int s) + of_int u)])"

subsection \<open>The calendar is the one of POSIX\<close>

text \<open>Days before a year of the calendar, as POSIX counts them.\<close>

definition days_before :: "int \<Rightarrow> int" where
  "days_before y = (y - 1970) * 365 + (y - 1969) div 4 - (y - 1901) div 100 + (y - 1601) div 400"

lemma div_step:
  assumes "0 < (k :: int)"
  shows "(x + 1) div k = x div k + (if (x + 1) mod k = 0 then 1 else 0)"
proof -
  have x: "x = k * (x div k) + x mod k" "0 \<le> x mod k" "x mod k < k" using assms by simp_all
  show ?thesis
  proof (cases "x mod k + 1 = k")
    case True
    have "k * (x div k + 1) = k * (x div k) + k" by (simp add: distrib_left)
    then have "x + 1 = k * (x div k + 1) + 0" using x(1) True by linarith
    from int_div_pos_eq [OF this] int_mod_pos_eq [OF this] assms show ?thesis by simp
  next
    case False
    then have "x + 1 = k * (x div k) + (x mod k + 1)" "0 \<le> x mod k + 1" "x mod k + 1 < k" using x by linarith+
    from int_div_pos_eq [OF this] int_mod_pos_eq [OF this] show ?thesis using x(2) by simp
  qed
qed

lemma shift_mod: "(y - k * j) mod k = y mod (k :: int)"
  using mod_mult_self2 [of y k "- j"] by simp

lemma div_before:
  assumes "0 < (k :: int)"
  shows "(y - k * j) div k = (y - (k * j + 1)) div k + (if y mod k = 0 then 1 else 0)"
proof -
  have "y - (k * j + 1) + 1 = y - k * j" by simp
  then show ?thesis using div_step [OF assms, of "y - (k * j + 1)"] by (simp only: shift_mod)
qed

lemma days_before_Suc: "days_before (y + 1) = days_before y + year_days y"
proof -
  have n: "(4 :: int) * 492 = 1968" "(100 :: int) * 19 = 1900" "(400 :: int) * 4 = 1600"
    "(1968 :: int) + 1 = 1969" "(1900 :: int) + 1 = 1901" "(1600 :: int) + 1 = 1601"
    "(0 :: int) < 4" "(0 :: int) < 100" "(0 :: int) < 400" by simp_all
  define a b c where "a = (y - 1969) div 4" and "b = (y - 1901) div 100" and "c = (y - 1601) div 400"
  have d: "(y - 1968) div 4 = a + (if y mod 4 = 0 then 1 else 0)" "(y - 1900) div 100 = b + (if y mod 100 = 0 then 1 else 0)"
    "(y - 1600) div 400 = c + (if y mod 400 = 0 then 1 else 0)"
    unfolding a_def b_def c_def
    using div_before [OF n(7), of y 492] div_before [OF n(8), of y 19] div_before [OF n(9), of y 4]
    unfolding n(1-6) .
  have s: "y + 1 - 1970 = (y - 1970) + 1" "y + 1 - 1969 = y - 1968" "y + 1 - 1901 = y - 1900" "y + 1 - 1601 = y - 1600"
    by simp_all
  have m: "y mod 100 = y mod 400 mod 100" "y mod 4 = y mod 100 mod 4" by (simp_all add: mod_mod_cancel)
  define u v w :: int where "u = (if y mod 4 = 0 then 1 else 0)" and "v = (if y mod 100 = 0 then 1 else 0)"
    and "w = (if y mod 400 = 0 then 1 else 0)"
  have "days_before (y + 1) = (y - 1970) * 365 + 1 * 365 + (a + u) - (b + v) + (c + w)"
    unfolding days_before_def s d u_def v_def w_def distrib_right [of _ 1 365] by (rule refl)
  moreover have "days_before y = (y - 1970) * 365 + a - b + c" by (simp only: days_before_def a_def b_def c_def)
  moreover have "year_days y = 365 + u - v + w"
  proof -
    have "y mod 400 = 0 \<longrightarrow> y mod 100 = 0" "y mod 100 = 0 \<longrightarrow> y mod 4 = 0" using m by auto
    then show ?thesis unfolding year_days_def leap_def u_def v_def w_def
      by (cases "y mod 4 = 0"; cases "y mod 100 = 0"; cases "y mod 400 = 0"; simp only: simp_thms if_True if_False; simp)
  qed
  ultimately show ?thesis by linarith
qed

lemma days_before_mono: "y \<le> z \<Longrightarrow> days_before y \<le> days_before z"
proof (induction "nat (z - y)" arbitrary: z)
  case (Suc n)
  then have "days_before y \<le> days_before (z - 1)" by simp
  then show ?case using days_before_Suc [of "z - 1"] year_days_pos [of "z - 1"] by simp
qed simp

lemma split_years_correct:
  "split_years y d = (y', r) \<Longrightarrow> 0 \<le> d \<Longrightarrow>
    days_before y + d = days_before y' + r \<and> 0 \<le> r \<and> r < year_days y' \<and> y \<le> y'"
proof (induction y d rule: split_years.induct)
  case (1 y d)
  show ?case
  proof (cases "year_days y \<le> d")
    case True
    then have "split_years (y + 1) (d - year_days y) = (y', r)" using "1.prems"(1) by (simp add: split_years.simps [of y d])
    from "1.IH" [OF True this] True show ?thesis using days_before_Suc [of y] by simp
  next
    case False
    then show ?thesis using "1.prems" by (simp add: split_years.simps [of y d])
  qed
qed

lemma split_months_correct:
  "split_months m ls d = (m', r) \<Longrightarrow> 0 \<le> d \<Longrightarrow> d < sum_list ls \<Longrightarrow>
    m \<le> m' \<and> m' < m + int (length ls) \<and> 0 \<le> r \<and> r < ls ! nat (m' - m)
    \<and> d = sum_list (take (nat (m' - m)) ls) + r"
proof (induction m ls d rule: split_months.induct)
  case (2 m l ls d)
  show ?case
  proof (cases "d < l")
    case False
    with 2 have i: "m + 1 \<le> m' \<and> m' < m + 1 + int (length ls) \<and> 0 \<le> r \<and> r < ls ! nat (m' - (m + 1))
        \<and> d - l = sum_list (take (nat (m' - (m + 1))) ls) + r" by simp
    moreover from this have "nat (m' - m) = Suc (nat (m' - (m + 1)))" by linarith
    ultimately show ?thesis by simp
  qed (use 2 in auto)
qed simp

text \<open>Seconds since the epoch of a broken down time.\<close>

definition epoch_seconds :: "int \<Rightarrow> int \<Rightarrow> int \<Rightarrow> int \<Rightarrow> int \<Rightarrow> int \<Rightarrow> int" where
  "epoch_seconds y m d h mi s =
     (days_before y + sum_list (take (nat m) (month_days y)) + (d - 1)) * 86400 + h * 3600 + mi * 60 + s"

lemma month_days_sum: "sum_list (month_days y) = year_days y"
  by (simp add: month_days_def year_days_def)

lemma month_days_le: "i < 12 \<Longrightarrow> month_days y ! i \<le> 31"
  by (simp add: month_days_def eval_nat_numeral less_Suc_eq) auto

lemma clock: "(s :: int) = s div 3600 * 3600 + s div 60 mod 60 * 60 + s mod 60"
proof -
  have "s div 3600 = s div 60 div 60" using zdiv_zmult2_eq [of 60 s 60] by simp
  then show ?thesis using div_mult_mod_eq [of s 60] div_mult_mod_eq [of "s div 60" 60] by linarith
qed

lemma clock_range:
  assumes "0 \<le> (s :: int)" "s < 86400"
  shows "0 \<le> s div 3600 \<and> s div 3600 < 24 \<and> 0 \<le> s div 60 mod 60 \<and> s div 60 mod 60 < 60 \<and> 0 \<le> s mod 60 \<and> s mod 60 < 60"
  using assms by (simp add: pos_imp_zdiv_nonneg_iff)

lemma gmtime_correct:
  assumes "0 \<le> t" "t < 253402300800" "gmtime t = \<lparr>tm_year = y, tm_mon = m, tm_mday = d, tm_wday = w,
    tm_hour = h, tm_min = mi, tm_sec = s\<rparr>"
  shows "epoch_seconds y m d h mi s = t \<and> 1970 \<le> y \<and> y \<le> 9999 \<and> 0 \<le> m \<and> m < 12 \<and> 1 \<le> d \<and> d \<le> 31
    \<and> 0 \<le> h \<and> h < 24 \<and> 0 \<le> mi \<and> mi < 60 \<and> 0 \<le> s \<and> s < 60 \<and> w = (t div 86400 + 4) mod 7"
proof -
  obtain y' yd where y': "split_years 1970 (t div 86400) = (y', yd)" by force
  obtain m' md where m': "split_months 0 (month_days y') yd = (m', md)" by force
  have eqs: "y = y'" "m = m'" "d = md + 1" "w = (t div 86400 + 4) mod 7" "h = t mod 86400 div 3600"
    "mi = t mod 86400 div 60 mod 60" "s = t mod 86400 mod 60"
    using assms(3) y' m' by (simp_all add: gmtime_def Let_def)
  have y: "days_before 1970 + t div 86400 = days_before y' + yd" "0 \<le> yd" "yd < year_days y'" "1970 \<le> y'"
    using split_years_correct [OF y'] assms(1) by (auto simp: pos_imp_zdiv_nonneg_iff)
  have m: "0 \<le> m'" "m' < 12" "0 \<le> md" "md < month_days y' ! nat m'" "yd = sum_list (take (nat m') (month_days y')) + md"
    using split_months_correct [OF m' y(2)] y(3) by (auto simp: month_days_sum) (simp add: month_days_def)
  have "md < 31" using m month_days_le [of "nat m'" y'] by linarith
  moreover have "y' \<le> 9999"
  proof (rule ccontr)
    assume "\<not> y' \<le> 9999"
    then have "days_before 10000 \<le> days_before y'" by (intro days_before_mono) simp
    moreover have "t div 86400 < 2932897" using assms(2) by linarith
    ultimately show False using y(1,2) by (simp add: days_before_def)
  qed
  moreover have "epoch_seconds y m d h mi s = t"
  proof -
    define a b where "a = t div 86400" and "b = t mod 86400"
    have "days_before y + sum_list (take (nat m) (month_days y)) + (d - 1) = a"
      using y(1) m(5) by (simp add: eqs days_before_def a_def)
    then have "epoch_seconds y m d h mi s = a * 86400 + h * 3600 + mi * 60 + s"
      by (simp only: epoch_seconds_def)
    moreover have "b = h * 3600 + mi * 60 + s" unfolding eqs b_def [symmetric] by (rule clock)
    moreover have "t = a * 86400 + b" unfolding a_def b_def by simp
    ultimately show ?thesis by linarith
  qed
  moreover have "0 \<le> h \<and> h < 24 \<and> 0 \<le> mi \<and> mi < 60 \<and> 0 \<le> s \<and> s < 60"
    unfolding eqs using clock_range [of "t mod 86400"] by simp
  moreover have "1 \<le> d \<and> d \<le> 31" using m(3) \<open>md < 31\<close> eqs(3) by linarith
  ultimately show ?thesis using m(1,2) y(4) eqs(1,2,4) by blast
qed

subsection \<open>What is printed can be read back\<close>

definition digit_at :: "string \<Rightarrow> nat \<Rightarrow> int" where
  "digit_at s i = byte (s ! i) - 48"

definition number_at :: "string \<Rightarrow> nat \<Rightarrow> int" where
  "number_at s i = 10 * digit_at s i + digit_at s (i + 1)"

text \<open>The reader of a date of the form \<^verbatim>\<open>Thu, 01 Jan 1970 00:00:00 +0000\<close>.\<close>

definition read_date :: "string \<Rightarrow> int" where
  "read_date s = epoch_seconds (100 * number_at s 12 + number_at s 14)
     (int (length (takeWhile (\<lambda>n. n \<noteq> take 3 (drop 8 s)) month_names)))
     (number_at s 5) (number_at s 17) (number_at s 20) (number_at s 23)"

lemma digit_dec_char [simp]: "0 \<le> n \<Longrightarrow> n < 10 \<Longrightarrow> byte (dec_char n) = 48 + n"
  by (simp add: dec_char_def byte_def char_of_int_def)

lemma number_here:
  assumes "0 \<le> n" "n < 100" "i = length xs"
  shows "number_at (xs @ two_digits n @ ys) i = n"
proof -
  have "0 \<le> n div 10" "n div 10 < 10" using assms(1,2) by (simp_all add: pos_imp_zdiv_nonneg_iff)
  then show ?thesis
    by (simp add: number_at_def digit_at_def two_digits_def assms(3) nth_append)
qed

text \<open>A year of four digits is two numbers of two digits.\<close>

lemma decimal_four:
  assumes "1000 \<le> y" "y \<le> 9999"
  shows "decimal y = two_digits (y div 100) @ two_digits (y mod 100)"
proof -
  have "y div 10 div 10 = y div 100" "y div 100 div 10 = y div 1000"
    by (simp_all flip: zdiv_zmult2_eq)
  moreover have "\<not> y < 10" "\<not> y div 10 < 10" "\<not> y div 100 < 10" "y div 1000 < 10" "0 \<le> y div 1000"
    using assms by auto
  moreover have "y mod 100 = 10 * (y div 10 mod 10) + y mod 10" using zmod_zmult2_eq [of 10 y 10] by simp
  then have "y mod 100 mod 10 = y mod 10" "y mod 100 div 10 = y div 10 mod 10" by simp_all
  ultimately show ?thesis
    by (simp add: decimal.simps [of y] decimal.simps [of "y div 10"] decimal.simps [of "y div 100"]
      decimal.simps [of "y div 1000"] two_digits_def)
qed

lemma names_checked:
  "list_all (\<lambda>i. length (day_names ! i) = 3) [0..<7]"
  "list_all (\<lambda>i. length (month_names ! i) = 3 \<and> length (takeWhile (\<lambda>n. n \<noteq> month_names ! i) month_names) = i) [0..<12]"
  by code_simp+

lemma length_3: "length xs = 3 \<Longrightarrow> \<exists>a b c. xs = [a, b, c]"
  by (auto simp: numeral_3_eq_3 length_Suc_conv)

lemma day_name: "i < 7 \<Longrightarrow> \<exists>a b c. day_names ! i = [a, b, c]"
  using names_checked(1) by (intro length_3) (simp add: list_all_iff)

lemma month_name:
  assumes "i < 12"
  shows "\<exists>a b c. month_names ! i = [a, b, c] \<and> length (takeWhile (\<lambda>n. n \<noteq> [a, b, c]) month_names) = i"
proof -
  have n: "length (month_names ! i) = 3" "length (takeWhile (\<lambda>n. n \<noteq> month_names ! i) month_names) = i"
    using names_checked(2) assms by (simp_all add: list_all_iff)
  from length_3 [OF n(1)] n(2) show ?thesis by auto
qed

lemma length_two_digits [simp]: "length (two_digits n) = 2"
  by (simp add: two_digits_def)

lemma strftime_eq:
  "strftime ''%a, %d %b %Y %H:%M:%S +0000'' t = day_names ! nat (tm_wday t) @ '', '' @ two_digits (tm_mday t) @ '' ''
    @ month_names ! nat (tm_mon t) @ '' '' @ decimal (tm_year t) @ '' '' @ two_digits (tm_hour t) @ '':''
    @ two_digits (tm_min t) @ '':'' @ two_digits (tm_sec t) @ '' +0000''"
  by simp

text \<open>What is found at the places of a date.\<close>

lemma date_places:
  assumes "x = [a1, a2, a3] @ '', '' @ two_digits d @ '' '' @ [b1, b2, b3] @ '' '' @ two_digits y1 @ two_digits y2
      @ '' '' @ two_digits h @ '':'' @ two_digits mi @ '':'' @ two_digits s @ '' +0000''"
    "\<forall>n \<in> {d, y1, y2, h, mi, s}. 0 \<le> n \<and> n < 100"
  shows "length x = 31" "take 3 x = [a1, a2, a3]" "take 3 (drop 8 x) = [b1, b2, b3]" "number_at x 5 = d" "number_at x 12 = y1"
    "number_at x 14 = y2" "number_at x 17 = h" "number_at x 20 = mi" "number_at x 23 = s"
proof -
  note n = number_here [of _ _ "[a1, a2, a3] @ _"]
  show "length x = 31" "take 3 x = [a1, a2, a3]" "take 3 (drop 8 x) = [b1, b2, b3]"
    unfolding assms(1) by (simp_all add: two_digits_def)
  show "number_at x 5 = d" using n [of d 5 "'', ''"] assms(2) unfolding assms(1) append_assoc by simp
  show "number_at x 12 = y1"
    using n [of y1 12 "'', '' @ two_digits d @ '' '' @ [b1, b2, b3] @ '' ''"] assms(2) unfolding assms(1) append_assoc by simp
  show "number_at x 14 = y2"
    using n [of y2 14 "'', '' @ two_digits d @ '' '' @ [b1, b2, b3] @ '' '' @ two_digits y1"] assms(2)
    unfolding assms(1) append_assoc by simp
  show "number_at x 17 = h"
    using n [of h 17 "'', '' @ two_digits d @ '' '' @ [b1, b2, b3] @ '' '' @ two_digits y1 @ two_digits y2 @ '' ''"] assms(2)
    unfolding assms(1) append_assoc by simp
  show "number_at x 20 = mi"
    using n [of mi 20 "'', '' @ two_digits d @ '' '' @ [b1, b2, b3] @ '' '' @ two_digits y1 @ two_digits y2 @ '' ''
      @ two_digits h @ '':''"] assms(2) unfolding assms(1) append_assoc by simp
  show "number_at x 23 = s"
    using n [of s 23 "'', '' @ two_digits d @ '' '' @ [b1, b2, b3] @ '' '' @ two_digits y1 @ two_digits y2 @ '' ''
      @ two_digits h @ '':'' @ two_digits mi @ '':''"] assms(2) unfolding assms(1) append_assoc by simp
qed

text \<open>C28: A date of the years 1970 to 9999 has 31 bytes, of which the first three name the day of the
  week and the others, read back with the formula of POSIX, are the time it was made of.\<close>

theorem date_reads_back:
  assumes "0 \<le> t" "t < 253402300800"
  shows "\<exists>x. Date t = Some (view x [NUL]) \<and> length x = 31 \<and> read_date x = t
    \<and> take 3 x = day_names ! nat ((t div 86400 + 4) mod 7)"
proof -
  obtain y m d w h mi s where g: "gmtime t = \<lparr>tm_year = y, tm_mon = m, tm_mday = d, tm_wday = w,
    tm_hour = h, tm_min = mi, tm_sec = s\<rparr>" by (cases "gmtime t") auto
  note c = gmtime_correct [OF assms g]
  have "nat w < 7" using c by simp
  then obtain a1 a2 a3 where a: "day_names ! nat w = [a1, a2, a3]" using day_name by blast
  have "nat m < 12" using c by linarith
  then obtain b1 b2 b3 where b: "month_names ! nat m = [b1, b2, b3]"
    "length (takeWhile (\<lambda>n. n \<noteq> [b1, b2, b3]) month_names) = nat m" using month_name by blast
  define x where "x = strftime ''%a, %d %b %Y %H:%M:%S +0000'' (gmtime t)"
  define y1 y2 where "y1 = y div 100" and "y2 = y mod 100"
  have y: "decimal y = two_digits y1 @ two_digits y2" "100 * y1 + y2 = y" "0 \<le> y1" "y1 < 100" "0 \<le> y2" "y2 < 100"
    using decimal_four [of y] c by (auto simp: y1_def y2_def)
  have x: "x = [a1, a2, a3] @ '', '' @ two_digits d @ '' '' @ [b1, b2, b3] @ '' '' @ two_digits y1 @ two_digits y2
    @ '' '' @ two_digits h @ '':'' @ two_digits mi @ '':'' @ two_digits s @ '' +0000''"
    unfolding x_def strftime_eq g by (simp only: tm.simps a b y(1) append_assoc)
  have "\<forall>n \<in> {d, y1, y2, h, mi, s}. 0 \<le> n \<and> n < 100" using c y by simp
  note p = date_places [OF x this]
  have "int (nat m) = m" using c by simp
  then have "read_date x = t" unfolding read_date_def p using b(2) c y(2) by (simp only:)
  moreover have "Date t = Some (view x [NUL])" unfolding Date_def Let_def x_def [symmetric] using p(1) by simp
  moreover have "take 3 x = day_names ! nat ((t div 86400 + 4) mod 7)" unfolding p(2) using a c by (simp only:)
  ultimately show ?thesis using p(1) by blast
qed

theorem date_reads_back_witness:
  "\<exists>x. Date 1000000000 = Some (view x [NUL]) \<and> read_date x = 1000000000 \<and> take 3 x = ''Sun''"
  using date_reads_back [of 1000000000] by (auto simp: day_names_def)

end
