(* ===== verification/Descriptors.thy ===== *)
theory Descriptors
  imports Client
begin

section \<open>The descriptors of a worker (sockets.c, client.c)\<close>

text \<open>
  The open descriptors of a process with the options that are set on them, and how they change in
  the life of a worker: it gets a connection, sets its options, gives up the port that it was
  accepted on, opens its queue, and closes the connection and the queue at its end.  A call on a
  descriptor that is not open answers - 1 and changes nothing.
\<close>

record descriptor =
  dflags :: "32 word"
  dkeepalive :: bool
  dnodelay :: bool

type_synonym descriptors = "reg \<rightharpoonup> descriptor"

text \<open>The value of the flag on the systems that have kqueue.\<close>

definition O_NONBLOCK :: "32 word" where
  "O_NONBLOCK = 4"

text \<open>The calls \<open>fcntl(fd,F_GETFL,0)\<close>, \<open>close(fd)\<close>, and those that change one descriptor.\<close>

definition get_flags :: "reg \<Rightarrow> descriptors \<Rightarrow> 32 word" where
  "get_flags fd t = (case t fd of None \<Rightarrow> - 1 | Some d \<Rightarrow> dflags d)"

definition change :: "(descriptor \<Rightarrow> descriptor) \<Rightarrow> reg \<Rightarrow> descriptors \<Rightarrow> int \<times> descriptors" where
  "change f fd t = (case t fd of None \<Rightarrow> (- 1, t) | Some d \<Rightarrow> (0, t(fd \<mapsto> f d)))"

definition close_fd :: "reg \<Rightarrow> descriptors \<Rightarrow> int \<times> descriptors" where
  "close_fd fd t = (if t fd = None then (- 1, t) else (0, t(fd := None)))"

subsection \<open>Options\<close>

definition nonblock :: "reg \<Rightarrow> descriptors \<Rightarrow> int \<times> descriptors" where
  "nonblock fd t = (let flags = get_flags fd t in change (dflags_update (\<lambda>_. or flags O_NONBLOCK)) fd t)"

definition keepalive :: "reg \<Rightarrow> descriptors \<Rightarrow> int \<times> descriptors" where
  "keepalive = change (dkeepalive_update (\<lambda>_. True))"

definition nodelay :: "reg \<Rightarrow> descriptors \<Rightarrow> int \<times> descriptors" where
  "nodelay = change (dnodelay_update (\<lambda>_. True))"

subsection \<open>Closing\<close>

text \<open>\<open>close_socket\<close>: whether \<open>SSL_shutdown\<close> is called, and the descriptors that stay open.\<close>

definition close_socket :: "socket option \<Rightarrow> descriptors \<Rightarrow> bool \<times> descriptors" where
  "close_socket sc t = (case sc of None \<Rightarrow> (False, t)
     | Some s \<Rightarrow> (stls s, snd (close_fd (sfd s) t)))"

text \<open>The end of a worker, whose queue is \<open>kq\<close>.\<close>

definition disconnect_fds :: "socket option \<Rightarrow> reg \<Rightarrow> descriptors \<Rightarrow> descriptors" where
  "disconnect_fds sc kq t = snd (close_fd kq (snd (close_socket sc t)))"

subsection \<open>The start of a worker\<close>

text \<open>A new descriptor, and what \<open>handle\<close> does with the descriptors: \<open>sock\<close> is the answer of \<open>accept\<close>
  on the port \<open>fd\<close>, and \<open>kq\<close> that of \<open>kqueue\<close>.  A socket is only made of an answer of at least 1, as
  an unsigned number, and the worker faults without one.\<close>

definition new_descriptor :: descriptor where
  "new_descriptor = \<lparr>dflags = 0, dkeepalive = False, dnodelay = False\<rparr>"

definition accepted :: "int \<Rightarrow> descriptors \<Rightarrow> descriptors" where
  "accepted answer t = (if 0 \<le> answer then t(of_int answer \<mapsto> new_descriptor) else t)"

definition handle_fds :: "reg \<Rightarrow> int \<Rightarrow> reg \<Rightarrow> descriptors \<Rightarrow> descriptors option" where
  "handle_fds fd answer kq t = (let sock = (of_int answer :: reg) in
     if sock < 1 then None
     else (let (_, t) = nonblock sock (accepted answer t); (_, t) = keepalive sock t;
               (_, t) = close_fd fd t; (_, t) = nodelay sock t in
           Some (t(kq \<mapsto> new_descriptor))))"

subsection \<open>What a worker leaves open\<close>

lemma change_open: "t fd = Some d \<Longrightarrow> change f fd t = (0, t(fd \<mapsto> f d))"
  by (simp add: change_def)

lemma change_absent: "t fd = None \<Longrightarrow> change f fd t = (- 1, t)"
  by (simp add: change_def)

lemma reg_of_small: "0 < answer \<Longrightarrow> answer < 2 ^ 31 \<Longrightarrow> \<not> (of_int answer :: reg) < 1"
  by (simp add: word_less_def uint_word_of_int)

text \<open>The connection of a worker does not block, is kept alive and sends without delay; the port is
  closed to it; and when it ends it has closed what it opened.\<close>

theorem worker_descriptors:
  assumes "0 < answer" "answer < 2 ^ 31" "t (of_int answer) = None" "t kq = None" "of_int answer \<noteq> kq" "t fd \<noteq> None"
    "sfd sc = of_int answer"
  shows "\<exists>t'. handle_fds fd answer kq t = Some t'
    \<and> t' = t(fd := None, of_int answer \<mapsto> \<lparr>dflags = O_NONBLOCK, dkeepalive = True, dnodelay = True\<rparr>, kq \<mapsto> new_descriptor)
    \<and> disconnect_fds (Some sc) kq t' = t(fd := None)"
proof -
  obtain d where d: "t fd = Some d" using assms(6) by blast
  have ne: "of_int answer \<noteq> fd" "fd \<noteq> kq" using assms(3,4,6) by auto
  let ?t = "t(fd := None, of_int answer \<mapsto> \<lparr>dflags = O_NONBLOCK, dkeepalive = True, dnodelay = True\<rparr>, kq \<mapsto> new_descriptor)"
  have "handle_fds fd answer kq t = Some ?t"
    using assms(1) d reg_of_small [OF assms(1,2)] ne
    by (simp add: handle_fds_def accepted_def nonblock_def get_flags_def keepalive_def nodelay_def change_def close_fd_def
        new_descriptor_def Let_def fun_upd_twist [of fd])
  moreover have "disconnect_fds (Some sc) kq ?t = t(fd := None)"
    using assms(3-5,7) ne by (auto simp: disconnect_fds_def close_socket_def close_fd_def fun_eq_iff)
  ultimately show ?thesis by blast
qed

theorem worker_descriptors_witness:
  "\<exists>t'. handle_fds 3 5 6 [3 \<mapsto> new_descriptor] = Some t' \<and> disconnect_fds (Some (create_socket 5 False \<lparr>sin_addr = 1, sin_port = 80\<rparr>)) 6 t' = Map.empty"
  using worker_descriptors [of 5 "[3 \<mapsto> new_descriptor]" 6 3 "create_socket 5 False \<lparr>sin_addr = 1, sin_port = 80\<rparr>"]
  by (auto simp: create_socket_def resume_socket_def)

text \<open>A connection that could not be accepted is taken for a descriptor: no option is set on anything, and
  the worker goes on.\<close>

theorem failed_accept_descriptors:
  assumes "t (- 1) = None" "t fd \<noteq> None"
  shows "handle_fds fd (- 1) kq t = Some (t(fd := None, kq \<mapsto> new_descriptor))"
proof -
  have "\<not> (- 1 :: reg) < 1" by simp
  moreover obtain d where "t fd = Some d" using assms(2) by blast
  moreover have "fd \<noteq> - 1" using assms by auto
  ultimately show ?thesis
    using assms(1) by (simp add: handle_fds_def accepted_def nonblock_def keepalive_def nodelay_def change_absent close_fd_def Let_def)
qed

theorem failed_accept_descriptors_witness:
  "handle_fds 3 (- 1) 6 [3 \<mapsto> new_descriptor] = Some (Map.empty(6 \<mapsto> new_descriptor))"
  using failed_accept_descriptors [of "[3 \<mapsto> new_descriptor]" 3 6] by simp

end
