(* ===== verification/Spec2Isabelle.thy ===== *)
theory Spec2Isabelle
  imports Memory Str_Props Headers_Props Auth Uri_Form Content Files_Props Sockets_Props Requests_Props
    Responses_Props Client_Props Worker_Spec Head_Cuts Arrival Site_Path Get_Props Serve_Page Serve_Error Page_Safe Served Server Whole_System
    Server_Start Json_Props Lua_Init Lua_Values Page_Props
    Daemon Lua_Net Usage Dates Descriptors
begin

text \<open>
  A model of Jawas, a web server in C that serves static files and pages with embedded Lua.

  \<^bold>\<open>The program.\<close>  \<open>jawasd\<close> reads its arguments and, when it is told to detach, becomes two
  processes: a supervisor and the server (daemon.c, jawasd.c; \<open>Daemon\<close>).  The server opens a port,
  maps every file of its directory into a cache (files.c; \<open>Files\<close>, \<open>Server_Start\<close>), prepares the
  stored procedures of its database (lua_db.c; \<open>Database\<close>, \<open>Procedures\<close>) and waits for events: a
  connection forks a worker, a changed file is loaded again, the end of a worker is counted
  (server.c; \<open>Server\<close>).  A worker reads a request when its connection is readable, answers it when
  the connection is writable, and exits (client.c; \<open>Client\<close>).  Reading is done by \<open>Sockets\<close>
  (sockets.c), \<open>Requests\<close> (requests.c), \<open>Headers_Parse\<close> (headers.c), \<open>Content\<close> (transfer.c, forms.c)
  and \<open>Uri\<close> (uri.c); answering by \<open>Methods\<close> (methods.c, index.c, mime.c, lws.c), \<open>Mime\<close> (mime.c) and
  \<open>Responses\<close> (responses.c, status.c, script.c, image.c).  A page is a file that \<open>Files\<close> has cut into
  texts and scripts; what a script can call is in \<open>Lua_Api\<close>, \<open>Lua_Net\<close> and \<open>Lua_Init\<close> (lws.c,
  lua_db.c), with the JSON reader in \<open>Json\<close> (lua_json.c) and digests in \<open>Auth\<close> (auth.c).  All of them
  rest on the strings of \<open>Str\<close>, \<open>Str_Num\<close>, \<open>Str_Format\<close> and \<open>Str_Parse\<close> (str.c, log.c) and on the
  allocator in \<open>Memory\<close> (memory.c).  \<open>Net\<close>, \<open>Tls\<close>, \<open>Dates\<close> and \<open>Usage\<close> are sockets.c, hostnames.c,
  timers.c, tls.c, dates.c and usage.c; \<open>Descriptors\<close> follows the descriptors of a worker.

  \<^bold>\<open>Conventions.\<close>  A definition has the name of its C function, with a suffix where HOL has the name
  already; the loops of a function are definitions of their own.  A value of type \<open>'a option\<close> is
  \<open>None\<close> where the C code dereferences NULL, leaves the object that it reads or writes, calls a
  function with an argument it must not have, or does not return; \<open>Some\<close> is a result.  A \<open>str\<close> is
  NULL (\<open>None\<close>) or a length and the bytes from its data pointer to the end of the object, so that
  reads behind the length but inside the object have their C meaning.  A \<open>reg\<close> is a word of 64 bits
  (the build sets \<open>BITS64\<close>), and a \<open>char\<close> is signed where it is converted.  An \<open>int\<close> is an \<open>int\<close> of HOL:
  positions in buffers are bounded by the region, numbers that are read are reduced by \<open>wrap32\<close>, and
  where an \<open>int\<close> meets the size of a mapped file, an \<open>off_t\<close>, the model has the conversion of the code:
  \<open>send_raw\<close> cuts what is left of a file to 32 bits, and the positions of the template scanner are
  sums that must not overflow (\<open>ckint\<close>).  So the theorems about files ask for less than \<open>2 ^ 31\<close> bytes,
  and those about pages for four less and for at most 341 segments, the size of the array of the scanner;
  what happens beyond is shown as well (\<open>large_file_refused\<close>, \<open>large_file_never_ends\<close>, \<open>too_many_parts\<close>).  An \<open>int\<close> that is passed for a conversion of a format is
  read as a \<open>reg\<close>, which is how the calling convention of x86-64 hands it over.  Blocks of the region
  are values, which \<open>Memory\<close> justifies as long as the region is not exhausted: blocks are never
  freed and never overlap, and an object that is shared and changed, as the request of a response is,
  is one component of the state.  The exception is \<open>append\<close>, which writes over a block that lies right
  behind its first argument: \<open>append_in\<close> says when that keeps the text, and each call whether it is one.

  \<^bold>\<open>Parameters.\<close>  What the system answers is an argument: how much a write takes (\<open>kernel\<close>), what
  reads deliver, whether \<open>open\<close>, \<open>stat\<close>, \<open>fork\<close>, \<open>connect\<close> and the like fail, the time.  The record
  \<open>env\<close> holds what a worker gets from outside, the Lua interpreter among it (\<open>estart\<close>, \<open>escript\<close>: a
  script is a change of the worker with an outcome); the record \<open>libpq\<close> is the interface of the
  database over a state of its own; OpenSSL's digests are functions, its handshakes lists of answers.
  The events come in every order: the relations \<open>worker_step\<close>, \<open>pool_step\<close>, \<open>system_step\<close> and
  \<open>service_step\<close> say what can happen to a worker, to the server and the processes of its workers, to both
  with the state of every worker, and to the processes of a service.

  \<^bold>\<open>What is shown.\<close>  \<open>Get_Props\<close> composes the reading and the answering: a request for a cached file
  is answered with a head and a body that decode to the file.  \<open>Site_Path\<close> says which file a host and
  a path lead to, \<open>Arrival\<close> reads a request that comes in pieces and says exactly which pieces a worker
  survives (\<open>Head_Cuts\<close> for one read), and \<open>Serve_Error\<close> answers one that
  fails.  The answers are shown for every system whose writes take all bytes or fail (\<open>whole_writes\<close>):
  the peer gets them, or the part before the write that failed (\<open>delivers\<close>, \<open>Sockets_Props\<close>).  A write
  that takes a part is different: \<open>write_chunk_frame\<close> shows what it does to a chunk.  \<open>Page_Props\<close> shows what a page sends
  whose scripts print, and \<open>Serve_Page\<close> composes it with the parsing of a query string and of a
  posted form, whose variables the interpreter gets.  \<open>Page_Safe\<close> types the segments of a page and
  shows that any file without NUL bytes can be cut into them and evaluated.  \<open>Served\<close> shows that
  nothing but the visible files of the directory can be served; \<open>Whole_System\<close> puts the server and all
  its workers together, carries this through every reload, and shows that the server and its workers
  agree and that the server can always answer while it has room; and \<open>Client_Props\<close>, \<open>Server\<close> and \<open>Daemon\<close> hold the invariants of their relations;
  \<open>Worker_Spec\<close> states the protocol of a worker as a machine of three phases that the event loop
  implements.  \<open>Headers_Sort\<close>, \<open>Headers_Props\<close>, \<open>Str_Props\<close>, \<open>Uri\<close>, \<open>Uri_Form\<close>, \<open>Files_Props\<close>, \<open>Sockets_Props\<close>,
  \<open>Requests_Props\<close>, \<open>Responses_Props\<close>, \<open>Content\<close> and \<open>Dates\<close> relate the routines to what they are
  meant to compute: permutations, round trips of printing and parsing, of encoding and decoding, of
  chunked bodies.  \<open>Lua_Query\<close> compares the text of a query with a reference substitution and with
  how the database reads a literal, and says when the end of a query is lost; \<open>Lua_Values\<close> runs the calls that build JSON values and rows on a
  model of the Lua stack (\<open>Lua_Stack\<close>).  Where the code does something else than it means to, the
  theorem states what it does: chunked requests never end, a request whose first packet
  ends inside the name of a field stops the worker, error pages are not found, a file of 2 GiB is
  not sent, a restart ends the service, a supervisor that is interrupted leaves its server alone, a
  posted request is not sent, a server without a database does not start.

  The interfaces are locales with interpretations on the model: \<open>byte_source\<close> for what can be
  scanned, \<open>checked_search\<close> for the loops that look for the first entry of a table, \<open>assoc_table\<close> for
  the header table and \<open>bump_allocator\<close> for the region.  The four step relations are instances of
  \<open>invariant_system\<close>, which extends \<open>transition_system\<close> (\<open>Transitions\<close>); the worker with its
  protocol and the system seen from its server are instances of \<open>simulation\<close>.

  \<^bold>\<open>Loops.\<close>  Nearly all loops are total functions with a measure.  Those that the environment or the
  data can keep from ending are \<open>partial_function (option)\<close>: the scans for a byte that may be
  missing, \<open>skip_headers_loop\<close> and the loop over chunks, the JSON loop, and the loop that sends a file.
  That sending a file below \<open>2 ^ 31\<close> bytes ends is shown for every kernel that takes at least a byte or
  fails (\<open>Responses_Props\<close>), and that a chunked request never ends in \<open>Content\<close>.  No fuel is used.

  \<^bold>\<open>Not modelled.\<close>  The calls of kqueue (bsd.c), whose answers are the order of the steps; \<open>syslog\<close>;
  what SSL reads and writes, because \<open>use_tls\<close> is 0; the Lua
  interpreter, which is a library; the texts of strings.c for SMS replies, which nothing uses.
\<close>

end
